(* ===== verification/Prelude.thy ===== *)
theory Prelude
  imports Main
begin

text \<open>
  The vocabulary every other theory shares: the names of the model's types, clock readings and
  durations with the arithmetic of \<open>std::time\<close>, the result type of fallible code, and generic
  facts on maps and lists.

  A \<open>std::time::Duration\<close> is its number of nanoseconds and an \<open>Instant\<close> the number of
  nanoseconds since the start of a monotonic clock, both as \<open>nat\<close>. Every subtraction the code
  makes on them saturates at zero (\<open>saturating_sub\<close>, and \<open>Instant::elapsed\<close>, which returns zero
  for an instant in the future), which is what subtraction on \<open>nat\<close> does. \<open>as u64\<close> keeps the low
  64 bits, written out with \<open>mod\<close>.
\<close>

named_theorems lease_simps \<open>definitions of the operations of a lease\<close>
named_theorems pool_simps \<open>definitions of the operations of the connection pool\<close>

type_synonym redis_key = string
type_synonym uuid = string
type_synonym duration = nat
type_synonym instant = nat
type_synonym ('e, 'a) result = "'e + 'a"

subsection \<open>Durations and instants\<close>

definition nanos_per_milli :: nat where
  "nanos_per_milli = 1000000"

definition from_nanos :: "nat \<Rightarrow> duration" where
  "from_nanos n = n"

definition from_millis :: "nat \<Rightarrow> duration" where
  "from_millis m = m * nanos_per_milli"

definition from_secs :: "nat \<Rightarrow> duration" where
  "from_secs s = from_millis (s * 1000)"

definition as_millis :: "duration \<Rightarrow> nat" where
  "as_millis d = d div nanos_per_milli"

definition as_u64 :: "nat \<Rightarrow> nat" where
  "as_u64 n = n mod 2 ^ 64"

definition elapsed :: "instant \<Rightarrow> instant \<Rightarrow> duration" where
  "elapsed now start = now - start"

lemma nanos_per_milli_pos [simp]: "0 < nanos_per_milli"
  by (simp add: nanos_per_milli_def)

lemma as_millis_from_millis [simp]: "as_millis (from_millis m) = m"
  by (simp add: as_millis_def from_millis_def nanos_per_milli_def)

lemma from_millis_as_millis_le: "from_millis (as_millis d) \<le> d"
  by (simp add: as_millis_def from_millis_def)

lemma less_from_millis_Suc_as_millis: "d < from_millis (Suc (as_millis d))"
  unfolding as_millis_def from_millis_def
  using dividend_less_div_times nanos_per_milli_pos by (simp add: add.commute)

lemma as_u64_id: "n < 2 ^ 64 \<Longrightarrow> as_u64 n = n"
  by (simp add: as_u64_def)

lemma from_millis_le_iff [simp]: "from_millis a \<le> from_millis b \<longleftrightarrow> a \<le> b"
  by (simp add: from_millis_def)

lemma from_millis_less_iff [simp]: "from_millis a < from_millis b \<longleftrightarrow> a < b"
  by (simp add: from_millis_def)

lemma from_millis_eq_0_iff [simp]: "from_millis a = 0 \<longleftrightarrow> a = 0"
  by (simp add: from_millis_def nanos_per_milli_def)

lemma as_millis_0_iff: "as_millis d = 0 \<longleftrightarrow> d < nanos_per_milli"
  by (simp add: as_millis_def nanos_per_milli_def div_eq_0_iff)

subsection \<open>Updating a map at the keys of a list\<close>

text \<open>
  \<open>update_at A g m\<close> applies \<open>g\<close> to the entry of every key in \<open>A\<close>. The Redis scripts walk over
  their keys and change the entry of each; what such a loop leaves behind is an \<open>update_at\<close>.
\<close>

definition update_at :: "'k set \<Rightarrow> ('v \<Rightarrow> 'v) \<Rightarrow> ('k \<Rightarrow> 'v) \<Rightarrow> 'k \<Rightarrow> 'v" where
  "update_at A g m = (\<lambda>k. if k \<in> A then g (m k) else m k)"

lemma update_at_empty [simp]: "update_at {} g m = m"
  by (simp add: update_at_def)

lemma update_at_id [simp]: "update_at A (\<lambda>x. x) m = m"
  by (simp add: update_at_def)

lemma update_at_apply: "update_at A g m k = (if k \<in> A then g (m k) else m k)"
  by (simp add: update_at_def)

lemma update_at_in [simp]: "k \<in> A \<Longrightarrow> update_at A g m k = g (m k)"
  by (simp add: update_at_def)

lemma update_at_notin [simp]: "k \<notin> A \<Longrightarrow> update_at A g m k = m k"
  by (simp add: update_at_def)

lemma update_at_update_at [simp]: "update_at A g (update_at A f m) = update_at A (g \<circ> f) m"
  by (simp add: update_at_def fun_eq_iff)

lemma update_at_insert_fun_upd:
  assumes "g (g (m k)) = g (m k)"
  shows "update_at A g (m(k := g (m k))) = update_at (insert k A) g m"
  using assms by (auto simp: update_at_def fun_eq_iff)

subsection \<open>The keys a checking loop visits\<close>

text \<open>
  A loop that stops at the first key whose entry is bad visits the keys up to and including it.
\<close>

fun upto_first :: "('a \<Rightarrow> bool) \<Rightarrow> 'a list \<Rightarrow> 'a list" where
  "upto_first bad [] = []"
| "upto_first bad (x # xs) = x # (if bad x then [] else upto_first bad xs)"

lemma set_upto_first: "set (upto_first bad xs) \<subseteq> set xs"
  by (induction xs) auto

lemma upto_first_all: "\<forall>x\<in>set xs. \<not> bad x \<Longrightarrow> upto_first bad xs = xs"
  by (induction xs) auto

lemma upto_first_cong:
  "(\<And>x. x \<in> set xs \<Longrightarrow> p x = q x) \<Longrightarrow> upto_first p xs = upto_first q xs"
  by (induction xs) auto

end
