(* ===== verification/Decimal.thy ===== *)
theory Decimal
  imports Prelude
begin

text \<open>
  Decimal numerals. The redis client writes integer arguments in decimal, and the Lua scripts
  read them back with \<open>string.match(raw, "^[1-9][0-9]*$")\<close> and \<open>tonumber\<close>. The theory holds the
  writer, the pattern, the reader and the round trip between them.
\<close>

subsection \<open>Writing\<close>

definition digit_char :: "nat \<Rightarrow> char" where
  "digit_char d = char_of (48 + d)"

fun show_nat :: "nat \<Rightarrow> string" where
  "show_nat n = (if n < 10 then [digit_char n] else show_nat (n div 10) @ [digit_char (n mod 10)])"

declare show_nat.simps [simp del]

definition show_int :: "int \<Rightarrow> string" where
  "show_int i = (if i < 0 then CHR ''-'' # show_nat (nat (- i)) else show_nat (nat i))"

subsection \<open>Reading\<close>

definition is_digit :: "char \<Rightarrow> bool" where
  "is_digit c \<longleftrightarrow> 48 \<le> (of_char c :: nat) \<and> (of_char c :: nat) \<le> 57"

definition digit_val :: "char \<Rightarrow> nat" where
  "digit_val c = of_char c - 48"

definition parse_digits :: "string \<Rightarrow> nat" where
  "parse_digits cs = foldl (\<lambda>a c. 10 * a + digit_val c) 0 cs"

text \<open>The Lua pattern \<open>^[1-9][0-9]*$\<close>.\<close>

fun match_positive :: "string \<Rightarrow> bool" where
  "match_positive [] = False"
| "match_positive (c # cs) = (is_digit c \<and> c \<noteq> CHR ''0'' \<and> list_all is_digit cs)"

text \<open>
  Lua's \<open>tonumber\<close> on a string, for the decimal integers that the scripts pass to it: the
  digits of a validated argument, of a sorted-set score and of the server time.
\<close>

definition lua_tonumber :: "string \<Rightarrow> int option" where
  "lua_tonumber s =
     (case s of
        [] \<Rightarrow> None
      | c # cs \<Rightarrow>
          (if c = CHR ''-'' \<and> cs \<noteq> [] \<and> list_all is_digit cs then Some (- int (parse_digits cs))
           else if list_all is_digit (c # cs) then Some (int (parse_digits (c # cs)))
           else None))"

subsection \<open>The round trip\<close>

lemma of_char_digit_char: "d < 10 \<Longrightarrow> (of_char (digit_char d) :: nat) = 48 + d"
  by (simp add: digit_char_def)

lemma is_digit_digit_char [simp]: "d < 10 \<Longrightarrow> is_digit (digit_char d)"
  by (simp add: is_digit_def of_char_digit_char)

lemma digit_val_digit_char [simp]: "d < 10 \<Longrightarrow> digit_val (digit_char d) = d"
  by (simp add: digit_val_def of_char_digit_char)

lemma parse_digits_append_one: "parse_digits (cs @ [c]) = 10 * parse_digits cs + digit_val c"
  by (simp add: parse_digits_def)

lemma parse_digits_show_nat [simp]: "parse_digits (show_nat n) = n"
proof (induction n rule: show_nat.induct)
  case (1 n)
  then show ?case
    by (cases "n < 10")
      (simp_all add: show_nat.simps [of n] parse_digits_append_one, simp add: parse_digits_def)
qed

lemma digits_show_nat: "list_all is_digit (show_nat n)"
proof (induction n rule: show_nat.induct)
  case (1 n)
  then show ?case by (cases "n < 10") (simp_all add: show_nat.simps [of n])
qed

lemma show_nat_nonempty [simp]: "show_nat n \<noteq> []"
  by (subst show_nat.simps) simp

lemma digit_char_eq_0_iff: "d < 10 \<Longrightarrow> digit_char d = CHR ''0'' \<longleftrightarrow> d = 0"
proof -
  assume d: "d < 10"
  have "digit_char d = CHR ''0'' \<longleftrightarrow> (of_char (digit_char d) :: nat) = of_char (CHR ''0'')"
    by (simp only: of_char_eq_iff)
  also have "\<dots> \<longleftrightarrow> d = 0" using d by (simp add: of_char_digit_char)
  finally show ?thesis .
qed

lemma hd_show_nat: "0 < n \<Longrightarrow> hd (show_nat n) \<noteq> CHR ''0''"
proof (induction n rule: show_nat.induct)
  case (1 n)
  then show ?case
    by (cases "n < 10") (simp_all add: show_nat.simps [of n] digit_char_eq_0_iff)
qed

lemma match_positive_show_nat: "match_positive (show_nat n) \<longleftrightarrow> 0 < n"
proof (cases "n = 0")
  case True
  then show ?thesis by (simp add: show_nat.simps [of 0] digit_char_eq_0_iff)
next
  case False
  obtain c cs where c: "show_nat n = c # cs" by (cases "show_nat n") auto
  with hd_show_nat [of n] digits_show_nat [of n] False show ?thesis by simp
qed

lemma not_is_digit_minus [simp]: "\<not> is_digit CHR ''-''"
  by (simp add: is_digit_def)

lemma lua_tonumber_digits:
  "cs \<noteq> [] \<Longrightarrow> list_all is_digit cs \<Longrightarrow> lua_tonumber cs = Some (int (parse_digits cs))"
  by (cases cs) (auto simp: lua_tonumber_def)

lemma lua_tonumber_show_nat [simp]: "lua_tonumber (show_nat n) = Some (int n)"
  by (simp add: lua_tonumber_digits digits_show_nat)

lemma lua_tonumber_show_int [simp]: "lua_tonumber (show_int i) = Some i"
  by (auto simp: show_int_def lua_tonumber_digits digits_show_nat) (simp add: lua_tonumber_def digits_show_nat)

lemma match_positive_tonumber:
  "match_positive s \<Longrightarrow> lua_tonumber s = Some (int (parse_digits s))"
  by (cases s) (auto simp: lua_tonumber_def)

lemma foldl_digits_ge: "a \<le> foldl (\<lambda>a c. 10 * a + digit_val c) a cs"
proof (induction cs arbitrary: a)
  case Nil
  then show ?case by simp
next
  case (Cons c cs)
  have "a \<le> 10 * a + digit_val c" by simp
  also have "\<dots> \<le> foldl (\<lambda>a c. 10 * a + digit_val c) (10 * a + digit_val c) cs"
    by (rule Cons.IH)
  finally show ?case by simp
qed

lemma match_positive_parse_pos: "match_positive s \<Longrightarrow> 0 < parse_digits s"
proof (cases s)
  case (Cons c cs)
  assume m: "match_positive s"
  with Cons have "is_digit c" "c \<noteq> CHR ''0''" by auto
  moreover have "(of_char c :: nat) \<noteq> 48"
    using \<open>c \<noteq> CHR ''0''\<close> of_char_eq_iff [of c "CHR ''0''"] by auto
  ultimately have "0 < digit_val c" by (simp add: digit_val_def is_digit_def)
  also have "digit_val c \<le> foldl (\<lambda>a c. 10 * a + digit_val c) (digit_val c) cs"
    by (rule foldl_digits_ge)
  finally show ?thesis using Cons by (simp add: parse_digits_def)
qed simp

end
