(* ===== verification/Redis.thy ===== *)
theory Redis
  imports Decimal
begin

text \<open>
  The Redis server as the library relies on it. Redis is a service outside the repository, so it
  is a parameter of the model: a function \<open>call\<close> that executes one command on a server state and
  returns the reply and the next state. The locale \<open>redis_server\<close> states, as named laws, the
  documented behaviour of the fifteen commands that \<open>src/scripts.rs\<close> and the two
  \<open>operations.rs\<close> send, in terms of what a client can observe: \<open>view\<close>, the unexpired keys with
  their typed values and expiry times, and \<open>now\<close>, the server time in milliseconds. The locale
  \<open>redis_clock\<close> adds the passage of time. Both are interpreted in theory \<open>Mem_Redis\<close>.

  Redis freezes its clock while a script runs, so \<open>now\<close> does not change in a command; time passes
  between scripts. Scores are integers: the scripts only write integers of at most 53 bits, which
  Lua numbers and Redis scores hold exactly.
\<close>

subsection \<open>Commands and replies\<close>

datatype command =
    Exists redis_key
  | Set_PX redis_key string string      \<comment> \<open>\<open>SET key value PX ms\<close>\<close>
  | Set_NX_PX redis_key string string   \<comment> \<open>\<open>SET key value NX PX ms\<close>\<close>
  | Get redis_key
  | Del redis_key
  | Type_of redis_key
  | Pexpire redis_key string
  | Pttl redis_key
  | Server_time
  | Zadd redis_key int string
  | Zrem redis_key string
  | Zcard redis_key
  | Zcount redis_key string string
  | Zscore redis_key string
  | Zremrangebyscore redis_key int int

datatype reply =
    NilReply
  | IntReply int
  | BulkReply string
  | StatusReply string
  | ArrayReply "reply list"
  | ErrorReply string

type_synonym 's redis_call = "command \<Rightarrow> 's \<Rightarrow> reply \<times> 's"

definition is_error :: "reply \<Rightarrow> bool" where
  "is_error r \<longleftrightarrow> (\<exists>msg. r = ErrorReply msg)"

lemma is_error_ErrorReply [simp]: "is_error (ErrorReply msg)"
  by (simp add: is_error_def)

subsection \<open>What a client observes\<close>

datatype redis_value =
    RString string
  | RZset "string \<rightharpoonup> int"   \<comment> \<open>members with their scores\<close>
  | ROther string             \<comment> \<open>a value of another type, with the name of the type\<close>

text \<open>A value with its expiry time in milliseconds, if it has one.\<close>

type_synonym entry = "redis_value \<times> int option"
type_synonym keyspace = "redis_key \<Rightarrow> entry option"

fun type_name :: "entry option \<Rightarrow> string" where
  "type_name None = ''none''"
| "type_name (Some (RString v, e)) = ''string''"
| "type_name (Some (RZset z, e)) = ''zset''"
| "type_name (Some (ROther t, e)) = t"

text \<open>
  The members of the sorted set at a key: a missing key is an empty set, and \<open>None\<close> means that
  the key holds a value of the wrong type.
\<close>

fun zset_of :: "entry option \<Rightarrow> (string \<rightharpoonup> int) option" where
  "zset_of None = Some Map.empty"
| "zset_of (Some (RZset z, e)) = Some z"
| "zset_of (Some (RString v, e)) = None"
| "zset_of (Some (ROther t, e)) = None"

fun expiry_of :: "entry option \<Rightarrow> int option" where
  "expiry_of None = None"
| "expiry_of (Some (v, e)) = e"

text \<open>A changed sorted set keeps the key's expiry; an empty one removes the key.\<close>

definition put_zset :: "entry option \<Rightarrow> (string \<rightharpoonup> int) \<Rightarrow> entry option" where
  "put_zset x z = (if z = Map.empty then None else Some (RZset z, expiry_of x))"

fun set_expiry :: "int \<Rightarrow> entry option \<Rightarrow> entry option" where
  "set_expiry t None = None"
| "set_expiry t (Some (v, e)) = Some (v, Some t)"

definition zset_purge :: "int \<Rightarrow> int \<Rightarrow> (string \<rightharpoonup> int) \<Rightarrow> string \<rightharpoonup> int" where
  "zset_purge lo hi z =
     (\<lambda>m. case z m of None \<Rightarrow> None | Some sc \<Rightarrow> if lo \<le> sc \<and> sc \<le> hi then None else Some sc)"

text \<open>The expiry times a command accepts: positive, with an expiry that fits 63 bits.\<close>

definition px_ok :: "int \<Rightarrow> int \<Rightarrow> bool" where
  "px_ok now t \<longleftrightarrow> 0 < t \<and> now + t < 2 ^ 63"

lemma zset_of_put_zset [simp]: "zset_of (put_zset x z) = Some z"
  by (simp add: put_zset_def)

lemma expiry_of_set_expiry [simp]: "expiry_of (set_expiry t (Some x)) = Some t"
  by (cases x) simp

lemma zset_purge_empty [simp]: "zset_purge lo hi Map.empty = Map.empty"
  by (simp add: zset_purge_def)

lemma zset_purge_Some:
  "zset_purge lo hi z m = Some sc \<longleftrightarrow> z m = Some sc \<and> \<not> (lo \<le> sc \<and> sc \<le> hi)"
  by (auto simp: zset_purge_def split: option.splits if_splits)

lemma zset_purge_idem [simp]: "zset_purge lo hi (zset_purge lo hi z) = zset_purge lo hi z"
  by (auto simp: zset_purge_def fun_eq_iff split: option.splits)

lemma finite_dom_zset_purge: "finite (dom z) \<Longrightarrow> finite (dom (zset_purge lo hi z))"
  by (rule finite_subset [of _ "dom z"]) (auto simp: zset_purge_Some)

lemma type_name_zset_or_none:
  "zset_of x = Some z \<Longrightarrow> type_name x = ''none'' \<or> type_name x = ''zset''"
  by (cases x rule: zset_of.cases) auto

subsection \<open>The contract of the server\<close>

locale redis_server =
  fixes call :: "command \<Rightarrow> 's \<Rightarrow> reply \<times> 's"
    and view :: "'s \<Rightarrow> redis_key \<Rightarrow> entry option"
    and now :: "'s \<Rightarrow> int"
  assumes now_call [simp]: "now (snd (call c s)) = now s"
    and view_zset: "view s k = Some (RZset z, e) \<Longrightarrow> z \<noteq> Map.empty \<and> finite (dom z)"
    and view_live: "view s k = Some (w, Some t) \<Longrightarrow> now s \<le> t"
    and view_other: "view s k = Some (ROther ty, e) \<Longrightarrow> ty \<noteq> ''none'' \<and> ty \<noteq> ''string'' \<and> ty \<noteq> ''zset''"
    and call_exists:
      "fst (call (Exists k) s) = IntReply (if view s k = None then 0 else 1)"
      "view (snd (call (Exists k) s)) = view s"
    and call_type:
      "fst (call (Type_of k) s) = StatusReply (type_name (view s k))"
      "view (snd (call (Type_of k) s)) = view s"
    and call_get_none: "view s k = None \<Longrightarrow> fst (call (Get k) s) = NilReply"
    and call_get_string: "view s k = Some (RString v, e) \<Longrightarrow> fst (call (Get k) s) = BulkReply v"
    and call_get_wrongtype:
      "view s k = Some (w, e) \<Longrightarrow> \<nexists>str. w = RString str \<Longrightarrow> is_error (fst (call (Get k) s))"
    and call_get_view: "view (snd (call (Get k) s)) = view s"
    and call_del:
      "fst (call (Del k) s) = IntReply (if view s k = None then 0 else 1)"
      "view (snd (call (Del k) s)) = (view s)(k := None)"
    and call_set_px:
      "lua_tonumber raw = Some t \<Longrightarrow> px_ok (now s) t \<Longrightarrow>
         fst (call (Set_PX k v raw) s) = StatusReply ''OK''"
      "lua_tonumber raw = Some t \<Longrightarrow> px_ok (now s) t \<Longrightarrow>
         view (snd (call (Set_PX k v raw) s)) = (view s)(k := Some (RString v, Some (now s + t)))"
    and call_set_nx_px:
      "lua_tonumber raw = Some t \<Longrightarrow> px_ok (now s) t \<Longrightarrow>
         fst (call (Set_NX_PX k v raw) s) =
           (if view s k = None then StatusReply ''OK'' else NilReply)"
      "lua_tonumber raw = Some t \<Longrightarrow> px_ok (now s) t \<Longrightarrow>
         view (snd (call (Set_NX_PX k v raw) s)) =
           (if view s k = None then (view s)(k := Some (RString v, Some (now s + t))) else view s)"
    and call_pexpire:
      "lua_tonumber raw = Some t \<Longrightarrow> px_ok (now s) t \<Longrightarrow>
         fst (call (Pexpire k raw) s) = IntReply (if view s k = None then 0 else 1)"
      "lua_tonumber raw = Some t \<Longrightarrow> px_ok (now s) t \<Longrightarrow>
         view (snd (call (Pexpire k raw) s)) = (view s)(k := set_expiry (now s + t) (view s k))"
    and call_pttl:
      "fst (call (Pttl k) s) =
         IntReply (case view s k of None \<Rightarrow> - 2 | Some (w, None) \<Rightarrow> - 1 | Some (w, Some t) \<Rightarrow> t - now s)"
      "view (snd (call (Pttl k) s)) = view s"
    and call_time:
      "\<exists>a b secs micros. fst (call Server_time s) = ArrayReply [BulkReply a, BulkReply b] \<and>
         lua_tonumber a = Some secs \<and> lua_tonumber b = Some micros \<and>
         now s = secs * 1000 + micros div 1000"
      "view (snd (call Server_time s)) = view s"
    and call_zadd:
      "zset_of (view s k) = Some z \<Longrightarrow>
         fst (call (Zadd k sc m) s) = IntReply (if z m = None then 1 else 0)"
      "zset_of (view s k) = Some z \<Longrightarrow>
         view (snd (call (Zadd k sc m) s)) = (view s)(k := put_zset (view s k) (z(m \<mapsto> sc)))"
    and call_zrem:
      "zset_of (view s k) = Some z \<Longrightarrow>
         fst (call (Zrem k m) s) = IntReply (if z m = None then 0 else 1)"
      "zset_of (view s k) = Some z \<Longrightarrow>
         view (snd (call (Zrem k m) s)) = (view s)(k := put_zset (view s k) (z(m := None)))"
    and call_zcard:
      "zset_of (view s k) = Some z \<Longrightarrow> fst (call (Zcard k) s) = IntReply (int (card (dom z)))"
      "view (snd (call (Zcard k) s)) = view s"
    and call_zcount_negative:
      "zset_of (view s k) = Some z \<Longrightarrow>
         fst (call (Zcount k ''-inf'' ''(0'') s) =
           IntReply (int (card {m. \<exists>sc. z m = Some sc \<and> sc < 0}))"
      "view (snd (call (Zcount k smin smax) s)) = view s"
    and call_zscore_none:
      "zset_of (view s k) = Some z \<Longrightarrow> z m = None \<Longrightarrow> fst (call (Zscore k m) s) = NilReply"
    and call_zscore_some:
      "zset_of (view s k) = Some z \<Longrightarrow> z m = Some sc \<Longrightarrow>
         \<exists>str. fst (call (Zscore k m) s) = BulkReply str \<and> lua_tonumber str = Some sc"
    and call_zscore_view: "view (snd (call (Zscore k m) s)) = view s"
    and call_zremrangebyscore:
      "zset_of (view s k) = Some z \<Longrightarrow>
         fst (call (Zremrangebyscore k lo hi) s) =
           IntReply (int (card {m. \<exists>sc. z m = Some sc \<and> lo \<le> sc \<and> sc \<le> hi}))"
      "zset_of (view s k) = Some z \<Longrightarrow>
         view (snd (call (Zremrangebyscore k lo hi) s)) =
           (view s)(k := put_zset (view s k) (zset_purge lo hi z))"
begin

text \<open>Reading commands leave every observation unchanged.\<close>

lemmas reads_view [simp] =
  call_exists(2) call_type(2) call_get_view call_pttl(2) call_time(2) call_zcard(2)
  call_zcount_negative(2) call_zscore_view

lemma finite_zset_of: "zset_of (view s k) = Some z \<Longrightarrow> finite (dom z)"
  using view_zset [of s k] by (cases "view s k" rule: zset_of.cases) auto

lemma put_zset_same: "zset_of (view s k) = Some z \<Longrightarrow> put_zset (view s k) z = view s k"
  using view_zset [of s k] by (cases "view s k" rule: zset_of.cases) (auto simp: put_zset_def)

end

text \<open>
  Time passes: a key whose expiry time is behind the clock is gone, and no other observation
  changes.
\<close>

definition expire_at :: "int \<Rightarrow> entry option \<Rightarrow> entry option" where
  "expire_at t x = (case x of Some (v, Some e) \<Rightarrow> if t \<le> e then x else None | _ \<Rightarrow> x)"

locale redis_clock = redis_server call view now
  for call :: "command \<Rightarrow> 's \<Rightarrow> reply \<times> 's"
    and view :: "'s \<Rightarrow> redis_key \<Rightarrow> entry option"
    and now :: "'s \<Rightarrow> int" +
  fixes advance :: "int \<Rightarrow> 's \<Rightarrow> 's"
  assumes now_advance: "0 \<le> d \<Longrightarrow> now (advance d s) = now s + d"
    and view_advance: "0 \<le> d \<Longrightarrow> view (advance d s) k = expire_at (now s + d) (view s k)"
begin

lemma view_advance_live:
  "0 \<le> d \<Longrightarrow> view s k = Some (v, Some t) \<Longrightarrow> now s + d \<le> t \<Longrightarrow> view (advance d s) k = view s k"
  by (simp add: view_advance expire_at_def)

lemma view_advance_dead:
  "0 \<le> d \<Longrightarrow> view s k = Some (v, Some t) \<Longrightarrow> t < now s + d \<Longrightarrow> view (advance d s) k = None"
  by (simp add: view_advance expire_at_def)

lemma view_advance_absent: "0 \<le> d \<Longrightarrow> view s k = None \<Longrightarrow> view (advance d s) k = None"
  by (simp add: view_advance expire_at_def)

end

end
