(* ===== verification/Lua_Scripts.thy ===== *)
theory Lua_Scripts
  imports Redis
begin

text \<open>
  The nine Lua scripts of \<open>src/scripts.rs\<close>. A script is a computation over the server state that
  ends with a value, with an early \<open>return\<close>, or with an error. The definitions keep the order of
  the Lua text: the preflight fragments first, then the loops over \<open>KEYS\<close>. Redis runs a script
  atomically, so a script is one function from the server state before it to the state after it;
  what a script wrote before an error stays written, as in Redis.

  Lua numbers are integers here. The scripts compare and store integers only, and reject every
  value above \<open>2 ^ 53 - 1\<close> before computing with it, so no rounding takes place.
\<close>

subsection \<open>Lua computations\<close>

datatype lua_exit =
    Return int      \<comment> \<open>\<open>return n\<close> before the end of the script\<close>
  | Raise string    \<comment> \<open>\<open>return redis.error_reply(...)\<close>, or an error a command or an operation raised\<close>

type_synonym ('s, 'a) lua = "'s \<Rightarrow> (lua_exit + 'a) \<times> 's"

definition lua_pure :: "'a \<Rightarrow> ('s, 'a) lua" where
  "lua_pure a s = (Inr a, s)"

definition lua_stop :: "lua_exit \<Rightarrow> ('s, 'a) lua" where
  "lua_stop x s = (Inl x, s)"

definition lua_bind :: "('s, 'a) lua \<Rightarrow> ('a \<Rightarrow> ('s, 'b) lua) \<Rightarrow> ('s, 'b) lua" where
  "lua_bind m f s = (case m s of (Inl x, s') \<Rightarrow> (Inl x, s') | (Inr a, s') \<Rightarrow> f a s')"

definition lua_then :: "('s, 'a) lua \<Rightarrow> ('s, 'b) lua \<Rightarrow> ('s, 'b) lua" where
  "lua_then m n = lua_bind m (\<lambda>_. n)"

text \<open>\<open>redis.call\<close> raises an error reply; every other reply is its value.\<close>

definition redis_call :: "'s redis_call \<Rightarrow> command \<Rightarrow> ('s, reply) lua" where
  "redis_call call c s =
     (case call c s of (ErrorReply msg, s') \<Rightarrow> (Inl (Raise msg), s') | (r, s') \<Rightarrow> (Inr r, s'))"

text \<open>\<open>for i = 1, #KEYS do ... end\<close>, and the same loop adding to a \<open>count\<close>.\<close>

fun for_keys :: "redis_key list \<Rightarrow> (redis_key \<Rightarrow> ('s, unit) lua) \<Rightarrow> ('s, unit) lua" where
  "for_keys [] f = lua_pure ()"
| "for_keys (k # ks) f = lua_then (f k) (for_keys ks f)"

fun for_count :: "redis_key list \<Rightarrow> (redis_key \<Rightarrow> ('s, int) lua) \<Rightarrow> int \<Rightarrow> ('s, int) lua" where
  "for_count [] f count = lua_pure count"
| "for_count (k # ks) f count = lua_bind (f k) (\<lambda>d. for_count ks f (count + d))"

definition eval_script :: "('s, int) lua \<Rightarrow> 's \<Rightarrow> (string, int) result \<times> 's" where
  "eval_script m s =
     (case m s of
        (Inl (Return n), s') \<Rightarrow> (Inr n, s')
      | (Inl (Raise msg), s') \<Rightarrow> (Inl msg, s')
      | (Inr n, s') \<Rightarrow> (Inr n, s'))"

subsection \<open>Lua values\<close>

text \<open>\<open>ARGV[i]\<close>, with \<open>nil\<close> outside the table; using \<open>nil\<close> as a string raises an error.\<close>

definition lua_index :: "string list \<Rightarrow> nat \<Rightarrow> string option" where
  "lua_index xs i = (if 1 \<le> i \<and> i \<le> length xs then Some (xs ! (i - 1)) else None)"

definition lua_string :: "string option \<Rightarrow> ('s, string) lua" where
  "lua_string x =
     (case x of None \<Rightarrow> lua_stop (Raise ''attempt to use a nil value as a string'')
              | Some v \<Rightarrow> lua_pure v)"

definition lua_number :: "reply \<Rightarrow> ('s, int) lua" where
  "lua_number r =
     (case r of IntReply n \<Rightarrow> lua_pure n
              | _ \<Rightarrow> lua_stop (Raise ''attempt to perform arithmetic on a non-number''))"

text \<open>\<open>reply == ARGV[i]\<close>: a missing value (\<open>false\<close> in Lua) equals no argument, not even \<open>nil\<close>.\<close>

definition lua_eq_arg :: "reply \<Rightarrow> string option \<Rightarrow> bool" where
  "lua_eq_arg r a = (case r of BulkReply v \<Rightarrow> a = Some v | _ \<Rightarrow> False)"

text \<open>\<open>redis.call("TYPE", key).ok\<close>\<close>

definition status_ok :: "reply \<Rightarrow> string option" where
  "status_ok r = (case r of StatusReply t \<Rightarrow> Some t | _ \<Rightarrow> None)"

subsection \<open>The preflight fragments\<close>

definition max_exact :: int where
  "max_exact = 9007199254740991"

definition TTL_PREFLIGHT :: "string list \<Rightarrow> ('s, string \<times> int) lua" where
  "TTL_PREFLIGHT ARGV =
     (case lua_index ARGV 2 of
        None \<Rightarrow> lua_stop (Raise ''ERR rlock TTL must be a positive integer in milliseconds'')
      | Some raw_ttl \<Rightarrow>
          (if \<not> match_positive raw_ttl
           then lua_stop (Raise ''ERR rlock TTL must be a positive integer in milliseconds'')
           else
             (case lua_tonumber raw_ttl of
                None \<Rightarrow> lua_stop (Raise ''ERR rlock TTL exceeds the exact integer range'')
              | Some ttl \<Rightarrow>
                  (if max_exact < ttl
                   then lua_stop (Raise ''ERR rlock TTL exceeds the exact integer range'')
                   else lua_pure (raw_ttl, ttl)))))"

text \<open>The milliseconds of a \<open>TIME\<close> reply.\<close>

definition time_millis :: "reply \<Rightarrow> ('s, int) lua" where
  "time_millis r =
     (case r of
        ArrayReply [BulkReply secs, BulkReply micros] \<Rightarrow>
          (case (lua_tonumber secs, lua_tonumber micros) of
             (Some a, Some b) \<Rightarrow> lua_pure (a * 1000 + b div 1000)
           | _ \<Rightarrow> lua_stop (Raise ''attempt to perform arithmetic on a nil value''))
      | _ \<Rightarrow> lua_stop (Raise ''attempt to index a non-table''))"

definition RW_EXPIRY_PREFLIGHT :: "'s redis_call \<Rightarrow> int \<Rightarrow> ('s, int \<times> int) lua" where
  "RW_EXPIRY_PREFLIGHT call ttl =
     lua_bind (redis_call call Server_time) (\<lambda>time.
     lua_bind (time_millis time) (\<lambda>now.
       if now < 0 \<or> max_exact < now \<or> max_exact - now < ttl
       then lua_stop (Raise ''ERR rlock expiry exceeds the exact integer range'')
       else lua_pure (now, now + ttl)))"

definition RW_TYPE_PREFLIGHT :: "'s redis_call \<Rightarrow> redis_key list \<Rightarrow> ('s, unit) lua" where
  "RW_TYPE_PREFLIGHT call KEYS =
     for_keys KEYS (\<lambda>k.
       lua_bind (redis_call call (Type_of k)) (\<lambda>r.
         let kind = status_ok r in
         if kind \<noteq> Some ''none'' \<and> kind \<noteq> Some ''zset''
         then lua_stop (Raise ''WRONGTYPE rlock read-write locks require sorted set keys'')
         else lua_pure ()))"

definition script_with_ttl_preflight ::
    "string list \<Rightarrow> (string \<Rightarrow> int \<Rightarrow> ('s, int) lua) \<Rightarrow> 's \<Rightarrow> (string, int) result \<times> 's" where
  "script_with_ttl_preflight ARGV body =
     eval_script (lua_bind (TTL_PREFLIGHT ARGV) (\<lambda>(raw_ttl, ttl). body raw_ttl ttl))"

definition rw_script_with_preflight ::
    "'s redis_call \<Rightarrow> redis_key list \<Rightarrow> string list \<Rightarrow>
     (string \<Rightarrow> int \<Rightarrow> int \<Rightarrow> int \<Rightarrow> ('s, int) lua) \<Rightarrow> 's \<Rightarrow> (string, int) result \<times> 's" where
  "rw_script_with_preflight call KEYS ARGV body =
     eval_script
       (lua_bind (TTL_PREFLIGHT ARGV) (\<lambda>(raw_ttl, ttl).
        lua_bind (RW_EXPIRY_PREFLIGHT call ttl) (\<lambda>(now, expiry).
        lua_then (RW_TYPE_PREFLIGHT call KEYS)
          (body raw_ttl ttl now expiry))))"

subsection \<open>The mutex scripts\<close>

definition SCRIPT_ACQUIRE_LOCK ::
    "'s redis_call \<Rightarrow> redis_key list \<Rightarrow> string list \<Rightarrow> 's \<Rightarrow> (string, int) result \<times> 's" where
  "SCRIPT_ACQUIRE_LOCK call KEYS ARGV =
     script_with_ttl_preflight ARGV (\<lambda>raw_ttl ttl.
       lua_then
         (for_keys KEYS (\<lambda>k.
            lua_bind (redis_call call (Exists k)) (\<lambda>r.
              if r \<noteq> IntReply 0 then lua_stop (Return 0) else lua_pure ())))
       (lua_then
         (for_keys KEYS (\<lambda>k.
            lua_bind (lua_string (lua_index ARGV 1)) (\<lambda>token.
            lua_then (redis_call call (Set_PX k token raw_ttl)) (lua_pure ()))))
         (lua_pure 1)))"

definition SCRIPT_RENEW_LOCK ::
    "'s redis_call \<Rightarrow> redis_key list \<Rightarrow> string list \<Rightarrow> 's \<Rightarrow> (string, int) result \<times> 's" where
  "SCRIPT_RENEW_LOCK call KEYS ARGV =
     script_with_ttl_preflight ARGV (\<lambda>raw_ttl ttl.
       lua_then
         (for_keys KEYS (\<lambda>k.
            lua_bind (redis_call call (Get k)) (\<lambda>r.
              if \<not> lua_eq_arg r (lua_index ARGV 1) then lua_stop (Return 0) else lua_pure ())))
       (lua_then
         (for_keys KEYS (\<lambda>k.
            lua_then (redis_call call (Pexpire k raw_ttl)) (lua_pure ())))
         (lua_pure 1)))"

definition SCRIPT_RELEASE_LOCK ::
    "'s redis_call \<Rightarrow> redis_key list \<Rightarrow> string list \<Rightarrow> 's \<Rightarrow> (string, int) result \<times> 's" where
  "SCRIPT_RELEASE_LOCK call KEYS ARGV =
     eval_script
       (lua_bind
         (for_count KEYS (\<lambda>k.
            lua_bind (redis_call call (Type_of k)) (\<lambda>r.
              if status_ok r = Some ''string''
              then lua_bind (redis_call call (Get k)) (\<lambda>v.
                     if lua_eq_arg v (lua_index ARGV 1)
                     then lua_bind (redis_call call (Del k)) lua_number
                     else lua_pure 0)
              else lua_pure 0)) 0)
         (\<lambda>count. if count = int (length KEYS) then lua_pure 1 else lua_pure 0))"

subsection \<open>The read-lock scripts\<close>

definition SCRIPT_ACQUIRE_READ_LOCK ::
    "'s redis_call \<Rightarrow> redis_key list \<Rightarrow> string list \<Rightarrow> 's \<Rightarrow> (string, int) result \<times> 's" where
  "SCRIPT_ACQUIRE_READ_LOCK call KEYS ARGV =
     rw_script_with_preflight call KEYS ARGV (\<lambda>raw_ttl ttl now expiry.
       lua_then
         (for_keys KEYS (\<lambda>k.
            lua_then (redis_call call (Zremrangebyscore k (- now) now))
            (lua_bind (redis_call call (Zcount k ''-inf'' ''(0'')) (\<lambda>r.
              if r \<noteq> IntReply 0 then lua_stop (Return 0) else lua_pure ()))))
       (lua_bind (lua_string (lua_index ARGV 1)) (\<lambda>token.
        let member = ''r:'' @ token in
        lua_then
         (for_keys KEYS (\<lambda>k.
            lua_then (redis_call call (Zadd k expiry member))
            (lua_bind (redis_call call (Pttl k)) (\<lambda>r.
             lua_bind (lua_number r) (\<lambda>pttl.
              if pttl < ttl
              then lua_then (redis_call call (Pexpire k raw_ttl)) (lua_pure ())
              else lua_pure ())))))
         (lua_pure 1))))"

definition SCRIPT_RENEW_READ_LOCK ::
    "'s redis_call \<Rightarrow> redis_key list \<Rightarrow> string list \<Rightarrow> 's \<Rightarrow> (string, int) result \<times> 's" where
  "SCRIPT_RENEW_READ_LOCK call KEYS ARGV =
     rw_script_with_preflight call KEYS ARGV (\<lambda>raw_ttl ttl now expiry.
       lua_bind (lua_string (lua_index ARGV 1)) (\<lambda>token.
        let member = ''r:'' @ token in
        lua_then
         (for_keys KEYS (\<lambda>k.
            lua_then (redis_call call (Zremrangebyscore k (- now) now))
            (lua_bind (redis_call call (Zscore k member)) (\<lambda>score.
              (case score of
                 BulkReply str \<Rightarrow>
                   (case lua_tonumber str of
                      None \<Rightarrow> lua_stop (Raise ''attempt to compare nil with number'')
                    | Some sc \<Rightarrow> if sc \<le> now then lua_stop (Return 0) else lua_pure ())
               | _ \<Rightarrow> lua_stop (Return 0))))))
        (lua_then
         (for_keys KEYS (\<lambda>k.
            lua_then (redis_call call (Zadd k expiry member))
            (lua_bind (redis_call call (Pttl k)) (\<lambda>r.
             lua_bind (lua_number r) (\<lambda>pttl.
              if pttl < ttl
              then lua_then (redis_call call (Pexpire k raw_ttl)) (lua_pure ())
              else lua_pure ())))))
         (lua_pure 1))))"

definition SCRIPT_RELEASE_READ_LOCK ::
    "'s redis_call \<Rightarrow> redis_key list \<Rightarrow> string list \<Rightarrow> 's \<Rightarrow> (string, int) result \<times> 's" where
  "SCRIPT_RELEASE_READ_LOCK call KEYS ARGV =
     eval_script
       (lua_bind (lua_string (lua_index ARGV 1)) (\<lambda>token.
        let member = ''r:'' @ token in
        lua_bind
         (for_count KEYS (\<lambda>k.
            lua_bind (redis_call call (Type_of k)) (\<lambda>r.
              if status_ok r = Some ''zset''
              then lua_bind (redis_call call (Zrem k member)) lua_number
              else lua_pure 0)) 0)
         (\<lambda>count. if count = int (length KEYS) then lua_pure 1 else lua_pure 0)))"

subsection \<open>The write-lock scripts\<close>

definition SCRIPT_ACQUIRE_WRITE_LOCK ::
    "'s redis_call \<Rightarrow> redis_key list \<Rightarrow> string list \<Rightarrow> 's \<Rightarrow> (string, int) result \<times> 's" where
  "SCRIPT_ACQUIRE_WRITE_LOCK call KEYS ARGV =
     rw_script_with_preflight call KEYS ARGV (\<lambda>raw_ttl ttl now expiry.
       lua_then
         (for_keys KEYS (\<lambda>k.
            lua_then (redis_call call (Zremrangebyscore k (- now) now))
            (lua_bind (redis_call call (Zcard k)) (\<lambda>r.
              if r \<noteq> IntReply 0 then lua_stop (Return 0) else lua_pure ()))))
       (lua_bind (lua_string (lua_index ARGV 1)) (\<lambda>token.
        let member = ''w:'' @ token in
        lua_then
         (for_keys KEYS (\<lambda>k.
            lua_then (redis_call call (Zadd k (- expiry) member))
            (lua_then (redis_call call (Pexpire k raw_ttl)) (lua_pure ()))))
         (lua_pure 1))))"

definition SCRIPT_RENEW_WRITE_LOCK ::
    "'s redis_call \<Rightarrow> redis_key list \<Rightarrow> string list \<Rightarrow> 's \<Rightarrow> (string, int) result \<times> 's" where
  "SCRIPT_RENEW_WRITE_LOCK call KEYS ARGV =
     rw_script_with_preflight call KEYS ARGV (\<lambda>raw_ttl ttl now expiry.
       lua_bind (lua_string (lua_index ARGV 1)) (\<lambda>token.
        let member = ''w:'' @ token in
        lua_then
         (for_keys KEYS (\<lambda>k.
            lua_then (redis_call call (Zremrangebyscore k (- now) now))
            (lua_bind (redis_call call (Zscore k member)) (\<lambda>score.
              (case score of
                 BulkReply str \<Rightarrow>
                   (case lua_tonumber str of
                      None \<Rightarrow> lua_stop (Raise ''attempt to compare nil with number'')
                    | Some sc \<Rightarrow> if - now \<le> sc then lua_stop (Return 0) else lua_pure ())
               | _ \<Rightarrow> lua_stop (Return 0))))))
        (lua_then
         (for_keys KEYS (\<lambda>k.
            lua_then (redis_call call (Zadd k (- expiry) member))
            (lua_then (redis_call call (Pexpire k raw_ttl)) (lua_pure ()))))
         (lua_pure 1))))"

definition SCRIPT_RELEASE_WRITE_LOCK ::
    "'s redis_call \<Rightarrow> redis_key list \<Rightarrow> string list \<Rightarrow> 's \<Rightarrow> (string, int) result \<times> 's" where
  "SCRIPT_RELEASE_WRITE_LOCK call KEYS ARGV =
     eval_script
       (lua_bind (lua_string (lua_index ARGV 1)) (\<lambda>token.
        let member = ''w:'' @ token in
        lua_bind
         (for_count KEYS (\<lambda>k.
            lua_bind (redis_call call (Type_of k)) (\<lambda>r.
              if status_ok r = Some ''zset''
              then lua_bind (redis_call call (Zrem k member)) lua_number
              else lua_pure 0)) 0)
         (\<lambda>count. if count = int (length KEYS) then lua_pure 1 else lua_pure 0)))"

end
