(* ===== verification/Lock_Request.thy ===== *)
theory Lock_Request
  imports Lua_Scripts
begin

text \<open>
  The lock requests of \<open>src/lock_request.rs\<close>: six kinds of targets, the keys of each, and the
  scripts that acquire, renew and release it.
\<close>

datatype lock_target =
    Single redis_key
  | Multiple "redis_key list"
  | Read redis_key
  | Write redis_key
  | MultipleRead "redis_key list"
  | MultipleWrite "redis_key list"

fun target_keys :: "lock_target \<Rightarrow> redis_key list" where
  "target_keys (Single key) = [key]"
| "target_keys (Read key) = [key]"
| "target_keys (Write key) = [key]"
| "target_keys (Multiple keys) = keys"
| "target_keys (MultipleRead keys) = keys"
| "target_keys (MultipleWrite keys) = keys"

type_synonym 's script =
  "'s redis_call \<Rightarrow> redis_key list \<Rightarrow> string list \<Rightarrow> 's \<Rightarrow> (string, int) result \<times> 's"

fun acquire_script :: "lock_target \<Rightarrow> 's script" where
  "acquire_script (Single key) = SCRIPT_ACQUIRE_LOCK"
| "acquire_script (Multiple keys) = SCRIPT_ACQUIRE_LOCK"
| "acquire_script (Read key) = SCRIPT_ACQUIRE_READ_LOCK"
| "acquire_script (MultipleRead keys) = SCRIPT_ACQUIRE_READ_LOCK"
| "acquire_script (Write key) = SCRIPT_ACQUIRE_WRITE_LOCK"
| "acquire_script (MultipleWrite keys) = SCRIPT_ACQUIRE_WRITE_LOCK"

fun renew_script :: "lock_target \<Rightarrow> 's script" where
  "renew_script (Single key) = SCRIPT_RENEW_LOCK"
| "renew_script (Multiple keys) = SCRIPT_RENEW_LOCK"
| "renew_script (Read key) = SCRIPT_RENEW_READ_LOCK"
| "renew_script (MultipleRead keys) = SCRIPT_RENEW_READ_LOCK"
| "renew_script (Write key) = SCRIPT_RENEW_WRITE_LOCK"
| "renew_script (MultipleWrite keys) = SCRIPT_RENEW_WRITE_LOCK"

fun release_script :: "lock_target \<Rightarrow> 's script" where
  "release_script (Single key) = SCRIPT_RELEASE_LOCK"
| "release_script (Multiple keys) = SCRIPT_RELEASE_LOCK"
| "release_script (Read key) = SCRIPT_RELEASE_READ_LOCK"
| "release_script (MultipleRead keys) = SCRIPT_RELEASE_READ_LOCK"
| "release_script (Write key) = SCRIPT_RELEASE_WRITE_LOCK"
| "release_script (MultipleWrite keys) = SCRIPT_RELEASE_WRITE_LOCK"

record lock_request =
  lr_target :: lock_target
  lr_uuid :: uuid

text \<open>The three ways a target is held.\<close>

datatype lock_mode = Mutex_Mode | Read_Mode | Write_Mode

fun target_mode :: "lock_target \<Rightarrow> lock_mode" where
  "target_mode (Single key) = Mutex_Mode"
| "target_mode (Multiple keys) = Mutex_Mode"
| "target_mode (Read key) = Read_Mode"
| "target_mode (MultipleRead keys) = Read_Mode"
| "target_mode (Write key) = Write_Mode"
| "target_mode (MultipleWrite keys) = Write_Mode"

text \<open>The scripts of a target depend on its mode only.\<close>

lemma scripts_by_mode:
  "target_mode t = Mutex_Mode \<Longrightarrow> acquire_script t = SCRIPT_ACQUIRE_LOCK"
  "target_mode t = Mutex_Mode \<Longrightarrow> renew_script t = SCRIPT_RENEW_LOCK"
  "target_mode t = Mutex_Mode \<Longrightarrow> release_script t = SCRIPT_RELEASE_LOCK"
  "target_mode t = Read_Mode \<Longrightarrow> acquire_script t = SCRIPT_ACQUIRE_READ_LOCK"
  "target_mode t = Read_Mode \<Longrightarrow> renew_script t = SCRIPT_RENEW_READ_LOCK"
  "target_mode t = Read_Mode \<Longrightarrow> release_script t = SCRIPT_RELEASE_READ_LOCK"
  "target_mode t = Write_Mode \<Longrightarrow> acquire_script t = SCRIPT_ACQUIRE_WRITE_LOCK"
  "target_mode t = Write_Mode \<Longrightarrow> renew_script t = SCRIPT_RENEW_WRITE_LOCK"
  "target_mode t = Write_Mode \<Longrightarrow> release_script t = SCRIPT_RELEASE_WRITE_LOCK"
  by (cases t; simp)+

end
