(* ===== verification/Mem_Redis.thy ===== *)
theory Mem_Redis
  imports Redis "HOL-Library.AList"
begin

text \<open>
  A concrete server that satisfies the contract of theory \<open>Redis\<close>: a map from keys to values
  with expiry times and a clock, sorted sets as association lists. It is executable, and the
  witnesses of the properties about the scripts run on it. It is an instance of the parameter,
  not a model of the Redis sources.
\<close>

datatype mem_value =
    MString string
  | MZset "(string \<times> int) list"
  | MList "string list"

record mem =
  m_data :: "redis_key \<Rightarrow> (mem_value \<times> int option) option"
  m_now :: int

definition mem_init :: "int \<Rightarrow> mem" where
  "mem_init t = \<lparr>m_data = (\<lambda>k. None), m_now = t\<rparr>"

text \<open>An expired key and an empty sorted set are not there.\<close>

fun live_at :: "int \<Rightarrow> int option \<Rightarrow> bool" where
  "live_at t None = True"
| "live_at t (Some e) = (t \<le> e)"

fun mem_norm :: "int \<Rightarrow> (mem_value \<times> int option) option \<Rightarrow> (mem_value \<times> int option) option" where
  "mem_norm t None = None"
| "mem_norm t (Some (v, e)) = (if v \<noteq> MZset [] \<and> live_at t e then Some (v, e) else None)"

definition mem_entry :: "mem \<Rightarrow> redis_key \<Rightarrow> (mem_value \<times> int option) option" where
  "mem_entry s k = mem_norm (m_now s) (m_data s k)"

fun mem_abs :: "mem_value \<Rightarrow> redis_value" where
  "mem_abs (MString v) = RString v"
| "mem_abs (MZset zs) = RZset (map_of zs)"
| "mem_abs (MList xs) = ROther ''list''"

fun mem_obs :: "(mem_value \<times> int option) option \<Rightarrow> entry option" where
  "mem_obs None = None"
| "mem_obs (Some (v, e)) = Some (mem_abs v, e)"

definition mem_view :: "mem \<Rightarrow> redis_key \<Rightarrow> entry option" where
  "mem_view s k = mem_obs (mem_entry s k)"

fun mem_zset :: "(mem_value \<times> int option) option \<Rightarrow> (string \<times> int) list option" where
  "mem_zset None = Some []"
| "mem_zset (Some (MZset zs, e)) = Some (AList.clearjunk zs)"
| "mem_zset (Some (MString v, e)) = None"
| "mem_zset (Some (MList xs, e)) = None"

definition mem_put :: "redis_key \<Rightarrow> (mem_value \<times> int option) option \<Rightarrow> mem \<Rightarrow> mem" where
  "mem_put k x s = s\<lparr>m_data := (m_data s)(k := x)\<rparr>"

definition mem_put_zset :: "redis_key \<Rightarrow> (string \<times> int) list \<Rightarrow> mem \<Rightarrow> mem" where
  "mem_put_zset k zs s =
     mem_put k (Some (MZset zs, (case mem_entry s k of None \<Rightarrow> None | Some (v, e) \<Rightarrow> e))) s"

definition wrongtype :: reply where
  "wrongtype = ErrorReply ''WRONGTYPE Operation against a key holding the wrong kind of value''"

text \<open>A command on a sorted set: its reply and new members, if the key has the right type.\<close>

definition with_zset ::
    "redis_key \<Rightarrow> ((string \<times> int) list \<Rightarrow> reply \<times> (string \<times> int) list option) \<Rightarrow> mem \<Rightarrow> reply \<times> mem" where
  "with_zset k f s =
     (case mem_zset (mem_entry s k) of
        None \<Rightarrow> (wrongtype, s)
      | Some zs \<Rightarrow>
          (case f zs of
             (r, None) \<Rightarrow> (r, s)
           | (r, Some zs') \<Rightarrow> (r, mem_put_zset k zs' s)))"

definition with_px :: "string \<Rightarrow> (int \<Rightarrow> mem \<Rightarrow> reply \<times> mem) \<Rightarrow> mem \<Rightarrow> reply \<times> mem" where
  "with_px raw f s =
     (case lua_tonumber raw of
        None \<Rightarrow> (ErrorReply ''ERR value is not an integer or out of range'', s)
      | Some t \<Rightarrow> (if px_ok (m_now s) t then f t s else (ErrorReply ''ERR invalid expire time'', s)))"

definition in_scores :: "int \<Rightarrow> int \<Rightarrow> string \<times> int \<Rightarrow> bool" where
  "in_scores lo hi p \<longleftrightarrow> lo \<le> snd p \<and> snd p \<le> hi"

fun mem_call :: "command \<Rightarrow> mem \<Rightarrow> reply \<times> mem" where
  "mem_call (Exists k) s = (IntReply (if mem_entry s k = None then 0 else 1), s)"
| "mem_call (Set_PX k v raw) s =
     with_px raw (\<lambda>t s. (StatusReply ''OK'', mem_put k (Some (MString v, Some (m_now s + t))) s)) s"
| "mem_call (Set_NX_PX k v raw) s =
     with_px raw (\<lambda>t s.
       if mem_entry s k = None
       then (StatusReply ''OK'', mem_put k (Some (MString v, Some (m_now s + t))) s)
       else (NilReply, s)) s"
| "mem_call (Get k) s =
     (case mem_entry s k of
        None \<Rightarrow> (NilReply, s)
      | Some (MString v, e) \<Rightarrow> (BulkReply v, s)
      | Some (x, e) \<Rightarrow> (wrongtype, s))"
| "mem_call (Del k) s =
     (IntReply (if mem_entry s k = None then 0 else 1), mem_put k None s)"
| "mem_call (Type_of k) s = (StatusReply (type_name (mem_view s k)), s)"
| "mem_call (Pexpire k raw) s =
     with_px raw (\<lambda>t s.
       (case mem_entry s k of
          None \<Rightarrow> (IntReply 0, s)
        | Some (v, e) \<Rightarrow> (IntReply 1, mem_put k (Some (v, Some (m_now s + t))) s))) s"
| "mem_call (Pttl k) s =
     (IntReply (case mem_entry s k of
                  None \<Rightarrow> - 2 | Some (v, None) \<Rightarrow> - 1 | Some (v, Some t) \<Rightarrow> t - m_now s), s)"
| "mem_call Server_time s =
     (ArrayReply [BulkReply (show_int (m_now s div 1000)),
                  BulkReply (show_int (m_now s mod 1000 * 1000))], s)"
| "mem_call (Zadd k sc m) s =
     with_zset k (\<lambda>zs. (IntReply (if map_of zs m = None then 1 else 0), Some (AList.update m sc zs))) s"
| "mem_call (Zrem k m) s =
     with_zset k (\<lambda>zs. (IntReply (if map_of zs m = None then 0 else 1), Some (AList.delete m zs))) s"
| "mem_call (Zcard k) s = with_zset k (\<lambda>zs. (IntReply (int (length zs)), None)) s"
| "mem_call (Zcount k smin smax) s =
     (if smin = ''-inf'' \<and> smax = ''(0''
      then with_zset k (\<lambda>zs. (IntReply (int (length (filter (\<lambda>p. snd p < 0) zs))), None)) s
      else (ErrorReply ''ERR min or max is not a float'', s))"
| "mem_call (Zscore k m) s =
     with_zset k (\<lambda>zs. (case map_of zs m of None \<Rightarrow> NilReply | Some sc \<Rightarrow> BulkReply (show_int sc), None)) s"
| "mem_call (Zremrangebyscore k lo hi) s =
     with_zset k (\<lambda>zs. (IntReply (int (length (filter (in_scores lo hi) zs))),
                        Some (filter (\<lambda>p. \<not> in_scores lo hi p) zs))) s"

definition mem_advance :: "int \<Rightarrow> mem \<Rightarrow> mem" where
  "mem_advance d s = s\<lparr>m_now := m_now s + d\<rparr>"

subsection \<open>The contract holds\<close>

lemma m_now_mem_put [simp]: "m_now (mem_put k x s) = m_now s"
  by (simp add: mem_put_def)

lemma m_now_mem_put_zset [simp]: "m_now (mem_put_zset k zs s) = m_now s"
  by (simp add: mem_put_zset_def)

lemma now_with_zset: "m_now (snd (with_zset k f s)) = m_now s"
  by (auto simp: with_zset_def split: option.splits prod.splits)

lemma now_with_px: "(\<And>t s. m_now (snd (f t s)) = m_now s) \<Longrightarrow> m_now (snd (with_px raw f s)) = m_now s"
  by (auto simp: with_px_def split: option.splits)

lemma now_mem_call: "m_now (snd (mem_call c s)) = m_now s"
  by (cases c) (auto simp: now_with_zset intro!: now_with_px split: option.splits mem_value.splits prod.splits)

lemma mem_view_put: "mem_view (mem_put k x s) = (mem_view s)(k := mem_obs (mem_norm (m_now s) x))"
  by (auto simp: mem_view_def mem_entry_def mem_put_def fun_eq_iff)

lemma mem_obs_None_iff [simp]: "mem_obs x = None \<longleftrightarrow> x = None"
  by (cases x rule: mem_obs.cases) auto

lemma mem_norm_SomeD: "mem_norm t x = Some (v, e) \<Longrightarrow> x = Some (v, e) \<and> v \<noteq> MZset [] \<and> live_at t e"
  by (cases x rule: mem_obs.cases) (auto split: if_splits)

lemma mem_entry_SomeD: "mem_entry s k = Some (v, e) \<Longrightarrow> v \<noteq> MZset [] \<and> live_at (m_now s) e"
  by (auto simp: mem_entry_def dest: mem_norm_SomeD)

lemma mem_view_cases:
  obtains (absent) "mem_entry s k = None" "mem_view s k = None"
    | (str) v e where "mem_entry s k = Some (MString v, e)" "mem_view s k = Some (RString v, e)"
        "live_at (m_now s) e"
    | (zset) zs e where "mem_entry s k = Some (MZset zs, e)" "mem_view s k = Some (RZset (map_of zs), e)"
        "zs \<noteq> []" "live_at (m_now s) e"
    | (other) xs e where "mem_entry s k = Some (MList xs, e)" "mem_view s k = Some (ROther ''list'', e)"
        "live_at (m_now s) e"
  using mem_entry_SomeD [of s k]
  by (cases "mem_entry s k" rule: mem_zset.cases) (auto simp: mem_view_def)

lemma map_of_eq_empty: "map_of zs = Map.empty \<longleftrightarrow> zs = []"
  by (cases zs) auto

lemma zset_of_mem_view: "zset_of (mem_view s k) = map_option map_of (mem_zset (mem_entry s k))"
  by (cases s k rule: mem_view_cases) (simp_all add: map_of_clearjunk)

lemma distinct_mem_zset: "mem_zset x = Some zs \<Longrightarrow> distinct (map fst zs)"
  by (cases x rule: mem_zset.cases) (auto simp: distinct_clearjunk)

lemma mem_view_put_zset:
  "mem_view (mem_put_zset k zs s) = (mem_view s)(k := put_zset (mem_view s k) (map_of zs))"
  by (cases s k rule: mem_view_cases)
    (auto simp: mem_put_zset_def mem_view_put put_zset_def map_of_eq_empty)

lemma card_members_filter:
  assumes "distinct (map fst zs)"
  shows "card {m. \<exists>sc. (m, sc) \<in> set zs \<and> P sc} = length (filter (\<lambda>p. P (snd p)) zs)"
proof -
  have "{m. \<exists>sc. (m, sc) \<in> set zs \<and> P sc} = set (map fst (filter (\<lambda>p. P (snd p)) zs))"
    by force
  moreover have "distinct (map fst (filter (\<lambda>p. P (snd p)) zs))"
    using assms by (rule distinct_map_filter)
  ultimately show ?thesis
    using distinct_card by fastforce
qed

lemma map_of_filter_distinct:
  assumes "distinct (map fst zs)"
  shows "map_of (filter (\<lambda>p. \<not> in_scores lo hi p) zs) = zset_purge lo hi (map_of zs)"
  using assms
proof (induction zs)
  case Nil
  then show ?case by simp
next
  case (Cons p zs)
  have "map_of zs (fst p) = None"
    using Cons.prems by (simp add: map_of_eq_None_iff)
  with Cons show ?case
    by (cases p) (auto simp: in_scores_def zset_purge_def fun_eq_iff split: option.splits)
qed

lemma with_px_ok: "lua_tonumber raw = Some t \<Longrightarrow> px_ok (m_now s) t \<Longrightarrow> with_px raw f s = f t s"
  by (simp add: with_px_def)

lemma mem_card_dom:
  assumes "distinct (map fst zs)"
  shows "card (dom (map_of zs)) = length zs"
  using assms by (metis distinct_card dom_map_of_conv_image_fst length_map list.set_map)

text \<open>The view after a command of each kind.\<close>

lemma mem_view_set:
  "px_ok (m_now s) t \<Longrightarrow>
     mem_view (mem_put k (Some (MString v, Some (m_now s + t))) s) =
       (mem_view s)(k := Some (RString v, Some (m_now s + t)))"
  by (simp add: mem_view_put px_ok_def)

lemma mem_view_pexpire:
  "px_ok (m_now s) t \<Longrightarrow> mem_entry s k = Some (v, e) \<Longrightarrow>
     mem_view (mem_put k (Some (v, Some (m_now s + t))) s) =
       (mem_view s)(k := set_expiry (m_now s + t) (mem_view s k))"
  using mem_entry_SomeD [of s k v e] by (simp add: mem_view_put px_ok_def mem_view_def [of s k])

lemma mem_view_del: "mem_view (mem_put k None s) = (mem_view s)(k := None)"
  by (simp add: mem_view_put)

lemma mem_zset_call:
  assumes "zset_of (mem_view s k) = Some z"
  obtains zs where "mem_zset (mem_entry s k) = Some zs" and "z = map_of zs"
    and "distinct (map fst zs)"
  using assms by (auto simp: zset_of_mem_view dest: distinct_mem_zset)

lemma with_zset_eq [simp]:
  "mem_zset (mem_entry s k) = Some zs \<Longrightarrow>
     with_zset k f s =
       (fst (f zs), (case snd (f zs) of None \<Rightarrow> s | Some zs' \<Rightarrow> mem_put_zset k zs' s))"
  by (auto simp: with_zset_def split: prod.splits option.splits)

lemma with_zset_read: "(\<And>zs. snd (f zs) = None) \<Longrightarrow> snd (with_zset k f s) = s"
  by (auto simp: with_zset_def split: option.splits prod.splits) (metis option.distinct(1) snd_conv)

lemma mem_exists: "fst (mem_call (Exists k) s) = IntReply (if mem_view s k = None then 0 else 1)"
  by (cases s k rule: mem_view_cases) simp_all

lemma mem_del: "fst (mem_call (Del k) s) = IntReply (if mem_view s k = None then 0 else 1)"
  by (cases s k rule: mem_view_cases) simp_all

lemma mem_set_nx_px:
  assumes "lua_tonumber raw = Some t" and "px_ok (m_now s) t"
  shows "fst (mem_call (Set_NX_PX k v raw) s) =
           (if mem_view s k = None then StatusReply ''OK'' else NilReply)"
    and "mem_view (snd (mem_call (Set_NX_PX k v raw) s)) =
           (if mem_view s k = None then (mem_view s)(k := Some (RString v, Some (m_now s + t)))
            else mem_view s)"
  using assms
  by (cases s k rule: mem_view_cases; simp add: with_px_ok mem_view_set)+

lemma mem_get:
  "mem_view s k = None \<Longrightarrow> fst (mem_call (Get k) s) = NilReply"
  "mem_view s k = Some (RString v, e) \<Longrightarrow> fst (mem_call (Get k) s) = BulkReply v"
  "mem_view s k = Some (w, e) \<Longrightarrow> \<nexists>str. w = RString str \<Longrightarrow> is_error (fst (mem_call (Get k) s))"
  "mem_view (snd (mem_call (Get k) s)) = mem_view s"
  by (cases s k rule: mem_view_cases; auto simp: wrongtype_def)+

lemma mem_pexpire:
  assumes "lua_tonumber raw = Some t" and "px_ok (m_now s) t"
  shows "fst (mem_call (Pexpire k raw) s) = IntReply (if mem_view s k = None then 0 else 1)"
    and "mem_view (snd (mem_call (Pexpire k raw) s)) =
           (mem_view s)(k := set_expiry (m_now s + t) (mem_view s k))"
  using assms
  by (cases s k rule: mem_view_cases; auto simp: with_px_ok mem_view_pexpire fun_upd_idem)+

lemma mem_pttl:
  "fst (mem_call (Pttl k) s) =
     IntReply (case mem_view s k of None \<Rightarrow> - 2 | Some (w, None) \<Rightarrow> - 1 | Some (w, Some t) \<Rightarrow> t - m_now s)"
  by (cases s k rule: mem_view_cases) (auto split: option.splits)

lemma mem_time:
  "\<exists>a b secs micros. fst (mem_call Server_time s) = ArrayReply [BulkReply a, BulkReply b] \<and>
     lua_tonumber a = Some secs \<and> lua_tonumber b = Some micros \<and>
     m_now s = secs * 1000 + micros div 1000"
  by simp

lemma mem_zset_write:
  assumes "zset_of (mem_view s k) = Some z"
  shows "fst (mem_call (Zadd k sc m) s) = IntReply (if z m = None then 1 else 0)"
    and "mem_view (snd (mem_call (Zadd k sc m) s)) =
           (mem_view s)(k := put_zset (mem_view s k) (z(m \<mapsto> sc)))"
    and "fst (mem_call (Zrem k m) s) = IntReply (if z m = None then 0 else 1)"
    and "mem_view (snd (mem_call (Zrem k m) s)) =
           (mem_view s)(k := put_zset (mem_view s k) (z(m := None)))"
    and "fst (mem_call (Zremrangebyscore k lo hi) s) =
           IntReply (int (card {m. \<exists>sc. z m = Some sc \<and> lo \<le> sc \<and> sc \<le> hi}))"
    and "mem_view (snd (mem_call (Zremrangebyscore k lo hi) s)) =
           (mem_view s)(k := put_zset (mem_view s k) (zset_purge lo hi z))"
proof -
  obtain zs where zs: "mem_zset (mem_entry s k) = Some zs" "z = map_of zs" "distinct (map fst zs)"
    using assms by (rule mem_zset_call)
  have count: "card {m. \<exists>sc. (m, sc) \<in> set zs \<and> lo \<le> sc \<and> sc \<le> hi} = length (filter (in_scores lo hi) zs)"
    using card_members_filter [OF zs(3), of "\<lambda>sc. lo \<le> sc \<and> sc \<le> hi"]
    by (simp add: in_scores_def [abs_def])
  show "fst (mem_call (Zadd k sc m) s) = IntReply (if z m = None then 1 else 0)"
    "mem_view (snd (mem_call (Zadd k sc m) s)) =
       (mem_view s)(k := put_zset (mem_view s k) (z(m \<mapsto> sc)))"
    "fst (mem_call (Zrem k m) s) = IntReply (if z m = None then 0 else 1)"
    "mem_view (snd (mem_call (Zrem k m) s)) =
       (mem_view s)(k := put_zset (mem_view s k) (z(m := None)))"
    "fst (mem_call (Zremrangebyscore k lo hi) s) =
       IntReply (int (card {m. \<exists>sc. z m = Some sc \<and> lo \<le> sc \<and> sc \<le> hi}))"
    "mem_view (snd (mem_call (Zremrangebyscore k lo hi) s)) =
       (mem_view s)(k := put_zset (mem_view s k) (zset_purge lo hi z))"
    using zs by (simp_all add: mem_view_put_zset update_conv' delete_conv' map_of_filter_distinct count)
qed

lemma mem_zset_read:
  assumes "zset_of (mem_view s k) = Some z"
  shows "fst (mem_call (Zcard k) s) = IntReply (int (card (dom z)))"
    and "fst (mem_call (Zcount k ''-inf'' ''(0'') s) =
           IntReply (int (card {m. \<exists>sc. z m = Some sc \<and> sc < 0}))"
    and "z m = None \<Longrightarrow> fst (mem_call (Zscore k m) s) = NilReply"
    and "z m = Some sc \<Longrightarrow>
           \<exists>str. fst (mem_call (Zscore k m) s) = BulkReply str \<and> lua_tonumber str = Some sc"
proof -
  obtain zs where zs: "mem_zset (mem_entry s k) = Some zs" "z = map_of zs" "distinct (map fst zs)"
    using assms by (rule mem_zset_call)
  show "fst (mem_call (Zcard k) s) = IntReply (int (card (dom z)))"
    "fst (mem_call (Zcount k ''-inf'' ''(0'') s) =
       IntReply (int (card {m. \<exists>sc. z m = Some sc \<and> sc < 0}))"
    "z m = None \<Longrightarrow> fst (mem_call (Zscore k m) s) = NilReply"
    "z m = Some sc \<Longrightarrow>
       \<exists>str. fst (mem_call (Zscore k m) s) = BulkReply str \<and> lua_tonumber str = Some sc"
    using zs by (simp_all add: mem_card_dom card_members_filter)
qed

interpretation mem: redis_server mem_call mem_view m_now
proof (unfold_locales, goal_cases)
  case (1 c s)
  show ?case by (rule now_mem_call)
next
  case (2 s k z e)
  then show ?case
    by (cases s k rule: mem_view_cases) (auto simp: map_of_eq_empty finite_dom_map_of)
next
  case (3 s k w t)
  then show ?case by (cases s k rule: mem_view_cases) auto
next
  case (4 s k ty e)
  then show ?case by (cases s k rule: mem_view_cases) auto
next
  case (11 s k w e)
  then show ?case by (rule mem_get(3))
next
  case (23 s)
  show ?case by (rule mem_time)
next
  case (34 s k z m sc)
  then show ?case by (rule mem_zset_read(4))
qed (simp_all only: mem_exists mem_del mem_set_nx_px mem_get mem_pexpire mem_pttl mem_zset_write mem_zset_read,
     simp_all add: mem_view_del with_px_ok mem_view_set with_zset_read)

lemma mem_advance_view:
  "0 \<le> d \<Longrightarrow> mem_view (mem_advance d s) k = expire_at (m_now s + d) (mem_view s k)"
proof -
  assume d: "0 \<le> d"
  show ?thesis
  proof (cases "m_data s k")
    case None
    then show ?thesis by (simp add: mem_view_def mem_entry_def mem_advance_def expire_at_def)
  next
    case (Some x)
    with d show ?thesis
      by (cases x; cases "snd x")
        (auto simp: mem_view_def mem_entry_def mem_advance_def expire_at_def)
  qed
qed

interpretation memc: redis_clock mem_call mem_view m_now mem_advance
  by unfold_locales (simp_all add: mem_advance_view, simp add: mem_advance_def)

end
