(* ===== verification/Script_Facts.thy ===== *)
theory Script_Facts
  imports Lua_Scripts Mem_Redis
begin

text \<open>
  What the nine scripts do to the keys a client observes. Every lemma holds for any server that
  keeps the contract \<open>redis_server\<close>. Two loop rules carry the proofs: a loop over \<open>KEYS\<close> that
  tests and updates each entry leaves an \<open>update_at\<close> of the entries it visited, and a counting
  loop returns the number of entries it changed.
\<close>

subsection \<open>Running Lua computations\<close>

lemma fst_lua_bind [simp]:
  "fst (lua_bind m f s) = (case fst (m s) of Inl x \<Rightarrow> Inl x | Inr a \<Rightarrow> fst (f a (snd (m s))))"
  by (simp add: lua_bind_def split: prod.splits sum.splits)

lemma snd_lua_bind [simp]:
  "snd (lua_bind m f s) = (case fst (m s) of Inl x \<Rightarrow> snd (m s) | Inr a \<Rightarrow> snd (f a (snd (m s))))"
  by (simp add: lua_bind_def split: prod.splits sum.splits)

lemma fst_lua_then [simp]:
  "fst (lua_then m n s) = (case fst (m s) of Inl x \<Rightarrow> Inl x | Inr a \<Rightarrow> fst (n (snd (m s))))"
  by (simp add: lua_then_def)

lemma snd_lua_then [simp]:
  "snd (lua_then m n s) = (case fst (m s) of Inl x \<Rightarrow> snd (m s) | Inr a \<Rightarrow> snd (n (snd (m s))))"
  by (simp add: lua_then_def)

lemma lua_pure_run [simp]: "fst (lua_pure a s) = Inr a" "snd (lua_pure a s) = s"
  by (simp_all add: lua_pure_def)

lemma lua_stop_run [simp]: "fst (lua_stop x s) = Inl x" "snd (lua_stop x s) = s"
  by (simp_all add: lua_stop_def)

lemma fst_redis_call [simp]:
  "fst (redis_call call c s) =
     (case fst (call c s) of ErrorReply msg \<Rightarrow> Inl (Raise msg) | r \<Rightarrow> Inr r)"
  by (simp add: redis_call_def split: prod.splits reply.splits)

lemma snd_redis_call [simp]: "snd (redis_call call c s) = snd (call c s)"
  by (simp add: redis_call_def split: prod.splits reply.splits)

lemma fst_eval_script:
  "fst (eval_script m s) =
     (case fst (m s) of Inl (Return n) \<Rightarrow> Inr n | Inl (Raise msg) \<Rightarrow> Inl msg | Inr n \<Rightarrow> Inr n)"
  by (simp add: eval_script_def split: prod.splits sum.splits lua_exit.splits)

lemma snd_eval_script: "snd (eval_script m s) = snd (m s)"
  by (simp add: eval_script_def split: prod.splits sum.splits lua_exit.splits)

lemmas eval_script_run [simp] = fst_eval_script snd_eval_script

lemma lua_number_run [simp]:
  "fst (lua_number (IntReply n) s) = Inr n" "snd (lua_number r s) = s"
  by (simp_all add: lua_number_def split: reply.splits)

lemma lua_string_run [simp]:
  "fst (lua_string (Some v) s) = Inr v" "snd (lua_string x s) = s"
  by (simp_all add: lua_string_def split: option.splits)

lemma lua_index_two [simp]:
  "lua_index [a, b] 1 = Some a" "lua_index [a, b] (Suc 0) = Some a" "lua_index [a, b] 2 = Some b"
  "lua_index [a] 1 = Some a" "lua_index [a] (Suc 0) = Some a"
  by (simp_all add: lua_index_def)

subsection \<open>The preflight checks\<close>

text \<open>A TTL argument that passes the preflight.\<close>

definition valid_ttl :: "string \<Rightarrow> int \<Rightarrow> bool" where
  "valid_ttl raw ttl \<longleftrightarrow> match_positive raw \<and> lua_tonumber raw = Some ttl \<and> ttl \<le> max_exact"

lemma valid_ttl_pos: "valid_ttl raw ttl \<Longrightarrow> 0 < ttl"
  using match_positive_parse_pos [of raw] by (auto simp: valid_ttl_def match_positive_tonumber)

lemma valid_ttl_show_nat: "0 < n \<Longrightarrow> int n \<le> max_exact \<Longrightarrow> valid_ttl (show_nat n) (int n)"
  by (simp add: valid_ttl_def match_positive_show_nat)

lemma TTL_PREFLIGHT_ok:
  "lua_index ARGV 2 = Some raw \<Longrightarrow> valid_ttl raw ttl \<Longrightarrow> TTL_PREFLIGHT ARGV s = (Inr (raw, ttl), s)"
  by (simp add: TTL_PREFLIGHT_def valid_ttl_def lua_pure_def)

lemma TTL_PREFLIGHT_fails:
  assumes "\<And>raw ttl. lua_index ARGV 2 = Some raw \<Longrightarrow> \<not> valid_ttl raw ttl"
  shows "\<exists>msg. TTL_PREFLIGHT ARGV s = (Inl (Raise msg), s)"
proof (cases "lua_index ARGV 2")
  case None
  then show ?thesis by (simp add: TTL_PREFLIGHT_def lua_stop_def)
next
  case (Some raw)
  with assms [OF Some, of "int (parse_digits raw)"] show ?thesis
    by (auto simp: TTL_PREFLIGHT_def valid_ttl_def lua_stop_def match_positive_tonumber)
qed

subsection \<open>What the scripts do to one entry\<close>

definition owns_mutex :: "uuid \<Rightarrow> entry option \<Rightarrow> bool" where
  "owns_mutex token x \<longleftrightarrow> (\<exists>e. x = Some (RString token, e))"

text \<open>The members of a sorted set; none where there is no sorted set.\<close>

definition members_of :: "entry option \<Rightarrow> string \<rightharpoonup> int" where
  "members_of x = (case zset_of x of None \<Rightarrow> Map.empty | Some z \<Rightarrow> z)"

definition is_zset :: "entry option \<Rightarrow> bool" where
  "is_zset x \<longleftrightarrow> zset_of x \<noteq> None"

definition claim_mutex :: "uuid \<Rightarrow> int \<Rightarrow> entry option \<Rightarrow> entry option" where
  "claim_mutex token expiry x = Some (RString token, Some expiry)"

definition drop_mutex :: "uuid \<Rightarrow> entry option \<Rightarrow> entry option" where
  "drop_mutex token x = (if owns_mutex token x then None else x)"

definition purge_entry :: "int \<Rightarrow> entry option \<Rightarrow> entry option" where
  "purge_entry now x = (if is_zset x then put_zset x (zset_purge (- now) now (members_of x)) else x)"

definition claim_read :: "string \<Rightarrow> int \<Rightarrow> entry option \<Rightarrow> entry option" where
  "claim_read member expiry x =
     Some (RZset ((members_of x)(member \<mapsto> expiry)),
           Some (case expiry_of x of None \<Rightarrow> expiry | Some t \<Rightarrow> max t expiry))"

definition claim_write :: "string \<Rightarrow> int \<Rightarrow> entry option \<Rightarrow> entry option" where
  "claim_write member expiry x = Some (RZset ((members_of x)(member \<mapsto> - expiry)), Some expiry)"

definition drop_member :: "string \<Rightarrow> entry option \<Rightarrow> entry option" where
  "drop_member member x = (if is_zset x then put_zset x ((members_of x)(member := None)) else x)"

text \<open>A live writer, any live holder, and a live reader or writer of a key.\<close>

definition has_writer :: "int \<Rightarrow> entry option \<Rightarrow> bool" where
  "has_writer now x \<longleftrightarrow> (\<exists>m sc. members_of x m = Some sc \<and> sc < - now \<and> sc < 0)"

definition has_holder :: "int \<Rightarrow> entry option \<Rightarrow> bool" where
  "has_holder now x \<longleftrightarrow> (\<exists>m sc. members_of x m = Some sc \<and> \<not> (- now \<le> sc \<and> sc \<le> now))"

definition reads_now :: "int \<Rightarrow> string \<Rightarrow> entry option \<Rightarrow> bool" where
  "reads_now now member x \<longleftrightarrow> (\<exists>sc. members_of x member = Some sc \<and> now < sc)"

definition writes_now :: "int \<Rightarrow> string \<Rightarrow> entry option \<Rightarrow> bool" where
  "writes_now now member x \<longleftrightarrow> (\<exists>sc. members_of x member = Some sc \<and> sc < - now)"

lemma is_zset_members: "is_zset x \<longleftrightarrow> zset_of x = Some (members_of x)"
  by (auto simp: is_zset_def members_of_def)

lemma is_zset_simps [simp]:
  "is_zset None" "is_zset (Some (RZset z, e))" "\<not> is_zset (Some (RString v, e))"
  "is_zset (put_zset x z)"
  by (auto simp: is_zset_def)

lemma members_of_simps [simp]:
  "members_of None = Map.empty" "members_of (Some (RZset z, e)) = z"
  "members_of (Some (RString v, e)) = Map.empty"
  "members_of (put_zset x z) = z"
  by (simp_all add: members_of_def)

lemma put_zset_again [simp]: "put_zset (put_zset x z) z = put_zset x z"
  by (simp add: put_zset_def)

lemma is_zset_purge_entry [simp]: "is_zset (purge_entry n x) = is_zset x"
  by (simp add: purge_entry_def)

lemma members_of_purge_entry [simp]:
  "members_of (purge_entry n x) = zset_purge (- n) n (members_of x)"
  by (simp add: purge_entry_def members_of_def is_zset_def)

lemma purge_entry_idem [simp]: "purge_entry n (purge_entry n x) = purge_entry n x"
  by (simp add: purge_entry_def)

lemma claim_mutex_idem [simp]: "claim_mutex t e (claim_mutex t e x) = claim_mutex t e x"
  by (simp add: claim_mutex_def)

lemma claim_read_idem [simp]: "claim_read m e (claim_read m e x) = claim_read m e x"
  by (simp add: claim_read_def split: option.splits)

lemma claim_write_idem [simp]: "claim_write m e (claim_write m e x) = claim_write m e x"
  by (simp add: claim_write_def)

lemma is_zset_claim [simp]: "is_zset (claim_read m e x)" "is_zset (claim_write m e x)"
  by (simp_all add: claim_read_def claim_write_def)

lemma members_of_claim [simp]:
  "members_of (claim_read m e x) = (members_of x)(m \<mapsto> e)"
  "members_of (claim_write m e x) = (members_of x)(m \<mapsto> - e)"
  by (simp_all add: claim_read_def claim_write_def)

lemma members_of_drop_member [simp]:
  "members_of (drop_member m x) = (members_of x)(m := None)"
  by (simp add: drop_member_def members_of_def is_zset_def split: option.splits)

lemma drop_member_idem [simp]: "drop_member m (drop_member m x) = drop_member m x"
  by (simp add: drop_member_def)

lemma drop_mutex_idem [simp]: "drop_mutex t (drop_mutex t x) = drop_mutex t x"
  by (simp add: drop_mutex_def)

lemma purged_bad [simp]:
  "has_writer n (purge_entry n x) = has_writer n x"
  "has_holder n (purge_entry n x) = has_holder n x"
  "reads_now n m (purge_entry n x) = reads_now n m x"
  "writes_now n m (purge_entry n x) = writes_now n m x"
  by (auto simp: has_writer_def has_holder_def reads_now_def writes_now_def zset_purge_Some; force)+

text \<open>The TTL and the expiry it leads to are in the range that Lua holds exactly.\<close>

definition rw_args :: "int \<Rightarrow> string \<Rightarrow> int \<Rightarrow> bool" where
  "rw_args n raw ttl \<longleftrightarrow> valid_ttl raw ttl \<and> 0 \<le> n \<and> n + ttl \<le> max_exact"

lemma rw_args_px_ok: "rw_args n raw ttl \<Longrightarrow> px_ok n ttl"
  using valid_ttl_pos [of raw ttl] by (simp add: rw_args_def px_ok_def max_exact_def)

context redis_server
begin

lemma view_redis_call_now [simp]: "now (snd (redis_call call c s)) = now s"
  by simp

subsection \<open>The loop rules\<close>

lemma for_keys_check:
  assumes step: "\<And>k s. k \<in> set ks \<Longrightarrow> ok (view s k) \<Longrightarrow> now s = n \<Longrightarrow>
      fst (f k s) = (if bad (view s k) then Inl (Return 0) else Inr ()) \<and>
      view (snd (f k s)) = (view s)(k := g (view s k)) \<and> now (snd (f k s)) = n"
    and idem: "\<And>x. ok x \<Longrightarrow> ok (g x) \<and> g (g x) = g x \<and> bad (g x) = bad x"
    and init: "\<forall>k\<in>set ks. ok (view s k)" "now s = n"
  shows "fst (for_keys ks f s) = (if \<exists>k\<in>set ks. bad (view s k) then Inl (Return 0) else Inr ()) \<and>
    view (snd (for_keys ks f s)) =
      update_at (set (upto_first (\<lambda>k. bad (view s k)) ks)) g (view s) \<and>
    now (snd (for_keys ks f s)) = n"
  using step init
proof (induction ks arbitrary: s)
  case Nil
  then show ?case by simp
next
  case (Cons k ks)
  let ?s = "snd (f k s)"
  have fk: "fst (f k s) = (if bad (view s k) then Inl (Return 0) else Inr ())"
    "view ?s = (view s)(k := g (view s k))" "now ?s = n"
    using Cons.prems(1) [of k s] Cons.prems(2,3) by auto
  show ?case
  proof (cases "bad (view s k)")
    case True
    with fk show ?thesis by (auto simp: update_at_def fun_eq_iff)
  next
    case False
    have gk: "ok (g (view s k))" "g (g (view s k)) = g (view s k)" "bad (g (view s k)) = bad (view s k)"
      using idem Cons.prems(2) by auto
    have same: "bad (view ?s j) = bad (view s j)" for j
      using fk(2) gk(3) by simp
    have "fst (for_keys ks f ?s) = (if \<exists>k\<in>set ks. bad (view ?s k) then Inl (Return 0) else Inr ()) \<and>
      view (snd (for_keys ks f ?s)) =
        update_at (set (upto_first (\<lambda>k. bad (view ?s k)) ks)) g (view ?s) \<and>
      now (snd (for_keys ks f ?s)) = n"
      using Cons.prems fk gk by (intro Cons.IH) auto
    note IH = this [unfolded same, unfolded fk(2)
      update_at_insert_fun_upd [of g "view s" k, OF gk(2)]]
    from False fk(1) IH show ?thesis by simp
  qed
qed

lemma for_keys_update:
  assumes step: "\<And>k s. k \<in> set ks \<Longrightarrow> ok (view s k) \<Longrightarrow> now s = n \<Longrightarrow>
      fst (f k s) = Inr () \<and> view (snd (f k s)) = (view s)(k := g (view s k)) \<and> now (snd (f k s)) = n"
    and idem: "\<And>x. ok x \<Longrightarrow> ok (g x) \<and> g (g x) = g x"
    and init: "\<forall>k\<in>set ks. ok (view s k)" "now s = n"
  shows "fst (for_keys ks f s) = Inr () \<and>
    view (snd (for_keys ks f s)) = update_at (set ks) g (view s) \<and>
    now (snd (for_keys ks f s)) = n"
  using for_keys_check [where bad = "\<lambda>_. False", OF _ _ init, of f g] step idem
  by (simp add: upto_first_all)

lemma for_count_update:
  assumes step: "\<And>k s. k \<in> set ks \<Longrightarrow>
      fst (f k s) = Inr (if own (view s k) then 1 else 0) \<and>
      view (snd (f k s)) = (view s)(k := g (view s k)) \<and> now (snd (f k s)) = now s"
    and idem: "\<And>x. g (g x) = g x \<and> \<not> own (g x)"
  shows "fst (for_count ks f c s) = Inr (c + int (card {k \<in> set ks. own (view s k)})) \<and>
    view (snd (for_count ks f c s)) = update_at (set ks) g (view s) \<and>
    now (snd (for_count ks f c s)) = now s"
  using step
proof (induction ks arbitrary: s c)
  case Nil
  then show ?case by simp
next
  case (Cons k ks)
  let ?s = "snd (f k s)" and ?d = "if own (view s k) then 1 else 0 :: int"
  have fk: "fst (f k s) = Inr ?d" "view ?s = (view s)(k := g (view s k))" "now ?s = now s"
    using Cons.prems [of k s] by auto
  have "{j \<in> set ks. own (view ?s j)} = {j \<in> set ks. own (view s j)} - {k}"
    using fk(2) idem by auto
  moreover have "card {j \<in> set (k # ks). own (view s j)} = card
      (if own (view s k) then insert k ({j \<in> set ks. own (view s j)} - {k})
       else {j \<in> set ks. own (view s j)} - {k})"
    by (rule arg_cong [of _ _ card]) auto
  ultimately have count: "?d + int (card {j \<in> set ks. own (view ?s j)}) =
      int (card {j \<in> set (k # ks). own (view s j)})"
    by (simp del: insert_Diff_single set_simps(2))
  have "fst (for_count ks f (c + ?d) ?s) = Inr (c + ?d + int (card {k \<in> set ks. own (view ?s k)})) \<and>
    view (snd (for_count ks f (c + ?d) ?s)) = update_at (set ks) g (view ?s) \<and>
    now (snd (for_count ks f (c + ?d) ?s)) = now ?s"
    using Cons.prems by (intro Cons.IH) auto
  with fk count update_at_insert_fun_upd [of g "view s" k "set ks"] idem
  show ?case by simp
qed


subsection \<open>The mutex scripts\<close>

lemma px_ok_expiry: "valid_ttl raw ttl \<Longrightarrow> n \<le> max_exact \<Longrightarrow> px_ok n ttl"
  using valid_ttl_pos [of raw ttl] by (simp add: px_ok_def valid_ttl_def max_exact_def)

lemma mutex_acquire_free:
  assumes ttl: "valid_ttl raw ttl" "px_ok (now s) ttl"
    and free: "\<forall>k\<in>set ks. view s k = None"
  shows "fst (SCRIPT_ACQUIRE_LOCK call ks [token, raw] s) = Inr 1"
    and "view (snd (SCRIPT_ACQUIRE_LOCK call ks [token, raw] s)) =
           update_at (set ks) (claim_mutex token (now s + ttl)) (view s)"
proof -
  let ?check = "\<lambda>k. lua_bind (redis_call call (Exists k))
      (\<lambda>r. if r \<noteq> IntReply 0 then lua_stop (Return 0) else lua_pure ())"
  let ?set = "\<lambda>k. lua_bind (lua_string (lua_index [token, raw] 1))
      (\<lambda>token. lua_then (redis_call call (Set_PX k token raw)) (lua_pure ()))"
  let ?s = "snd (for_keys ks ?check s)"
  have check: "fst (for_keys ks ?check s) = Inr ()" "view ?s = view s" "now ?s = now s"
    using for_keys_check [where f = ?check and ok = "\<lambda>_. True" and bad = "\<lambda>x. x \<noteq> None"
        and g = "\<lambda>x. x" and ks = ks and s = s and n = "now s"] free
    by (auto simp: call_exists)
  have "fst (for_keys ks ?set ?s) = Inr () \<and>
      view (snd (for_keys ks ?set ?s)) = update_at (set ks) (claim_mutex token (now s + ttl)) (view ?s) \<and>
      now (snd (for_keys ks ?set ?s)) = now s"
    using ttl check
    by (intro for_keys_update [where ok = "\<lambda>_. True"])
      (auto simp: valid_ttl_def call_set_px claim_mutex_def)
  with check show "fst (SCRIPT_ACQUIRE_LOCK call ks [token, raw] s) = Inr 1"
    "view (snd (SCRIPT_ACQUIRE_LOCK call ks [token, raw] s)) =
       update_at (set ks) (claim_mutex token (now s + ttl)) (view s)"
    using TTL_PREFLIGHT_ok [of "[token, raw]" raw ttl s] ttl(1)
    by (simp_all add: SCRIPT_ACQUIRE_LOCK_def script_with_ttl_preflight_def)
qed

lemma mutex_acquire_busy:
  assumes ttl: "valid_ttl raw ttl"
    and busy: "\<exists>k\<in>set ks. view s k \<noteq> None"
  shows "fst (SCRIPT_ACQUIRE_LOCK call ks [token, raw] s) = Inr 0"
    and "view (snd (SCRIPT_ACQUIRE_LOCK call ks [token, raw] s)) = view s"
proof -
  let ?check = "\<lambda>k. lua_bind (redis_call call (Exists k))
      (\<lambda>r. if r \<noteq> IntReply 0 then lua_stop (Return 0) else lua_pure ())"
  have "fst (for_keys ks ?check s) = Inl (Return 0)" "view (snd (for_keys ks ?check s)) = view s"
    using for_keys_check [where f = ?check and ok = "\<lambda>_. True" and bad = "\<lambda>x. x \<noteq> None"
        and g = "\<lambda>x. x" and ks = ks and s = s and n = "now s"] busy
    by (auto simp: call_exists)
  then show "fst (SCRIPT_ACQUIRE_LOCK call ks [token, raw] s) = Inr 0"
    "view (snd (SCRIPT_ACQUIRE_LOCK call ks [token, raw] s)) = view s"
    using TTL_PREFLIGHT_ok [of "[token, raw]" raw ttl s] ttl
    by (simp_all add: SCRIPT_ACQUIRE_LOCK_def script_with_ttl_preflight_def)
qed

lemma call_get_owned: "owns_mutex token (view s k) \<Longrightarrow> fst (call (Get k) s) = BulkReply token"
  by (auto simp: owns_mutex_def call_get_string)

lemma call_get_not_owned:
  "\<not> owns_mutex token (view s k) \<Longrightarrow>
     is_error (fst (call (Get k) s)) \<or> \<not> lua_eq_arg (fst (call (Get k) s)) (Some token)"
  by (cases "view s k" rule: zset_of.cases)
    (auto simp: owns_mutex_def call_get_none call_get_string call_get_wrongtype lua_eq_arg_def)

lemma mutex_renew_owned:
  assumes ttl: "valid_ttl raw ttl" "px_ok (now s) ttl"
    and owned: "\<forall>k\<in>set ks. owns_mutex token (view s k)"
  shows "fst (SCRIPT_RENEW_LOCK call ks [token, raw] s) = Inr 1"
    and "view (snd (SCRIPT_RENEW_LOCK call ks [token, raw] s)) =
           update_at (set ks) (claim_mutex token (now s + ttl)) (view s)"
proof -
  let ?check = "\<lambda>k. lua_bind (redis_call call (Get k))
      (\<lambda>r. if \<not> lua_eq_arg r (lua_index [token, raw] 1) then lua_stop (Return 0) else lua_pure ())"
  let ?set = "\<lambda>k. lua_then (redis_call call (Pexpire k raw)) (lua_pure ())"
  let ?s = "snd (for_keys ks ?check s)"
  have check: "fst (for_keys ks ?check s) = Inr ()" "view ?s = view s" "now ?s = now s"
    using for_keys_update [where f = ?check and ok = "owns_mutex token"
        and g = "\<lambda>x. x" and ks = ks and s = s and n = "now s"] owned
    by (auto simp: call_get_owned lua_eq_arg_def)
  have "fst (for_keys ks ?set ?s) = Inr () \<and>
      view (snd (for_keys ks ?set ?s)) = update_at (set ks) (claim_mutex token (now s + ttl)) (view ?s) \<and>
      now (snd (for_keys ks ?set ?s)) = now s"
    using ttl check owned
    by (intro for_keys_update [where ok = "owns_mutex token"])
      (auto simp: valid_ttl_def call_pexpire claim_mutex_def owns_mutex_def)
  with check show "fst (SCRIPT_RENEW_LOCK call ks [token, raw] s) = Inr 1"
    "view (snd (SCRIPT_RENEW_LOCK call ks [token, raw] s)) =
       update_at (set ks) (claim_mutex token (now s + ttl)) (view s)"
    using TTL_PREFLIGHT_ok [of "[token, raw]" raw ttl s] ttl(1)
    by (simp_all add: SCRIPT_RENEW_LOCK_def script_with_ttl_preflight_def)
qed

text \<open>
  A key that is not owned ends the check: with 0, or with the error that reading a value of
  another type raises.
\<close>

lemma renew_check_lost:
  fixes ks :: "redis_key list" and token :: uuid
  defines "f \<equiv> \<lambda>k. lua_bind (redis_call call (Get k))
      (\<lambda>r. if \<not> lua_eq_arg r (Some token) then lua_stop (Return 0) else lua_pure ())"
  assumes "\<exists>k\<in>set ks. \<not> owns_mutex token (view s k)"
  shows "(fst (for_keys ks f s) = Inl (Return 0) \<or> (\<exists>msg. fst (for_keys ks f s) = Inl (Raise msg))) \<and>
    view (snd (for_keys ks f s)) = view s"
  using assms(2)
proof (induction ks arbitrary: s)
  case Nil
  then show ?case by simp
next
  case (Cons k ks)
  show ?case
  proof (cases "owns_mutex token (view s k)")
    case True
    then have "fst (f k s) = Inr ()" "view (snd (f k s)) = view s"
      by (simp_all add: f_def call_get_owned lua_eq_arg_def)
    with True Cons.prems Cons.IH [of "snd (f k s)"] show ?thesis by auto
  next
    case False
    then show ?thesis
      using call_get_not_owned [OF False]
      by (auto simp: f_def is_error_def split: reply.splits)
  qed
qed

lemma mutex_renew_lost:
  assumes ttl: "valid_ttl raw ttl"
    and lost: "\<exists>k\<in>set ks. \<not> owns_mutex token (view s k)"
  shows "fst (SCRIPT_RENEW_LOCK call ks [token, raw] s) = Inr 0 \<or>
      (\<exists>msg. fst (SCRIPT_RENEW_LOCK call ks [token, raw] s) = Inl msg)"
    and "view (snd (SCRIPT_RENEW_LOCK call ks [token, raw] s)) = view s"
  using renew_check_lost [OF lost] TTL_PREFLIGHT_ok [of "[token, raw]" raw ttl s] ttl
  by (auto simp: SCRIPT_RENEW_LOCK_def script_with_ttl_preflight_def split: sum.splits)

lemma mutex_release:
  shows "fst (SCRIPT_RELEASE_LOCK call ks [token] s) =
      Inr (if card {k \<in> set ks. owns_mutex token (view s k)} = length ks then 1 else 0)"
    and "view (snd (SCRIPT_RELEASE_LOCK call ks [token] s)) =
      update_at (set ks) (drop_mutex token) (view s)"
proof -
  let ?f = "\<lambda>k. lua_bind (redis_call call (Type_of k)) (\<lambda>r.
      if status_ok r = Some ''string''
      then lua_bind (redis_call call (Get k)) (\<lambda>v.
             if lua_eq_arg v (lua_index [token] 1)
             then lua_bind (redis_call call (Del k)) lua_number
             else lua_pure 0)
      else lua_pure 0)"
  have step: "fst (?f k s) = Inr (if owns_mutex token (view s k) then 1 else 0) \<and>
      view (snd (?f k s)) = (view s)(k := drop_mutex token (view s k)) \<and> now (snd (?f k s)) = now s"
    for k s
    using view_other [of s k]
    by (cases "view s k" rule: zset_of.cases)
      (auto simp: call_type call_get_string call_get_none call_del drop_mutex_def owns_mutex_def
        lua_eq_arg_def status_ok_def fun_upd_idem_iff)
  have "fst (for_count ks ?f 0 s) = Inr (0 + int (card {k \<in> set ks. owns_mutex token (view s k)})) \<and>
    view (snd (for_count ks ?f 0 s)) = update_at (set ks) (drop_mutex token) (view s) \<and>
    now (snd (for_count ks ?f 0 s)) = now s"
    by (rule for_count_update [OF step]) (simp add: drop_mutex_def owns_mutex_def)
  then show "fst (SCRIPT_RELEASE_LOCK call ks [token] s) =
      Inr (if card {k \<in> set ks. owns_mutex token (view s k)} = length ks then 1 else 0)"
    "view (snd (SCRIPT_RELEASE_LOCK call ks [token] s)) =
      update_at (set ks) (drop_mutex token) (view s)"
    by (simp_all add: SCRIPT_RELEASE_LOCK_def)
qed

subsection \<open>The read-write preflight\<close>

lemma time_millis_now:
  "lua_bind (redis_call call Server_time) time_millis s = (Inr (now s), snd (call Server_time s))"
proof -
  obtain a b secs micros where t: "fst (call Server_time s) = ArrayReply [BulkReply a, BulkReply b]"
    "lua_tonumber a = Some secs" "lua_tonumber b = Some micros" "now s = secs * 1000 + micros div 1000"
    using call_time(1) [of s] by blast
  then show ?thesis
    by (intro prod_eqI) (simp_all add: time_millis_def)
qed

lemma RW_EXPIRY_PREFLIGHT_run:
  "RW_EXPIRY_PREFLIGHT call ttl s =
     (if now s < 0 \<or> max_exact < now s \<or> max_exact - now s < ttl
      then (Inl (Raise ''ERR rlock expiry exceeds the exact integer range''), snd (call Server_time s))
      else (Inr (now s, now s + ttl), snd (call Server_time s)))"
  using time_millis_now [of s]
  by (auto simp: RW_EXPIRY_PREFLIGHT_def lua_bind_def lua_pure_def lua_stop_def
      split: prod.splits sum.splits)

lemma RW_TYPE_PREFLIGHT_run:
  "fst (RW_TYPE_PREFLIGHT call ks s) =
     (if \<forall>k\<in>set ks. is_zset (view s k) then Inr ()
      else Inl (Raise ''WRONGTYPE rlock read-write locks require sorted set keys'')) \<and>
   view (snd (RW_TYPE_PREFLIGHT call ks s)) = view s"
proof (induction ks arbitrary: s)
  case Nil
  then show ?case by (simp add: RW_TYPE_PREFLIGHT_def)
next
  case (Cons k ks)
  have kind: "type_name (view s k) = ''none'' \<or> type_name (view s k) = ''zset'' \<longleftrightarrow> is_zset (view s k)"
    using view_other [of s k] by (cases "view s k" rule: zset_of.cases) (auto simp: is_zset_def)
  show ?case
    using kind Cons.IH [of "snd (call (Type_of k) s)"]
    by (auto simp: RW_TYPE_PREFLIGHT_def call_type status_ok_def Let_def)
qed

lemma rw_preflight_ok:
  assumes "lua_index ARGV 2 = Some raw" and "rw_args (now s) raw ttl"
    and "\<forall>k\<in>set ks. is_zset (view s k)"
  obtains s' where "view s' = view s" and "now s' = now s"
    and "\<And>body. rw_script_with_preflight call ks ARGV body s =
      eval_script (body raw ttl (now s) (now s + ttl)) s'"
proof
  let ?t = "snd (call Server_time s)"
  let ?s = "snd (RW_TYPE_PREFLIGHT call ks ?t)"
  have kinds: "fst (RW_TYPE_PREFLIGHT call ks ?t) = Inr ()" and same: "view ?s = view s"
    using RW_TYPE_PREFLIGHT_run [of ks ?t] assms(3) by simp_all
  show "view ?s = view s" by (rule same)
  show "now ?s = now s"
  proof -
    have "now (snd (RW_TYPE_PREFLIGHT call ks t)) = now t" for t
      by (induction ks arbitrary: t) (auto simp: RW_TYPE_PREFLIGHT_def Let_def split: reply.splits)
    then show ?thesis by simp
  qed
  show "rw_script_with_preflight call ks ARGV body s = eval_script (body raw ttl (now s) (now s + ttl)) ?s"
    for body
    using TTL_PREFLIGHT_ok [of ARGV raw ttl s] assms(1,2) kinds valid_ttl_pos [of raw ttl]
    by (intro prod_eqI)
      (auto simp: rw_script_with_preflight_def RW_EXPIRY_PREFLIGHT_run rw_args_def)
qed

text \<open>A failed preflight is an error and changes nothing a client observes.\<close>

lemma rw_preflight_bad:
  assumes "\<not> (\<exists>raw ttl. lua_index ARGV 2 = Some raw \<and> rw_args (now s) raw ttl) \<or>
    (\<exists>k\<in>set ks. \<not> is_zset (view s k))"
  shows "(\<exists>msg. fst (rw_script_with_preflight call ks ARGV body s) = Inl msg) \<and>
    view (snd (rw_script_with_preflight call ks ARGV body s)) = view s"
proof (cases "\<exists>raw ttl. lua_index ARGV 2 = Some raw \<and> valid_ttl raw ttl")
  case False
  then obtain msg where "TTL_PREFLIGHT ARGV s = (Inl (Raise msg), s)"
    using TTL_PREFLIGHT_fails [of ARGV s] by blast
  then show ?thesis by (simp add: rw_script_with_preflight_def)
next
  case True
  then obtain raw ttl where ttl: "lua_index ARGV 2 = Some raw" "valid_ttl raw ttl" by blast
  then have pre: "TTL_PREFLIGHT ARGV s = (Inr (raw, ttl), s)" by (rule TTL_PREFLIGHT_ok)
  show ?thesis
    using pre assms ttl RW_TYPE_PREFLIGHT_run [of ks "snd (call Server_time s)"] valid_ttl_pos [OF ttl(2)]
    by (auto simp: rw_script_with_preflight_def RW_EXPIRY_PREFLIGHT_run rw_args_def)
qed

end

end
