(* ===== verification/RW_Script_Facts.thy ===== *)
theory RW_Script_Facts
  imports Script_Facts
begin

text \<open>
  What the six read-write scripts do to the keys a client observes, for any server that keeps the
  contract \<open>redis_server\<close>. Each script that takes a TTL purges the expired members of the keys it
  visits, stops with 0 at the first key that does not qualify, and otherwise writes its member to
  every key.
\<close>

context redis_server
begin

subsection \<open>The steps of the loops\<close>

lemma purge_step:
  assumes "is_zset (view s k)"
  shows "\<not> is_error (fst (call (Zremrangebyscore k (- n) n) s))"
    and "view (snd (call (Zremrangebyscore k (- n) n) s)) = (view s)(k := purge_entry n (view s k))"
  using assms call_zremrangebyscore [of s k "members_of (view s k)" "- n" n]
  by (simp_all add: is_zset_members purge_entry_def is_error_def)

lemma add_reader_step:
  fixes k :: redis_key and n ttl :: int and raw member :: string
  assumes "is_zset (view s k)" and "now s = n" and "rw_args n raw ttl"
  defines "f \<equiv> lua_then (redis_call call (Zadd k (n + ttl) member))
            (lua_bind (redis_call call (Pttl k)) (\<lambda>r.
             lua_bind (lua_number r) (\<lambda>pttl.
              if pttl < ttl
              then lua_then (redis_call call (Pexpire k raw)) (lua_pure ())
              else lua_pure ())))"
  shows "fst (f s) = Inr () \<and> view (snd (f s)) = (view s)(k := claim_read member (n + ttl) (view s k)) \<and>
    now (snd (f s)) = n"
proof -
  let ?z = "(members_of (view s k))(member \<mapsto> n + ttl)"
  let ?s = "snd (call (Zadd k (n + ttl) member) s)"
  have zadd: "\<exists>i. fst (call (Zadd k (n + ttl) member) s) = IntReply i"
    "view ?s = (view s)(k := put_zset (view s k) ?z)"
    using call_zadd [of s k "members_of (view s k)" "n + ttl" member] assms(1)
    by (simp_all add: is_zset_members)
  have entry: "put_zset (view s k) ?z = Some (RZset ?z, expiry_of (view s k))"
    by (simp add: put_zset_def)
  have raw: "lua_tonumber raw = Some ttl" "px_ok n ttl" "0 < ttl"
    using assms(3) rw_args_px_ok [OF assms(3)] valid_ttl_pos by (auto simp: rw_args_def valid_ttl_def)
  show ?thesis
  proof (cases "expiry_of (view s k)")
    case None
    with zadd entry raw assms(2) show ?thesis
      by (auto simp: f_def call_pttl call_pexpire claim_read_def add.commute split: reply.splits)
  next
    case (Some t)
    with zadd entry raw assms(2) show ?thesis
      by (auto simp: f_def call_pttl call_pexpire claim_read_def add.commute max_def split: reply.splits)
  qed
qed

lemma add_writer_step:
  fixes k :: redis_key and n ttl :: int and raw member :: string
  assumes "is_zset (view s k)" and "now s = n" and "rw_args n raw ttl"
  defines "f \<equiv> lua_then (redis_call call (Zadd k (- (n + ttl)) member))
            (lua_then (redis_call call (Pexpire k raw)) (lua_pure ()))"
  shows "fst (f s) = Inr () \<and> view (snd (f s)) = (view s)(k := claim_write member (n + ttl) (view s k)) \<and>
    now (snd (f s)) = n"
proof -
  have raw: "lua_tonumber raw = Some ttl" "px_ok n ttl"
    using assms(3) rw_args_px_ok [OF assms(3)] by (auto simp: rw_args_def valid_ttl_def)
  show ?thesis
    using call_zadd [of s k "members_of (view s k)" "- (n + ttl)" member] assms(1,2) raw
    by (auto simp: f_def is_zset_members call_pexpire claim_write_def put_zset_def add.commute
        split: reply.splits)
qed

lemma score_step:
  fixes k :: redis_key and member :: string and s :: 's
  assumes "is_zset (view s k)"
  defines "r \<equiv> fst (call (Zscore k member) s)"
  shows "(members_of (view s k) member = None \<and> r = NilReply) \<or>
    (\<exists>sc str. members_of (view s k) member = Some sc \<and> r = BulkReply str \<and> lua_tonumber str = Some sc)"
proof (cases "members_of (view s k) member")
  case None
  then show ?thesis using call_zscore_none assms by (simp add: is_zset_members)
next
  case (Some sc)
  then show ?thesis
    using call_zscore_some [of s k "members_of (view s k)" member sc] assms by (auto simp: is_zset_members)
qed

subsection \<open>The checking loops\<close>

text \<open>A loop that purges a key and then stops with 0 where \<open>bad\<close> holds.\<close>

lemma purge_check:
  assumes step: "\<And>k s. k \<in> set ks \<Longrightarrow> is_zset (view s k) \<Longrightarrow> now s = n \<Longrightarrow>
      fst (f k s) = (if bad (view s k) then Inl (Return 0) else Inr ()) \<and>
      view (snd (f k s)) = (view s)(k := purge_entry n (view s k)) \<and> now (snd (f k s)) = n"
    and purged: "\<And>x. bad (purge_entry n x) = bad x"
    and init: "\<forall>k\<in>set ks. is_zset (view s k)" "now s = n"
  shows "fst (for_keys ks f s) = (if \<exists>k\<in>set ks. bad (view s k) then Inl (Return 0) else Inr ()) \<and>
    view (snd (for_keys ks f s)) =
      update_at (set (upto_first (\<lambda>k. bad (view s k)) ks)) (purge_entry n) (view s) \<and>
    now (snd (for_keys ks f s)) = n"
  by (rule for_keys_check [where ok = is_zset, OF step _ init]) (simp_all add: purged)

lemma finite_members: "is_zset (view s k) \<Longrightarrow> finite (dom (members_of (view s k)))"
  using finite_zset_of by (simp add: is_zset_members)

lemma finite_members_purged:
  "is_zset (view s k) \<Longrightarrow> finite {m. \<exists>sc. zset_purge lo hi (members_of (view s k)) m = Some sc \<and> P sc}"
  by (rule finite_subset [OF _ finite_members [of s k]]) (auto simp: zset_purge_Some)

lemma no_writer_step:
  fixes k :: redis_key and n :: int
  assumes "is_zset (view s k)" and "now s = n" and "0 \<le> n"
  defines "f \<equiv> lua_then (redis_call call (Zremrangebyscore k (- n) n))
            (lua_bind (redis_call call (Zcount k ''-inf'' ''(0'')) (\<lambda>r.
              if r \<noteq> IntReply 0 then lua_stop (Return 0) else lua_pure ()))"
  shows "fst (f s) = (if has_writer n (view s k) then Inl (Return 0) else Inr ()) \<and>
    view (snd (f s)) = (view s)(k := purge_entry n (view s k)) \<and> now (snd (f s)) = n"
proof -
  let ?s = "snd (call (Zremrangebyscore k (- n) n) s)"
  let ?z = "zset_purge (- n) n (members_of (view s k))"
  have s: "view ?s k = purge_entry n (view s k)" "zset_of (view ?s k) = Some ?z"
    using purge_step [OF assms(1), of n] assms(1) by (simp_all add: purge_entry_def)
  have left: "(x \<and> \<not> (- n \<le> sc \<and> sc \<le> n)) \<and> sc < 0 \<longleftrightarrow> x \<and> sc < - n \<and> sc < 0" for sc x
    using assms(3) by auto
  have "card {m. \<exists>sc. ?z m = Some sc \<and> sc < 0} = 0 \<longleftrightarrow> {m. \<exists>sc. ?z m = Some sc \<and> sc < 0} = {}"
    using finite_members_purged [OF assms(1), of "- n" n "\<lambda>sc. sc < 0"] by (simp only: card_eq_0_iff) auto
  also have "\<dots> \<longleftrightarrow> \<not> has_writer n (view s k)"
    using left by (simp add: has_writer_def zset_purge_Some)
  finally show ?thesis
    using purge_step [OF assms(1), of n] call_zcount_negative(1) [OF s(2)] assms(2)
    by (auto simp: f_def is_error_def split: reply.splits)
qed

lemma no_holder_step:
  fixes k :: redis_key and n :: int
  assumes "is_zset (view s k)" and "now s = n"
  defines "f \<equiv> lua_then (redis_call call (Zremrangebyscore k (- n) n))
            (lua_bind (redis_call call (Zcard k)) (\<lambda>r.
              if r \<noteq> IntReply 0 then lua_stop (Return 0) else lua_pure ()))"
  shows "fst (f s) = (if has_holder n (view s k) then Inl (Return 0) else Inr ()) \<and>
    view (snd (f s)) = (view s)(k := purge_entry n (view s k)) \<and> now (snd (f s)) = n"
proof -
  let ?s = "snd (call (Zremrangebyscore k (- n) n) s)"
  let ?z = "zset_purge (- n) n (members_of (view s k))"
  have s: "view ?s k = purge_entry n (view s k)" "zset_of (view ?s k) = Some ?z"
    using purge_step [OF assms(1), of n] assms(1) by (simp_all add: purge_entry_def)
  have "card (dom ?z) = 0 \<longleftrightarrow> dom ?z = {}"
    using finite_dom_zset_purge [OF finite_members [OF assms(1)]] by (simp only: card_eq_0_iff) auto
  also have "\<dots> \<longleftrightarrow> \<not> has_holder n (view s k)"
    by (auto simp: has_holder_def zset_purge_Some dom_def)
  finally show ?thesis
    using purge_step [OF assms(1), of n] call_zcard(1) [OF s(2)] assms(2)
    by (auto simp: f_def is_error_def split: reply.splits)
qed


lemma renew_read_step:
  fixes k :: redis_key and n :: int and member :: string
  assumes "is_zset (view s k)" and "now s = n"
  defines "f \<equiv> lua_then (redis_call call (Zremrangebyscore k (- n) n))
            (lua_bind (redis_call call (Zscore k member)) (\<lambda>score.
              (case score of
                 BulkReply str \<Rightarrow>
                   (case lua_tonumber str of
                      None \<Rightarrow> lua_stop (Raise ''attempt to compare nil with number'')
                    | Some sc \<Rightarrow> if sc \<le> n then lua_stop (Return 0) else lua_pure ())
               | _ \<Rightarrow> lua_stop (Return 0))))"
  shows "fst (f s) = (if \<not> reads_now n member (view s k) then Inl (Return 0) else Inr ()) \<and>
    view (snd (f s)) = (view s)(k := purge_entry n (view s k)) \<and> now (snd (f s)) = n"
proof -
  let ?s = "snd (call (Zremrangebyscore k (- n) n) s)"
  have v: "view ?s k = purge_entry n (view s k)" "is_zset (view ?s k)"
    using purge_step [OF assms(1), of n] assms(1) by simp_all
  have "reads_now n member (view s k) = reads_now n member (view ?s k)"
    using v(1) by simp
  then show ?thesis
    using purge_step [OF assms(1), of n] score_step [OF v(2), of member] assms(2) v(1)
    by (auto simp: f_def is_error_def reads_now_def split: reply.splits)
qed

lemma renew_write_step:
  fixes k :: redis_key and n :: int and member :: string
  assumes "is_zset (view s k)" and "now s = n"
  defines "f \<equiv> lua_then (redis_call call (Zremrangebyscore k (- n) n))
            (lua_bind (redis_call call (Zscore k member)) (\<lambda>score.
              (case score of
                 BulkReply str \<Rightarrow>
                   (case lua_tonumber str of
                      None \<Rightarrow> lua_stop (Raise ''attempt to compare nil with number'')
                    | Some sc \<Rightarrow> if - n \<le> sc then lua_stop (Return 0) else lua_pure ())
               | _ \<Rightarrow> lua_stop (Return 0))))"
  shows "fst (f s) = (if \<not> writes_now n member (view s k) then Inl (Return 0) else Inr ()) \<and>
    view (snd (f s)) = (view s)(k := purge_entry n (view s k)) \<and> now (snd (f s)) = n"
proof -
  let ?s = "snd (call (Zremrangebyscore k (- n) n) s)"
  have v: "view ?s k = purge_entry n (view s k)" "is_zset (view ?s k)"
    using purge_step [OF assms(1), of n] assms(1) by simp_all
  have "writes_now n member (view s k) = writes_now n member (view ?s k)"
    using v(1) by simp
  then show ?thesis
    using purge_step [OF assms(1), of n] score_step [OF v(2), of member] assms(2) v(1)
    by (auto simp: f_def is_error_def writes_now_def split: reply.splits)
qed

text \<open>The loop that adds a member to every key, after the checks left \<open>purge_entry\<close> everywhere.\<close>

lemma add_reader_loop:
  fixes member raw :: string and ttl :: int
  assumes "\<forall>k\<in>set ks. is_zset (view s k)" and "rw_args (now s) raw ttl"
  defines "f \<equiv> \<lambda>k. lua_then (redis_call call (Zadd k (now s + ttl) member))
            (lua_bind (redis_call call (Pttl k)) (\<lambda>r.
             lua_bind (lua_number r) (\<lambda>pttl.
              if pttl < ttl
              then lua_then (redis_call call (Pexpire k raw)) (lua_pure ())
              else lua_pure ())))"
  shows "fst (for_keys ks f s) = Inr () \<and>
    view (snd (for_keys ks f s)) = update_at (set ks) (claim_read member (now s + ttl)) (view s) \<and>
    now (snd (for_keys ks f s)) = now s"
proof (rule for_keys_update [where ok = is_zset])
  fix k t
  assume "is_zset (view t k)" "now t = now s"
  then show "fst (f k t) = Inr () \<and>
      view (snd (f k t)) = (view t)(k := claim_read member (now s + ttl) (view t k)) \<and>
      now (snd (f k t)) = now s"
    unfolding f_def using assms(2) by (intro add_reader_step) simp_all
qed (use assms(1) in simp_all)

lemma add_writer_loop:
  fixes member raw :: string and ttl :: int
  assumes "\<forall>k\<in>set ks. is_zset (view s k)" and "rw_args (now s) raw ttl"
  defines "f \<equiv> \<lambda>k. lua_then (redis_call call (Zadd k (- (now s + ttl)) member))
            (lua_then (redis_call call (Pexpire k raw)) (lua_pure ()))"
  shows "fst (for_keys ks f s) = Inr () \<and>
    view (snd (for_keys ks f s)) = update_at (set ks) (claim_write member (now s + ttl)) (view s) \<and>
    now (snd (for_keys ks f s)) = now s"
proof (rule for_keys_update [where ok = is_zset])
  fix k t
  assume "is_zset (view t k)" "now t = now s"
  then show "fst (f k t) = Inr () \<and>
      view (snd (f k t)) = (view t)(k := claim_write member (now s + ttl) (view t k)) \<and>
      now (snd (f k t)) = now s"
    unfolding f_def using assms(2) by (intro add_writer_step) simp_all
qed (use assms(1) in simp_all)

subsection \<open>The scripts\<close>

lemma acquire_read_run:
  fixes ks :: "redis_key list" and token raw :: string and ttl :: int
  assumes args: "rw_args (now s) raw ttl" and kinds: "\<forall>k\<in>set ks. is_zset (view s k)"
  defines "bad \<equiv> \<lambda>k. has_writer (now s) (view s k)"
  shows "fst (SCRIPT_ACQUIRE_READ_LOCK call ks [token, raw] s) = Inr (if \<exists>k\<in>set ks. bad k then 0 else 1)"
    and "view (snd (SCRIPT_ACQUIRE_READ_LOCK call ks [token, raw] s)) =
      (if \<exists>k\<in>set ks. bad k
       then update_at (set (upto_first bad ks)) (purge_entry (now s)) (view s)
       else update_at (set ks) (claim_read (''r:'' @ token) (now s + ttl) \<circ> purge_entry (now s)) (view s))"
proof -
  let ?n = "now s" and ?m = "''r:'' @ token"
  let ?check = "\<lambda>k. lua_then (redis_call call (Zremrangebyscore k (- ?n) ?n))
            (lua_bind (redis_call call (Zcount k ''-inf'' ''(0'')) (\<lambda>r.
              if r \<noteq> IntReply 0 then lua_stop (Return 0) else lua_pure ()))"
  obtain s' where s': "view s' = view s" "now s' = ?n"
    "\<And>body. rw_script_with_preflight call ks [token, raw] body s =
      eval_script (body raw ttl ?n (?n + ttl)) s'"
    by (rule rw_preflight_ok [OF lua_index_two(3) args kinds]) blast
  have check: "fst (for_keys ks ?check s') = (if \<exists>k\<in>set ks. bad k then Inl (Return 0) else Inr ()) \<and>
    view (snd (for_keys ks ?check s')) = update_at (set (upto_first bad ks)) (purge_entry ?n) (view s) \<and>
    now (snd (for_keys ks ?check s')) = ?n"
    using purge_check [where n = ?n and s = s' and ks = ks and f = ?check
        and bad = "has_writer ?n"] no_writer_step args kinds s'(1,2)
    by (simp add: rw_args_def bad_def)
  show "fst (SCRIPT_ACQUIRE_READ_LOCK call ks [token, raw] s) = Inr (if \<exists>k\<in>set ks. bad k then 0 else 1)"
    "view (snd (SCRIPT_ACQUIRE_READ_LOCK call ks [token, raw] s)) =
      (if \<exists>k\<in>set ks. bad k
       then update_at (set (upto_first bad ks)) (purge_entry (now s)) (view s)
       else update_at (set ks) (claim_read (''r:'' @ token) (now s + ttl) \<circ> purge_entry (now s)) (view s))"
    using check add_reader_loop [of ks "snd (for_keys ks ?check s')" raw ttl ?m] args kinds
    by (simp_all add: SCRIPT_ACQUIRE_READ_LOCK_def s'(3) Let_def upto_first_all)
qed

lemma acquire_write_run:
  fixes ks :: "redis_key list" and token raw :: string and ttl :: int
  assumes args: "rw_args (now s) raw ttl" and kinds: "\<forall>k\<in>set ks. is_zset (view s k)"
  defines "bad \<equiv> \<lambda>k. has_holder (now s) (view s k)"
  shows "fst (SCRIPT_ACQUIRE_WRITE_LOCK call ks [token, raw] s) = Inr (if \<exists>k\<in>set ks. bad k then 0 else 1)"
    and "view (snd (SCRIPT_ACQUIRE_WRITE_LOCK call ks [token, raw] s)) =
      (if \<exists>k\<in>set ks. bad k
       then update_at (set (upto_first bad ks)) (purge_entry (now s)) (view s)
       else update_at (set ks) (claim_write (''w:'' @ token) (now s + ttl) \<circ> purge_entry (now s)) (view s))"
proof -
  let ?n = "now s" and ?m = "''w:'' @ token"
  let ?check = "\<lambda>k. lua_then (redis_call call (Zremrangebyscore k (- ?n) ?n))
            (lua_bind (redis_call call (Zcard k)) (\<lambda>r.
              if r \<noteq> IntReply 0 then lua_stop (Return 0) else lua_pure ()))"
  obtain s' where s': "view s' = view s" "now s' = ?n"
    "\<And>body. rw_script_with_preflight call ks [token, raw] body s =
      eval_script (body raw ttl ?n (?n + ttl)) s'"
    by (rule rw_preflight_ok [OF lua_index_two(3) args kinds]) blast
  have check: "fst (for_keys ks ?check s') = (if \<exists>k\<in>set ks. bad k then Inl (Return 0) else Inr ()) \<and>
    view (snd (for_keys ks ?check s')) = update_at (set (upto_first bad ks)) (purge_entry ?n) (view s) \<and>
    now (snd (for_keys ks ?check s')) = ?n"
    using purge_check [where n = ?n and s = s' and ks = ks and f = ?check
        and bad = "has_holder ?n"] no_holder_step args kinds s'(1,2)
    by (simp add: rw_args_def bad_def)
  show "fst (SCRIPT_ACQUIRE_WRITE_LOCK call ks [token, raw] s) = Inr (if \<exists>k\<in>set ks. bad k then 0 else 1)"
    "view (snd (SCRIPT_ACQUIRE_WRITE_LOCK call ks [token, raw] s)) =
      (if \<exists>k\<in>set ks. bad k
       then update_at (set (upto_first bad ks)) (purge_entry (now s)) (view s)
       else update_at (set ks) (claim_write (''w:'' @ token) (now s + ttl) \<circ> purge_entry (now s)) (view s))"
    using check add_writer_loop [of ks "snd (for_keys ks ?check s')" raw ttl ?m] args kinds
    by (simp_all add: SCRIPT_ACQUIRE_WRITE_LOCK_def s'(3) Let_def upto_first_all)
qed

lemma renew_read_run:
  fixes ks :: "redis_key list" and token raw :: string and ttl :: int
  assumes args: "rw_args (now s) raw ttl" and kinds: "\<forall>k\<in>set ks. is_zset (view s k)"
  defines "bad \<equiv> \<lambda>k. \<not> reads_now (now s) (''r:'' @ token) (view s k)"
  shows "fst (SCRIPT_RENEW_READ_LOCK call ks [token, raw] s) = Inr (if \<exists>k\<in>set ks. bad k then 0 else 1)"
    and "view (snd (SCRIPT_RENEW_READ_LOCK call ks [token, raw] s)) =
      (if \<exists>k\<in>set ks. bad k
       then update_at (set (upto_first bad ks)) (purge_entry (now s)) (view s)
       else update_at (set ks) (claim_read (''r:'' @ token) (now s + ttl) \<circ> purge_entry (now s)) (view s))"
proof -
  let ?n = "now s" and ?m = "''r:'' @ token"
  let ?check = "\<lambda>k. lua_then (redis_call call (Zremrangebyscore k (- ?n) ?n))
            (lua_bind (redis_call call (Zscore k (?m))) (\<lambda>score.
              (case score of
                 BulkReply str \<Rightarrow>
                   (case lua_tonumber str of
                      None \<Rightarrow> lua_stop (Raise ''attempt to compare nil with number'')
                    | Some sc \<Rightarrow> if sc \<le> ?n then lua_stop (Return 0) else lua_pure ())
               | _ \<Rightarrow> lua_stop (Return 0))))"
  obtain s' where s': "view s' = view s" "now s' = ?n"
    "\<And>body. rw_script_with_preflight call ks [token, raw] body s =
      eval_script (body raw ttl ?n (?n + ttl)) s'"
    by (rule rw_preflight_ok [OF lua_index_two(3) args kinds]) blast
  have check: "fst (for_keys ks ?check s') = (if \<exists>k\<in>set ks. bad k then Inl (Return 0) else Inr ()) \<and>
    view (snd (for_keys ks ?check s')) = update_at (set (upto_first bad ks)) (purge_entry ?n) (view s) \<and>
    now (snd (for_keys ks ?check s')) = ?n"
    using purge_check [where n = ?n and s = s' and ks = ks and f = ?check
        and bad = "\<lambda>x. \<not> reads_now ?n ?m x"] renew_read_step args kinds s'(1,2)
    by (simp add: rw_args_def bad_def)
  show "fst (SCRIPT_RENEW_READ_LOCK call ks [token, raw] s) = Inr (if \<exists>k\<in>set ks. bad k then 0 else 1)"
    "view (snd (SCRIPT_RENEW_READ_LOCK call ks [token, raw] s)) =
      (if \<exists>k\<in>set ks. bad k
       then update_at (set (upto_first bad ks)) (purge_entry (now s)) (view s)
       else update_at (set ks) (claim_read (''r:'' @ token) (now s + ttl) \<circ> purge_entry (now s)) (view s))"
    using check add_reader_loop [of ks "snd (for_keys ks ?check s')" raw ttl ?m] args kinds
    by (simp_all add: SCRIPT_RENEW_READ_LOCK_def s'(3) Let_def upto_first_all)
qed

lemma renew_write_run:
  fixes ks :: "redis_key list" and token raw :: string and ttl :: int
  assumes args: "rw_args (now s) raw ttl" and kinds: "\<forall>k\<in>set ks. is_zset (view s k)"
  defines "bad \<equiv> \<lambda>k. \<not> writes_now (now s) (''w:'' @ token) (view s k)"
  shows "fst (SCRIPT_RENEW_WRITE_LOCK call ks [token, raw] s) = Inr (if \<exists>k\<in>set ks. bad k then 0 else 1)"
    and "view (snd (SCRIPT_RENEW_WRITE_LOCK call ks [token, raw] s)) =
      (if \<exists>k\<in>set ks. bad k
       then update_at (set (upto_first bad ks)) (purge_entry (now s)) (view s)
       else update_at (set ks) (claim_write (''w:'' @ token) (now s + ttl) \<circ> purge_entry (now s)) (view s))"
proof -
  let ?n = "now s" and ?m = "''w:'' @ token"
  let ?check = "\<lambda>k. lua_then (redis_call call (Zremrangebyscore k (- ?n) ?n))
            (lua_bind (redis_call call (Zscore k (?m))) (\<lambda>score.
              (case score of
                 BulkReply str \<Rightarrow>
                   (case lua_tonumber str of
                      None \<Rightarrow> lua_stop (Raise ''attempt to compare nil with number'')
                    | Some sc \<Rightarrow> if - ?n \<le> sc then lua_stop (Return 0) else lua_pure ())
               | _ \<Rightarrow> lua_stop (Return 0))))"
  obtain s' where s': "view s' = view s" "now s' = ?n"
    "\<And>body. rw_script_with_preflight call ks [token, raw] body s =
      eval_script (body raw ttl ?n (?n + ttl)) s'"
    by (rule rw_preflight_ok [OF lua_index_two(3) args kinds]) blast
  have check: "fst (for_keys ks ?check s') = (if \<exists>k\<in>set ks. bad k then Inl (Return 0) else Inr ()) \<and>
    view (snd (for_keys ks ?check s')) = update_at (set (upto_first bad ks)) (purge_entry ?n) (view s) \<and>
    now (snd (for_keys ks ?check s')) = ?n"
    using purge_check [where n = ?n and s = s' and ks = ks and f = ?check
        and bad = "\<lambda>x. \<not> writes_now ?n ?m x"] renew_write_step args kinds s'(1,2)
    by (simp add: rw_args_def bad_def)
  show "fst (SCRIPT_RENEW_WRITE_LOCK call ks [token, raw] s) = Inr (if \<exists>k\<in>set ks. bad k then 0 else 1)"
    "view (snd (SCRIPT_RENEW_WRITE_LOCK call ks [token, raw] s)) =
      (if \<exists>k\<in>set ks. bad k
       then update_at (set (upto_first bad ks)) (purge_entry (now s)) (view s)
       else update_at (set ks) (claim_write (''w:'' @ token) (now s + ttl) \<circ> purge_entry (now s)) (view s))"
    using check add_writer_loop [of ks "snd (for_keys ks ?check s')" raw ttl ?m] args kinds
    by (simp_all add: SCRIPT_RENEW_WRITE_LOCK_def s'(3) Let_def upto_first_all)
qed

text \<open>
  The release scripts take the member out of every key that holds it, and return 1 only if every
  position of \<open>KEYS\<close> counted: with a repeated key they return 0.
\<close>

lemma drop_member_loop:
  fixes member :: string
  defines "f \<equiv> \<lambda>k. lua_bind (redis_call call (Type_of k)) (\<lambda>r.
              if status_ok r = Some ''zset''
              then lua_bind (redis_call call (Zrem k member)) lua_number
              else lua_pure 0)"
  shows "fst (for_count ks f 0 s) = Inr (int (card {k \<in> set ks. members_of (view s k) member \<noteq> None})) \<and>
    view (snd (for_count ks f 0 s)) = update_at (set ks) (drop_member member) (view s)"
proof -
  have step: "fst (f k t) = Inr (if members_of (view t k) member \<noteq> None then 1 else 0) \<and>
      view (snd (f k t)) = (view t)(k := drop_member member (view t k)) \<and> now (snd (f k t)) = now t"
    for k t
  proof (cases "view t k" rule: zset_of.cases)
    case 1
    then show ?thesis
      by (auto simp: f_def call_type status_ok_def drop_member_def put_zset_def fun_eq_iff)
  next
    case (2 z e)
    then show ?thesis
      using call_zrem [of "snd (call (Type_of k) t)" k z member]
      by (simp add: f_def call_type status_ok_def drop_member_def)
  next
    case (3 v e)
    then show ?thesis
      by (auto simp: f_def call_type status_ok_def drop_member_def fun_eq_iff)
  next
    case (4 ty e)
    then show ?thesis
      using view_other [of t k ty e]
      by (auto simp: f_def call_type status_ok_def drop_member_def is_zset_def members_of_def)
  qed
  then have "fst (for_count ks f 0 s) =
      Inr (0 + int (card {k \<in> set ks. members_of (view s k) member \<noteq> None})) \<and>
    view (snd (for_count ks f 0 s)) = update_at (set ks) (drop_member member) (view s) \<and>
    now (snd (for_count ks f 0 s)) = now s"
    by (rule for_count_update) simp
  then show ?thesis by simp
qed

lemma release_read_run:
  "fst (SCRIPT_RELEASE_READ_LOCK call ks [token] s) =
     Inr (if card {k \<in> set ks. members_of (view s k) (''r:'' @ token) \<noteq> None} = length ks then 1 else 0)"
  "view (snd (SCRIPT_RELEASE_READ_LOCK call ks [token] s)) =
     update_at (set ks) (drop_member (''r:'' @ token)) (view s)"
  using drop_member_loop [of ks "''r:'' @ token" s]
  by (simp_all add: SCRIPT_RELEASE_READ_LOCK_def Let_def del: append.simps)

lemma release_write_run:
  "fst (SCRIPT_RELEASE_WRITE_LOCK call ks [token] s) =
     Inr (if card {k \<in> set ks. members_of (view s k) (''w:'' @ token) \<noteq> None} = length ks then 1 else 0)"
  "view (snd (SCRIPT_RELEASE_WRITE_LOCK call ks [token] s)) =
     update_at (set ks) (drop_member (''w:'' @ token)) (view s)"
  using drop_member_loop [of ks "''w:'' @ token" s]
  by (simp_all add: SCRIPT_RELEASE_WRITE_LOCK_def Let_def del: append.simps)

text \<open>Arguments or keys that the preflight rejects give an error, and nothing a client observes changes.\<close>

lemma rw_script_bad:
  assumes "\<not> (\<exists>raw ttl. lua_index ARGV 2 = Some raw \<and> rw_args (now s) raw ttl) \<or>
    (\<exists>k\<in>set ks. \<not> is_zset (view s k))"
    and "script \<in> {SCRIPT_ACQUIRE_READ_LOCK, SCRIPT_RENEW_READ_LOCK,
                    SCRIPT_ACQUIRE_WRITE_LOCK, SCRIPT_RENEW_WRITE_LOCK}"
  shows "(\<exists>msg. fst (script call ks ARGV s) = Inl msg) \<and> view (snd (script call ks ARGV s)) = view s"
  using assms(2) rw_preflight_bad [OF assms(1)]
  by (elim insertE emptyE)
    (simp_all add: SCRIPT_ACQUIRE_READ_LOCK_def SCRIPT_RENEW_READ_LOCK_def
      SCRIPT_ACQUIRE_WRITE_LOCK_def SCRIPT_RENEW_WRITE_LOCK_def)

lemma mutex_script_bad:
  assumes "\<not> (\<exists>raw ttl. lua_index ARGV 2 = Some raw \<and> valid_ttl raw ttl)"
    and "script \<in> {SCRIPT_ACQUIRE_LOCK, SCRIPT_RENEW_LOCK}"
  shows "(\<exists>msg. fst (script call ks ARGV s) = Inl msg) \<and> snd (script call ks ARGV s) = s"
proof -
  obtain msg where "TTL_PREFLIGHT ARGV s = (Inl (Raise msg), s)"
    using TTL_PREFLIGHT_fails [of ARGV s] assms(1) by blast
  then show ?thesis
    using assms(2)
    by (auto simp: SCRIPT_ACQUIRE_LOCK_def SCRIPT_RENEW_LOCK_def script_with_ttl_preflight_def)
qed

end

end
