(* ===== verification/Pool.thy ===== *)
theory Pool
  imports Prelude
begin

text \<open>
  The connection pool of \<open>src/sync_lock/pool.rs\<close>. The redis client and its connections are code
  of another crate, so they are a parameter: a record of the functions the pool calls, over a
  state \<open>'s\<close> of the server and the network. The idle connections are a list whose last element is
  the top of the \<open>Vec\<close>. Dropping a connection is not returning it to the list. \<open>with_connection\<close> is a call that
  no other thread interrupts; the last section lets the checkouts and checkins of many threads interleave.
\<close>

subsection \<open>Options\<close>

record pool_options =
  po_max_idle_connections :: nat
  po_connection_timeout :: "duration option"
  po_response_timeout :: "duration option"

definition DEFAULT_MAX_IDLE_CONNECTIONS :: nat where
  "DEFAULT_MAX_IDLE_CONNECTIONS = 8"

definition DEFAULT_CONNECTION_TIMEOUT :: "duration option" where
  "DEFAULT_CONNECTION_TIMEOUT = None"

definition DEFAULT_RESPONSE_TIMEOUT :: "duration option" where
  "DEFAULT_RESPONSE_TIMEOUT = None"

definition pool_options_new :: pool_options where
  "pool_options_new =
     \<lparr>po_max_idle_connections = DEFAULT_MAX_IDLE_CONNECTIONS,
      po_connection_timeout = DEFAULT_CONNECTION_TIMEOUT,
      po_response_timeout = DEFAULT_RESPONSE_TIMEOUT\<rparr>"

definition pool_options_default :: pool_options where
  "pool_options_default = pool_options_new"

definition max_idle_connections :: "nat \<Rightarrow> pool_options \<Rightarrow> pool_options" where
  "max_idle_connections n opts = opts\<lparr>po_max_idle_connections := n\<rparr>"

definition connection_timeout :: "duration option \<Rightarrow> pool_options \<Rightarrow> pool_options" where
  "connection_timeout d opts = opts\<lparr>po_connection_timeout := d\<rparr>"

definition response_timeout :: "duration option \<Rightarrow> pool_options \<Rightarrow> pool_options" where
  "response_timeout d opts = opts\<lparr>po_response_timeout := d\<rparr>"

subsection \<open>The client\<close>

text \<open>
  \<open>cl_deliver\<close> says what becomes of a command sent on a connection: it is executed and its reply
  arrives, it is not executed, or it is executed and the reply is lost. Both failures look the
  same to the caller, who gets a \<open>RedisError\<close>.
\<close>

datatype delivery = Delivered | Not_Executed string | Reply_Lost string

record ('c, 's) client =
  cl_get_connection :: "'s \<Rightarrow> (string, 'c) result \<times> 's"
  cl_get_connection_with_timeout :: "duration \<Rightarrow> 's \<Rightarrow> (string, 'c) result \<times> 's"
  cl_set_read_timeout :: "'c \<Rightarrow> duration option \<Rightarrow> 's \<Rightarrow> (string, unit) result \<times> 's"
  cl_set_write_timeout :: "'c \<Rightarrow> duration option \<Rightarrow> 's \<Rightarrow> (string, unit) result \<times> 's"
  cl_is_open :: "'c \<Rightarrow> 's \<Rightarrow> bool"
  cl_deliver :: "'c \<Rightarrow> 's \<Rightarrow> delivery"

fun exchange :: "delivery \<Rightarrow> ('s \<Rightarrow> (string, 'a) result \<times> 's) \<Rightarrow> 's \<Rightarrow> (string, 'a) result \<times> 's" where
  "exchange Delivered f s = f s"
| "exchange (Not_Executed e) f s = (Inl e, s)"
| "exchange (Reply_Lost e) f s = (Inl e, snd (f s))"

definition query :: "('c, 's) client \<Rightarrow> 'c \<Rightarrow> ('s \<Rightarrow> (string, 'a) result \<times> 's) \<Rightarrow>
    's \<Rightarrow> (string, 'a) result \<times> 's" where
  "query client conn f s = exchange (cl_deliver client conn s) f s"

subsection \<open>The pool\<close>

record 'c pool =
  p_idle :: "'c list"
  p_options :: pool_options

definition pool_new :: "pool_options \<Rightarrow> 'c pool" where
  "pool_new opts = \<lparr>p_idle = [], p_options = opts\<rparr>"

text \<open>The \<open>?\<close> operator on a computation.\<close>

definition try_then ::
    "(('e, 'a) result \<times> 's) \<Rightarrow> ('a \<Rightarrow> 's \<Rightarrow> ('e, 'b) result \<times> 's) \<Rightarrow> ('e, 'b) result \<times> 's" where
  "try_then r f = (case r of (Inl e, s) \<Rightarrow> (Inl e, s) | (Inr a, s) \<Rightarrow> f a s)"

definition pool_connect :: "('c, 's) client \<Rightarrow> pool_options \<Rightarrow> 's \<Rightarrow> (string, 'c) result \<times> 's" where
  "pool_connect client opts s =
     try_then
       (case po_connection_timeout opts of
          Some timeout \<Rightarrow> cl_get_connection_with_timeout client timeout s
        | None \<Rightarrow> cl_get_connection client s)
       (\<lambda>conn s.
          (case po_response_timeout opts of
             None \<Rightarrow> (Inr conn, s)
           | Some timeout \<Rightarrow>
               try_then (cl_set_read_timeout client conn (Some timeout) s) (\<lambda>_ s.
               try_then (cl_set_write_timeout client conn (Some timeout) s) (\<lambda>_ s.
               (Inr conn, s)))))"

text \<open>The operations on the pool pass the idle list and the outer state along.\<close>

definition pool_checkout ::
    "('c, 's) client \<Rightarrow> 'c pool \<times> 's \<Rightarrow> (string, 'c) result \<times> 'c pool \<times> 's" where
  "pool_checkout client ps =
     (case ps of (p, s) \<Rightarrow>
       if p_idle p = []
       then (case pool_connect client (p_options p) s of (r, s') \<Rightarrow> (r, p, s'))
       else (Inr (last (p_idle p)), p\<lparr>p_idle := butlast (p_idle p)\<rparr>, s))"

definition pool_checkin :: "('c, 's) client \<Rightarrow> 'c \<Rightarrow> 'c pool \<times> 's \<Rightarrow> 'c pool \<times> 's" where
  "pool_checkin client conn ps =
     (case ps of (p, s) \<Rightarrow>
       if \<not> cl_is_open client conn s then (p, s)
       else if length (p_idle p) < po_max_idle_connections (p_options p)
       then (p\<lparr>p_idle := p_idle p @ [conn]\<rparr>, s)
       else (p, s))"

text \<open>
  \<open>PooledConnection::run\<close>, with the drop of the handle at its end: after an error the connection
  is taken out of the handle, and the drop returns nothing to the pool.
\<close>

definition pooled_drop :: "('c, 's) client \<Rightarrow> 'c option \<Rightarrow> 'c pool \<times> 's \<Rightarrow> 'c pool \<times> 's" where
  "pooled_drop client conn ps =
     (case conn of None \<Rightarrow> ps | Some c \<Rightarrow> pool_checkin client c ps)"

definition pooled_run :: "('c, 's) client \<Rightarrow> 'c \<Rightarrow> ('c \<Rightarrow> 's \<Rightarrow> (string, 'a) result \<times> 's) \<Rightarrow>
    'c pool \<times> 's \<Rightarrow> (string, 'a) result \<times> 'c pool \<times> 's" where
  "pooled_run client conn f ps =
     (case ps of (p, s) \<Rightarrow>
      (case f conn s of (r, s') \<Rightarrow>
        (r, pooled_drop client (case r of Inl e \<Rightarrow> None | Inr a \<Rightarrow> Some conn) (p, s'))))"

definition with_connection :: "('c, 's) client \<Rightarrow> ('c \<Rightarrow> 's \<Rightarrow> (string, 'a) result \<times> 's) \<Rightarrow>
    'c pool \<times> 's \<Rightarrow> (string, 'a) result \<times> 'c pool \<times> 's" where
  "with_connection client f ps =
     try_then (pool_checkout client ps) (\<lambda>conn. pooled_run client conn f)"

lemmas [pool_simps] =
  pool_checkout_def pool_checkin_def pooled_drop_def pooled_run_def with_connection_def try_then_def

subsection \<open>Facts\<close>

text \<open>The pool never holds more idle connections than its options allow.\<close>

definition pool_ok :: "'c pool \<Rightarrow> bool" where
  "pool_ok p \<longleftrightarrow> length (p_idle p) \<le> po_max_idle_connections (p_options p)"

lemma pool_new_ok: "pool_ok (pool_new opts)"
  by (simp add: pool_ok_def pool_new_def)

lemma pool_checkin_ok: "pool_ok p \<Longrightarrow> pool_ok (fst (pool_checkin client conn (p, s)))"
  by (auto simp: pool_ok_def pool_simps)

lemma pooled_drop_ok: "pool_ok p \<Longrightarrow> pool_ok (fst (pooled_drop client c (p, s)))"
  by (auto simp: pooled_drop_def pool_checkin_ok split: option.splits)

lemma pooled_run_ok: "pool_ok p \<Longrightarrow> pool_ok (fst (snd (pooled_run client conn f (p, s))))"
  by (auto simp: pooled_run_def pooled_drop_ok split: prod.splits)

lemma pool_checkout_ok: "pool_ok p \<Longrightarrow> pool_ok (fst (snd (pool_checkout client (p, s))))"
  by (auto simp: pool_ok_def pool_checkout_def split: prod.splits)

lemma with_connection_ok:
  assumes "pool_ok p"
  shows "pool_ok (fst (snd (with_connection client f (p, s))))"
proof (cases "pool_checkout client (p, s)")
  case (fields r p' s')
  then have "pool_ok p'" using pool_checkout_ok [OF assms, of client s] by simp
  with fields show ?thesis
    by (cases r) (simp_all add: with_connection_def try_then_def pooled_run_ok)
qed

lemma pool_checkin_options [simp]: "p_options (fst (pool_checkin client conn ps)) = p_options (fst ps)"
  by (simp add: pool_checkin_def split: prod.splits)

lemma snd_pool_checkin [simp]: "snd (pool_checkin client conn ps) = snd ps"
  by (simp add: pool_checkin_def split: prod.splits)

lemma snd_pooled_drop [simp]: "snd (pooled_drop client conn ps) = snd ps"
  by (simp add: pooled_drop_def split: option.splits)

lemma pooled_run_result: "fst (pooled_run client conn f (p, s)) = fst (f conn s)"
  "snd (snd (pooled_run client conn f (p, s))) = snd (f conn s)"
  by (simp_all add: pooled_run_def split: prod.splits)

text \<open>A connection on which an operation failed is not returned.\<close>

lemma pooled_run_error:
  "fst (f conn s) = Inl e \<Longrightarrow> fst (snd (pooled_run client conn f (p, s))) = p"
  by (auto simp: pooled_run_def pooled_drop_def split: prod.splits)

lemma with_connection_error:
  assumes "fst (with_connection client f (p, s)) = Inl e"
  shows "p_idle (fst (snd (with_connection client f (p, s)))) = butlast (p_idle p)"
proof (cases "p_idle p = []")
  case True
  obtain r s' where c: "pool_connect client (p_options p) s = (r, s')" by fastforce
  with True assms show ?thesis
    by (cases r) (auto simp: with_connection_def try_then_def pool_checkout_def pooled_run_result pooled_run_error)
next
  case False
  with assms show ?thesis
    by (auto simp: with_connection_def try_then_def pool_checkout_def pooled_run_result pooled_run_error)
qed

text \<open>A successful operation on an idle connection returns it to where it was.\<close>

lemma with_connection_success:
  assumes "p_idle p \<noteq> []" and "pool_ok p" and "fst (f (last (p_idle p)) s) = Inr a"
    and "cl_is_open client (last (p_idle p)) (snd (f (last (p_idle p)) s))"
  shows "with_connection client f (p, s) = (Inr a, p, snd (f (last (p_idle p)) s))"
proof -
  have "length (butlast (p_idle p)) < po_max_idle_connections (p_options p)"
    using assms(1,2) by (cases "p_idle p" rule: rev_cases) (auto simp: pool_ok_def)
  with assms show ?thesis
    by (auto simp: pool_simps split: prod.splits)
qed

subsection \<open>Concurrent use\<close>

text \<open>
  Many threads share the pool, and the mutex of the idle list makes every checkout and every checkin one step.
  Between them a thread \<open>t\<close> owns its connection (\<open>pu_used\<close>) and uses it, while the others go on. The ghost sets
  collect the connections that were ever made, and those whose command failed.
\<close>

record ('t, 'c) pool_use =
  pu_pool :: "'c pool"
  pu_used :: "'t \<Rightarrow> 'c option"
  pu_made :: "'c set"
  pu_failed :: "'c set"

inductive pool_step :: "('c, 's) client \<Rightarrow> ('t, 'c) pool_use \<Rightarrow> ('t, 'c) pool_use \<Rightarrow> bool" for client where
  pool_out: "pu_used u t = None \<Longrightarrow> pool_checkout client (pu_pool u, s) = (Inr c, p, s') \<Longrightarrow>
    p_idle (pu_pool u) = [] \<longrightarrow> c \<notin> pu_made u \<Longrightarrow>
    pool_step client u (u\<lparr>pu_pool := p, pu_used := (pu_used u)(t := Some c), pu_made := insert c (pu_made u)\<rparr>)"
| pool_in: "pu_used u t = Some c \<Longrightarrow> pooled_drop client (Some c) (pu_pool u, s) = (p, s') \<Longrightarrow>
    pool_step client u (u\<lparr>pu_pool := p, pu_used := (pu_used u)(t := None)\<rparr>)"
| pool_fail: "pu_used u t = Some c \<Longrightarrow> pooled_drop client None (pu_pool u, s) = (p, s') \<Longrightarrow>
    pool_step client u (u\<lparr>pu_pool := p, pu_used := (pu_used u)(t := None), pu_failed := insert c (pu_failed u)\<rparr>)"

text \<open>A connection is in one place at a time, and nowhere after its command failed.\<close>

definition one_owner :: "('t \<Rightarrow> 'c option) \<Rightarrow> bool" where
  "one_owner f \<longleftrightarrow> (\<forall>t t' c. f t = Some c \<and> f t' = Some c \<longrightarrow> t = t')"

definition pool_use_ok :: "('t, 'c) pool_use \<Rightarrow> bool" where
  "pool_use_ok u \<longleftrightarrow>
     pool_ok (pu_pool u) \<and> distinct (p_idle (pu_pool u)) \<and> set (p_idle (pu_pool u)) \<subseteq> pu_made u \<and>
     ran (pu_used u) \<subseteq> pu_made u \<and> pu_failed u \<subseteq> pu_made u \<and>
     set (p_idle (pu_pool u)) \<inter> ran (pu_used u) = {} \<and> one_owner (pu_used u) \<and>
     pu_failed u \<inter> (set (p_idle (pu_pool u)) \<union> ran (pu_used u)) = {}"

lemma pool_checkout_idle:
  assumes "pool_checkout client (p, s) = (Inr c, p', s')"
  shows "p_idle p = [] \<and> p' = p \<or> p_idle p = p_idle p' @ [c] \<and> p_options p' = p_options p"
  using assms by (auto simp: pool_checkout_def split: if_splits prod.splits)

lemma pool_checkin_idle:
  "pool_checkin client c (p, s) = (p', s') \<Longrightarrow> p' = p \<or> p' = p\<lparr>p_idle := p_idle p @ [c]\<rparr>"
  by (auto simp: pool_checkin_def split: if_splits)

lemma one_owner_unused:
  assumes "one_owner f" and "f t = Some c"
  shows "one_owner (f(t := None))" and "ran (f(t := None)) = ran f - {c}"
proof -
  have upd: "((f(t := None)) a = Some x) = (a \<noteq> t \<and> f a = Some x)" for a x by simp
  show "one_owner (f(t := None))"
    using assms(1) unfolding one_owner_def upd by blast
  have only: "a = t" if "f a = Some c" for a
    using assms that unfolding one_owner_def by blast
  show "ran (f(t := None)) = ran f - {c}"
  proof (rule set_eqI)
    fix x
    have "(\<exists>a. a \<noteq> t \<and> f a = Some x) \<longleftrightarrow> (\<exists>a. f a = Some x) \<and> x \<noteq> c"
      using assms(2) only by (metis option.inject)
    then show "x \<in> ran (f(t := None)) \<longleftrightarrow> x \<in> ran f - {c}"
      unfolding ran_def mem_Collect_eq upd by simp
  qed
qed

lemma one_owner_used: "one_owner f \<Longrightarrow> c \<notin> ran f \<Longrightarrow> one_owner (f(t := Some c))"
  by (auto simp: one_owner_def ran_def split: if_splits)

lemma pool_step_ok:
  assumes "pool_step client u u'" and "pool_use_ok u"
  shows "pool_use_ok u'"
  using assms(1)
proof cases
  case (pool_out t s c p s')
  have "pool_ok p" using pool_checkout_ok [of "pu_pool u" client s] pool_out assms(2) by (simp add: pool_use_ok_def)
  moreover have "c \<notin> ran (pu_used u) \<and> c \<notin> set (p_idle p) \<and> c \<notin> pu_failed u"
    using pool_checkout_idle [OF pool_out(3)] pool_out(4) assms(2) by (auto simp: pool_use_ok_def)
  ultimately show ?thesis
    using pool_checkout_idle [OF pool_out(3)] pool_out(1,2) assms(2)
    by (auto simp: pool_use_ok_def ran_map_upd one_owner_used simp del: fun_upd_apply)
next
  case (pool_in t c s p s')
  then have checkin: "pool_checkin client c (pu_pool u, s) = (p, s')" by (simp add: pooled_drop_def)
  have "pool_ok p" using pool_checkin_ok [of "pu_pool u" client c s] checkin assms(2) by (simp add: pool_use_ok_def)
  moreover have "c \<in> ran (pu_used u)" using pool_in(2) by (rule ranI)
  ultimately show ?thesis
    using pool_checkin_idle [OF checkin] pool_in(1,2) assms(2) one_owner_unused [of "pu_used u" t c]
    by (auto simp: pool_use_ok_def simp del: fun_upd_apply)
next
  case (pool_fail t c s p s')
  then have "p = pu_pool u" by (simp add: pooled_drop_def)
  moreover have "c \<in> ran (pu_used u)" using pool_fail(2) by (rule ranI)
  ultimately show ?thesis
    using pool_fail(1,2) assms(2) one_owner_unused [of "pu_used u" t c]
    by (auto simp: pool_use_ok_def simp del: fun_upd_apply)
qed

text \<open>So no two threads ever share a connection, on any interleaving, and a failed one is used by nobody again.\<close>

lemma pool_use_safe:
  assumes "(pool_step client)\<^sup>*\<^sup>* \<lparr>pu_pool = pool_new opts, pu_used = Map.empty, pu_made = {}, pu_failed = {}\<rparr> u"
  shows "pool_ok (pu_pool u)"
    and "pu_used u t = Some c \<Longrightarrow> pu_used u t' = Some c \<Longrightarrow> t = t'"
    and "c \<in> pu_failed u \<Longrightarrow> c \<notin> set (p_idle (pu_pool u)) \<and> pu_used u t \<noteq> Some c"
proof -
  have ok: "pool_use_ok u"
    using assms
  proof (induction rule: rtranclp_induct)
    case base
    show ?case using pool_new_ok [of opts] by (simp add: pool_use_ok_def pool_new_def one_owner_def)
  qed (rule pool_step_ok)
  then show "pool_ok (pu_pool u)" by (simp add: pool_use_ok_def)
  show "t = t'" if "pu_used u t = Some c" "pu_used u t' = Some c"
    using ok that unfolding pool_use_ok_def one_owner_def by blast
  show "c \<notin> set (p_idle (pu_pool u)) \<and> pu_used u t \<noteq> Some c" if "c \<in> pu_failed u"
    using ok that by (auto simp: pool_use_ok_def intro: ranI)
qed

subsection \<open>Properties\<close>

text \<open>
  C36: The pool stays bounded and never reuses a connection whose command failed. Every call keeps
  the number of idle connections within the limit; when it returns an error, whatever the error,
  the only change is that the connection on top, if there was one, is gone; and a success on an
  idle connection that stays open leaves the pool as it was.
\<close>

theorem with_connection_correct:
  assumes "pool_ok p"
  shows "pool_ok (fst (snd (with_connection client f (p, s)))) \<and>
    (\<forall>e. fst (with_connection client f (p, s)) = Inl e \<longrightarrow>
       p_idle (fst (snd (with_connection client f (p, s)))) = butlast (p_idle p)) \<and>
    (\<forall>a. p_idle p \<noteq> [] \<and> fst (f (last (p_idle p)) s) = Inr a \<and>
       cl_is_open client (last (p_idle p)) (snd (f (last (p_idle p)) s)) \<longrightarrow>
       with_connection client f (p, s) = (Inr a, p, snd (f (last (p_idle p)) s)))"
  by (intro conjI allI impI with_connection_ok [OF assms] with_connection_error
      with_connection_success [OF _ assms]) simp_all

definition example_client :: "(nat, nat) client" where
  "example_client =
     \<lparr>cl_get_connection = (\<lambda>s. (Inr s, Suc s)),
      cl_get_connection_with_timeout = (\<lambda>d s. (Inr s, Suc s)),
      cl_set_read_timeout = (\<lambda>c d s. (Inr (), s)), cl_set_write_timeout = (\<lambda>c d s. (Inr (), s)),
      cl_is_open = (\<lambda>c s. True), cl_deliver = (\<lambda>c s. Delivered)\<rparr>"

theorem with_connection_correct_witness:
  "pool_ok (fst (snd (with_connection example_client (\<lambda>c s. (Inl ''timeout'' :: (string, bool) result, s))
     (\<lparr>p_idle = [1, 2 :: nat], p_options = pool_options_new\<rparr>, 3)))) \<and>
   p_idle (fst (snd (with_connection example_client (\<lambda>c s. (Inl ''timeout'' :: (string, bool) result, s))
     (\<lparr>p_idle = [1, 2 :: nat], p_options = pool_options_new\<rparr>, 3)))) = [1]"
proof -
  let ?p = "\<lparr>p_idle = [1, 2 :: nat], p_options = pool_options_new\<rparr>" and
    ?f = "\<lambda>c s. (Inl ''timeout'' :: (string, bool) result, s)"
  have "pool_ok ?p"
    by (simp add: pool_ok_def pool_options_new_def DEFAULT_MAX_IDLE_CONNECTIONS_def)
  moreover have "fst (with_connection example_client ?f (?p, 3)) = Inl ''timeout''"
    by (simp add: pool_simps)
  ultimately show ?thesis
    using with_connection_correct [of ?p example_client ?f 3] by simp
qed

end
