(* ===== verification/Operations.thy ===== *)
theory Operations
  imports Lock_Request RW_Script_Facts Pool
begin

text \<open>
  The three commands of a lock, \<open>src/sync_lock/operations.rs\<close> and \<open>src/async_lock/operations.rs\<close>:
  what is sent to the server for a request, and the same over a connection that may fail. A single
  mutex is acquired with \<open>SET NX PX\<close>; every other command is a script with the arguments
  \<open>uuid\<close> and, except for a release, the TTL in milliseconds.
\<close>

subsection \<open>What is sent\<close>

text \<open>
  The redis client turns an integer reply into a \<open>bool\<close>, and a nil reply into the \<open>None\<close> of an
  \<open>Option\<close>.
\<close>

fun bool_reply :: "(string, int) result \<times> 's \<Rightarrow> (string, bool) result \<times> 's" where
  "bool_reply (Inl e, s) = (Inl e, s)"
| "bool_reply (Inr n, s) = (Inr (n \<noteq> 0), s)"

fun is_some_reply :: "reply \<Rightarrow> (string, bool) result" where
  "is_some_reply (ErrorReply e) = Inl e"
| "is_some_reply NilReply = Inr False"
| "is_some_reply r = Inr True"

definition ttl_arg :: "duration \<Rightarrow> string" where
  "ttl_arg ttl = show_nat (as_millis ttl)"

fun send_acquire :: "'s redis_call \<Rightarrow> lock_target \<Rightarrow> uuid \<Rightarrow> duration \<Rightarrow>
    's \<Rightarrow> (string, bool) result \<times> 's" where
  "send_acquire call (Single key) uuid ttl s =
     (case call (Set_NX_PX key uuid (ttl_arg ttl)) s of (r, s') \<Rightarrow> (is_some_reply r, s'))"
| "send_acquire call target uuid ttl s =
     bool_reply (acquire_script target call (target_keys target) [uuid, ttl_arg ttl] s)"

definition send_renew :: "'s redis_call \<Rightarrow> lock_target \<Rightarrow> uuid \<Rightarrow> duration \<Rightarrow>
    's \<Rightarrow> (string, bool) result \<times> 's" where
  "send_renew call target uuid ttl s =
     bool_reply (renew_script target call (target_keys target) [uuid, ttl_arg ttl] s)"

definition send_release :: "'s redis_call \<Rightarrow> lock_target \<Rightarrow> uuid \<Rightarrow>
    's \<Rightarrow> (string, bool) result \<times> 's" where
  "send_release call target uuid s =
     bool_reply (release_script target call (target_keys target) [uuid] s)"

subsection \<open>The sync operations\<close>

definition acquire_lock :: "('c, 's) client \<Rightarrow> 's redis_call \<Rightarrow> 'c \<Rightarrow> lock_request \<Rightarrow> duration \<Rightarrow>
    'c pool \<times> 's \<Rightarrow> (string, bool) result \<times> 'c pool \<times> 's" where
  "acquire_lock client call conn request ttl =
     pooled_run client conn (\<lambda>conn.
       query client conn (send_acquire call (lr_target request) (lr_uuid request) ttl))"

definition renew_lock :: "('c, 's) client \<Rightarrow> 's redis_call \<Rightarrow> lock_request \<Rightarrow> duration \<Rightarrow>
    'c pool \<times> 's \<Rightarrow> (string, bool) result \<times> 'c pool \<times> 's" where
  "renew_lock client call request ttl =
     with_connection client (\<lambda>conn.
       query client conn (send_renew call (lr_target request) (lr_uuid request) ttl))"

definition release_lock :: "('c, 's) client \<Rightarrow> 's redis_call \<Rightarrow> lock_request \<Rightarrow>
    'c pool \<times> 's \<Rightarrow> (string, bool) result \<times> 'c pool \<times> 's" where
  "release_lock client call request =
     with_connection client (\<lambda>conn.
       query client conn (send_release call (lr_target request) (lr_uuid request)))"

subsection \<open>The async operations\<close>

text \<open>The async functions get a connection and do not use the pool.\<close>

definition async_acquire_lock :: "('c, 's) client \<Rightarrow> 's redis_call \<Rightarrow> 'c \<Rightarrow> lock_request \<Rightarrow> duration \<Rightarrow>
    's \<Rightarrow> (string, bool) result \<times> 's" where
  "async_acquire_lock client call conn request ttl =
     query client conn (send_acquire call (lr_target request) (lr_uuid request) ttl)"

definition async_renew_lock :: "('c, 's) client \<Rightarrow> 's redis_call \<Rightarrow> 'c \<Rightarrow> lock_request \<Rightarrow> duration \<Rightarrow>
    's \<Rightarrow> (string, bool) result \<times> 's" where
  "async_renew_lock client call conn request ttl =
     query client conn (send_renew call (lr_target request) (lr_uuid request) ttl)"

definition async_release_lock :: "('c, 's) client \<Rightarrow> 's redis_call \<Rightarrow> 'c \<Rightarrow> lock_request \<Rightarrow>
    's \<Rightarrow> (string, bool) result \<times> 's" where
  "async_release_lock client call conn request =
     query client conn (send_release call (lr_target request) (lr_uuid request))"

subsection \<open>Facts\<close>

lemma bool_reply_run [simp]:
  "snd (bool_reply r) = snd r"
  "fst r = Inl e \<Longrightarrow> fst (bool_reply r) = Inl e"
  "fst r = Inr n \<Longrightarrow> fst (bool_reply r) = Inr (n \<noteq> 0)"
  by (cases r rule: bool_reply.cases; simp)+

lemma exchange_cases:
  "exchange d f s = f s \<or> (\<exists>e. exchange d f s = (Inl e, s)) \<or> (\<exists>e. exchange d f s = (Inl e, snd (f s)))"
  by (cases d) auto

text \<open>
  An operation over a connection either has the reply of the server, or it failed and the server
  did or did not execute the command.
\<close>

lemma query_Inr: "query client conn f s = (Inr a, s') \<Longrightarrow> f s = (Inr a, s')"
  using exchange_cases [of "cl_deliver client conn s" f s] by (auto simp: query_def)

lemma query_state: "snd (query client conn f s) \<in> {s, snd (f s)}"
  using exchange_cases [of "cl_deliver client conn s" f s] by (auto simp: query_def)

lemma send_acquire_script:
  "target_mode target \<noteq> Mutex_Mode \<Longrightarrow>
     send_acquire call target uuid ttl s =
       bool_reply (acquire_script target call (target_keys target) [uuid, ttl_arg ttl] s)"
  by (cases target) simp_all

text \<open>A TTL in the range that \<open>build\<close> accepts passes the preflight of the scripts.\<close>

lemma ttl_arg_valid:
  "1 \<le> as_millis ttl \<Longrightarrow> int (as_millis ttl) \<le> max_exact \<Longrightarrow>
     valid_ttl (ttl_arg ttl) (int (as_millis ttl))"
  by (simp add: ttl_arg_def valid_ttl_show_nat)

context redis_server
begin

lemma send_acquire_single:
  assumes "valid_ttl (ttl_arg ttl) t" and "px_ok (now s) t"
  shows "fst (send_acquire call (Single k) u ttl s) = Inr (view s k = None)"
    and "view (snd (send_acquire call (Single k) u ttl s)) =
      (if view s k = None then (view s)(k := claim_mutex u (now s + t) None) else view s)"
  using assms call_set_nx_px [of "ttl_arg ttl" t s k u]
  by (cases "call (Set_NX_PX k u (ttl_arg ttl)) s"; auto simp: valid_ttl_def claim_mutex_def)+

text \<open>
  Acquiring a mutex: every key must be free, and then every key is taken. The script and
  \<open>SET NX PX\<close> do the same.
\<close>

lemma send_acquire_mutex:
  assumes "target_mode target = Mutex_Mode" and "valid_ttl (ttl_arg ttl) t" and "px_ok (now s) t"
  shows "fst (send_acquire call target u ttl s) = Inr (\<forall>k\<in>set (target_keys target). view s k = None)"
    and "view (snd (send_acquire call target u ttl s)) =
      (if \<forall>k\<in>set (target_keys target). view s k = None
       then update_at (set (target_keys target)) (claim_mutex u (now s + t)) (view s) else view s)"
proof -
  have "fst (send_acquire call target u ttl s) = Inr (\<forall>k\<in>set (target_keys target). view s k = None) \<and>
    view (snd (send_acquire call target u ttl s)) =
      (if \<forall>k\<in>set (target_keys target). view s k = None
       then update_at (set (target_keys target)) (claim_mutex u (now s + t)) (view s) else view s)"
  proof (cases target)
    case (Single k)
    then show ?thesis
      using send_acquire_single [OF assms(2,3), of k u]
      by (auto simp: update_at_def fun_eq_iff claim_mutex_def)
  next
    case (Multiple ks)
    then show ?thesis
      using mutex_acquire_free [OF assms(2,3), of ks u] mutex_acquire_busy [OF assms(2), of ks s u]
      by (cases "\<forall>k\<in>set ks. view s k = None") auto
  qed (use assms(1) in simp_all)
  then show "fst (send_acquire call target u ttl s) = Inr (\<forall>k\<in>set (target_keys target). view s k = None)"
    and "view (snd (send_acquire call target u ttl s)) =
      (if \<forall>k\<in>set (target_keys target). view s k = None
       then update_at (set (target_keys target)) (claim_mutex u (now s + t)) (view s) else view s)"
    by simp_all
qed

end

end
