(* ===== verification/Lock_Table.thy ===== *)
theory Lock_Table
  imports Operations
begin

text \<open>
  The lock table: what a key means to the library, independent of the commands. A key is free, held
  by one mutex owner, held by one writer, or held by readers, each holder with an expiry time. The
  theory states the three commands as operations on one entry of the table, shows that the commands
  implement them, and derives the invariant of the table and the rule that nobody but its owner and
  the clock takes a held lock away.
\<close>

subsection \<open>The operations on one entry\<close>

text \<open>What keeps a request from acquiring a key.\<close>

fun blocked :: "lock_mode \<Rightarrow> int \<Rightarrow> entry option \<Rightarrow> bool" where
  "blocked Mutex_Mode now x = (x \<noteq> None)"
| "blocked Read_Mode now x = has_writer now x"
| "blocked Write_Mode now x = has_holder now x"

text \<open>The member of a sorted set that stands for a holder.\<close>

fun member_of :: "lock_mode \<Rightarrow> uuid \<Rightarrow> string" where
  "member_of Mutex_Mode u = u"
| "member_of Read_Mode u = ''r:'' @ u"
| "member_of Write_Mode u = ''w:'' @ u"

text \<open>The expiry of expired members, which every check of a read-write key does first.\<close>

fun checked :: "lock_mode \<Rightarrow> int \<Rightarrow> entry option \<Rightarrow> entry option" where
  "checked Mutex_Mode now x = x"
| "checked Read_Mode now x = purge_entry now x"
| "checked Write_Mode now x = purge_entry now x"

fun claimed :: "lock_mode \<Rightarrow> uuid \<Rightarrow> int \<Rightarrow> entry option \<Rightarrow> entry option" where
  "claimed Mutex_Mode u expiry x = claim_mutex u expiry x"
| "claimed Read_Mode u expiry x = claim_read (member_of Read_Mode u) expiry x"
| "claimed Write_Mode u expiry x = claim_write (member_of Write_Mode u) expiry x"

definition taken :: "lock_mode \<Rightarrow> uuid \<Rightarrow> int \<Rightarrow> int \<Rightarrow> entry option \<Rightarrow> entry option" where
  "taken mode u now expiry x = claimed mode u expiry (checked mode now x)"

lemma checked_abs:
  "checked Mutex_Mode now = (\<lambda>x. x)"
  "checked Read_Mode now = purge_entry now"
  "checked Write_Mode now = purge_entry now"
  by (simp_all add: fun_eq_iff)

lemma taken_abs:
  "taken Mutex_Mode u now e = claim_mutex u e"
  "taken Read_Mode u now e = claim_read (''r:'' @ u) e \<circ> purge_entry now"
  "taken Write_Mode u now e = claim_write (''w:'' @ u) e \<circ> purge_entry now"
  by (simp_all add: fun_eq_iff taken_def)

fun owned :: "lock_mode \<Rightarrow> int \<Rightarrow> uuid \<Rightarrow> entry option \<Rightarrow> bool" where
  "owned Mutex_Mode now u x = owns_mutex u x"
| "owned Read_Mode now u x = reads_now now (member_of Read_Mode u) x"
| "owned Write_Mode now u x = writes_now now (member_of Write_Mode u) x"

fun present :: "lock_mode \<Rightarrow> uuid \<Rightarrow> entry option \<Rightarrow> bool" where
  "present Mutex_Mode u x = owns_mutex u x"
| "present Read_Mode u x = (members_of x (member_of Read_Mode u) \<noteq> None)"
| "present Write_Mode u x = (members_of x (member_of Write_Mode u) \<noteq> None)"

fun dropped :: "lock_mode \<Rightarrow> uuid \<Rightarrow> entry option \<Rightarrow> entry option" where
  "dropped Mutex_Mode u x = drop_mutex u x"
| "dropped Read_Mode u x = drop_member (member_of Read_Mode u) x"
| "dropped Write_Mode u x = drop_member (member_of Write_Mode u) x"

fun kind_ok :: "lock_mode \<Rightarrow> entry option \<Rightarrow> bool" where
  "kind_ok Mutex_Mode x = True"
| "kind_ok Read_Mode x = is_zset x"
| "kind_ok Write_Mode x = is_zset x"

text \<open>A TTL of at least a millisecond whose expiry Lua computes exactly.\<close>

definition ttl_in_range :: "int \<Rightarrow> duration \<Rightarrow> bool" where
  "ttl_in_range now ttl \<longleftrightarrow>
     1 \<le> as_millis ttl \<and> 0 \<le> now \<and> now + int (as_millis ttl) \<le> max_exact"

definition expiry_at :: "int \<Rightarrow> duration \<Rightarrow> int" where
  "expiry_at now ttl = now + int (as_millis ttl)"

lemma ttl_in_range_args:
  "ttl_in_range now ttl \<Longrightarrow> valid_ttl (ttl_arg ttl) (int (as_millis ttl))"
  "ttl_in_range now ttl \<Longrightarrow> rw_args now (ttl_arg ttl) (int (as_millis ttl))"
  "ttl_in_range now ttl \<Longrightarrow> px_ok now (int (as_millis ttl))"
  by (auto simp: ttl_in_range_def rw_args_def ttl_arg_valid px_ok_def max_exact_def)

subsection \<open>The commands implement the table\<close>

text \<open>
  The view after a command that checks keys in order and takes all of them or none. A refused
  command still removes expired members from the keys it looked at.
\<close>

definition all_or_nothing :: "(entry option \<Rightarrow> bool) \<Rightarrow> (entry option \<Rightarrow> entry option) \<Rightarrow>
    (entry option \<Rightarrow> entry option) \<Rightarrow> redis_key list \<Rightarrow> keyspace \<Rightarrow> keyspace" where
  "all_or_nothing bad look claim ks v =
     (if \<exists>k\<in>set ks. bad (v k)
      then update_at (set (upto_first (\<lambda>k. bad (v k)) ks)) look v
      else update_at (set ks) claim v)"

definition table_acquire :: "lock_target \<Rightarrow> uuid \<Rightarrow> int \<Rightarrow> duration \<Rightarrow> keyspace \<Rightarrow> bool \<times> keyspace" where
  "table_acquire target u now ttl v =
     (let mode = target_mode target in
      (\<forall>k\<in>set (target_keys target). \<not> blocked mode now (v k),
       all_or_nothing (blocked mode now) (checked mode now) (taken mode u now (expiry_at now ttl))
         (target_keys target) v))"

definition table_renew :: "lock_target \<Rightarrow> uuid \<Rightarrow> int \<Rightarrow> duration \<Rightarrow> keyspace \<Rightarrow> bool \<times> keyspace" where
  "table_renew target u now ttl v =
     (let mode = target_mode target in
      (\<forall>k\<in>set (target_keys target). owned mode now u (v k),
       all_or_nothing (\<lambda>x. \<not> owned mode now u x) (checked mode now)
         (taken mode u now (expiry_at now ttl)) (target_keys target) v))"

definition table_release :: "lock_target \<Rightarrow> uuid \<Rightarrow> keyspace \<Rightarrow> bool \<times> keyspace" where
  "table_release target u v =
     (let mode = target_mode target; ks = target_keys target in
      (card {k \<in> set ks. present mode u (v k)} = length ks,
       update_at (set ks) (dropped mode u) v))"

context redis_server
begin

lemma send_acquire_table:
  assumes ttl: "ttl_in_range (now s) ttl"
    and kinds: "\<forall>k\<in>set (target_keys target). kind_ok (target_mode target) (view s k)"
  shows "fst (send_acquire call target u ttl s) = Inr (fst (table_acquire target u (now s) ttl (view s)))"
    and "view (snd (send_acquire call target u ttl s)) =
      snd (table_acquire target u (now s) ttl (view s))"
proof -
  note args = ttl_in_range_args [OF ttl]
  let ?ks = "target_keys target" and ?t = "int (as_millis ttl)"
  have "fst (send_acquire call target u ttl s) = Inr (fst (table_acquire target u (now s) ttl (view s))) \<and>
    view (snd (send_acquire call target u ttl s)) = snd (table_acquire target u (now s) ttl (view s))"
  proof (cases "target_mode target")
    case Mutex_Mode
    then show ?thesis
      using send_acquire_mutex [OF Mutex_Mode args(1,3), of u]
      by (auto simp: table_acquire_def all_or_nothing_def taken_abs checked_abs expiry_at_def)
  next
    case Read_Mode
    then show ?thesis
      using acquire_read_run [OF args(2), of ?ks u] kinds
      by (auto simp: table_acquire_def all_or_nothing_def taken_abs checked_abs send_acquire_script
          scripts_by_mode expiry_at_def)
  next
    case Write_Mode
    then show ?thesis
      using acquire_write_run [OF args(2), of ?ks u] kinds
      by (auto simp: table_acquire_def all_or_nothing_def taken_abs checked_abs send_acquire_script
          scripts_by_mode expiry_at_def)
  qed
  then show "fst (send_acquire call target u ttl s) = Inr (fst (table_acquire target u (now s) ttl (view s)))"
    and "view (snd (send_acquire call target u ttl s)) = snd (table_acquire target u (now s) ttl (view s))"
    by simp_all
qed

lemma send_renew_table:
  assumes ttl: "ttl_in_range (now s) ttl"
    and kinds: "\<forall>k\<in>set (target_keys target). kind_ok (target_mode target) (view s k)"
  shows "fst (send_renew call target u ttl s) = Inr True \<longleftrightarrow> fst (table_renew target u (now s) ttl (view s))"
    and "view (snd (send_renew call target u ttl s)) = snd (table_renew target u (now s) ttl (view s))"
proof -
  note args = ttl_in_range_args [OF ttl]
  let ?ks = "target_keys target" and ?t = "int (as_millis ttl)"
  have "(fst (send_renew call target u ttl s) = Inr True \<longleftrightarrow>
      fst (table_renew target u (now s) ttl (view s))) \<and>
    view (snd (send_renew call target u ttl s)) = snd (table_renew target u (now s) ttl (view s))"
  proof (cases "target_mode target")
    case Mutex_Mode
    then show ?thesis
      using mutex_renew_owned [OF args(1,3), of ?ks u] mutex_renew_lost [OF args(1), of ?ks u s]
      by (cases "\<forall>k\<in>set ?ks. owns_mutex u (view s k)")
        (auto simp: table_renew_def all_or_nothing_def taken_abs checked_abs expiry_at_def
          send_renew_def scripts_by_mode)
  next
    case Read_Mode
    then show ?thesis
      using renew_read_run [OF args(2), of ?ks u] kinds
      by (auto simp: table_renew_def all_or_nothing_def taken_abs checked_abs send_renew_def
          scripts_by_mode expiry_at_def)
  next
    case Write_Mode
    then show ?thesis
      using renew_write_run [OF args(2), of ?ks u] kinds
      by (auto simp: table_renew_def all_or_nothing_def taken_abs checked_abs send_renew_def
          scripts_by_mode expiry_at_def)
  qed
  then show "fst (send_renew call target u ttl s) = Inr True \<longleftrightarrow> fst (table_renew target u (now s) ttl (view s))"
    and "view (snd (send_renew call target u ttl s)) = snd (table_renew target u (now s) ttl (view s))"
    by simp_all
qed

lemma send_release_table:
  "fst (send_release call target u s) = Inr (fst (table_release target u (view s)))"
  "view (snd (send_release call target u s)) = snd (table_release target u (view s))"
proof -
  let ?ks = "target_keys target"
  have "fst (send_release call target u s) = Inr (fst (table_release target u (view s))) \<and>
    view (snd (send_release call target u s)) = snd (table_release target u (view s))"
    using mutex_release [of ?ks u s] release_read_run [of ?ks u s] release_write_run [of ?ks u s]
    by (cases "target_mode target")
      (simp_all add: table_release_def send_release_def scripts_by_mode Let_def update_at_def fun_eq_iff)
  then show "fst (send_release call target u s) = Inr (fst (table_release target u (view s)))"
    "view (snd (send_release call target u s)) = snd (table_release target u (view s))"
    by simp_all
qed

text \<open>A read-write command on a key of another type is an error and changes no key.\<close>

lemma send_wrong_kind:
  assumes "\<exists>k\<in>set (target_keys target). \<not> kind_ok (target_mode target) (view s k)"
  shows "(\<exists>e. fst (send_acquire call target u ttl s) = Inl e) \<and>
      view (snd (send_acquire call target u ttl s)) = view s"
    and "(\<exists>e. fst (send_renew call target u ttl s) = Inl e) \<and>
      view (snd (send_renew call target u ttl s)) = view s"
proof -
  have mode: "target_mode target \<noteq> Mutex_Mode" using assms by auto
  then have "\<exists>k\<in>set (target_keys target). \<not> is_zset (view s k)"
    using assms by (cases "target_mode target") auto
  note bad = rw_script_bad [OF disjI2, OF this]
  show "(\<exists>e. fst (send_acquire call target u ttl s) = Inl e) \<and>
      view (snd (send_acquire call target u ttl s)) = view s"
    using mode bad [of "acquire_script target" "[u, ttl_arg ttl]"]
    by (cases "target_mode target") (auto simp: send_acquire_script scripts_by_mode)
  show "(\<exists>e. fst (send_renew call target u ttl s) = Inl e) \<and>
      view (snd (send_renew call target u ttl s)) = view s"
    using mode bad [of "renew_script target" "[u, ttl_arg ttl]"]
    by (cases "target_mode target") (auto simp: send_renew_def scripts_by_mode)
qed

end

end
