(* ===== verification/Lock_Safety.thy ===== *)
theory Lock_Safety
  imports Lock_Table
begin

text \<open>
  Safety of the lock table: the invariant of an entry, mutual exclusion, and the rule that a holder
  keeps a key until its expiry unless it releases the key itself. The steps are the three commands
  of any process with any request, and the passage of time.
\<close>

subsection \<open>Holders of an entry\<close>

text \<open>\<open>holds mode u e x\<close>: the entry \<open>x\<close> is held by \<open>u\<close> until \<open>e\<close>.\<close>

fun holds :: "lock_mode \<Rightarrow> uuid \<Rightarrow> int \<Rightarrow> entry option \<Rightarrow> bool" where
  "holds Mutex_Mode u e x = (x = Some (RString u, Some e))"
| "holds Read_Mode u e x =
     (members_of x (member_of Read_Mode u) = Some e \<and> 0 < e \<and>
      (\<exists>t. expiry_of x = Some t \<and> e \<le> t))"
| "holds Write_Mode u e x =
     (members_of x (member_of Write_Mode u) = Some (- e) \<and> 0 < e \<and>
      (\<exists>t. expiry_of x = Some t \<and> e \<le> t))"

text \<open>
  When a hold counts for the server: a mutex key exists up to and including its expiry time, a
  member of a sorted set is purged at its expiry time.
\<close>

fun live :: "lock_mode \<Rightarrow> int \<Rightarrow> int \<Rightarrow> bool" where
  "live Mutex_Mode now e = (now \<le> e)"
| "live Read_Mode now e = (now < e)"
| "live Write_Mode now e = (now < e)"

text \<open>
  The invariant of an entry. A sorted set expires as a whole, not before its last member; its
  members are readers with positive and writers with negative scores; a writer is alone.
\<close>

definition zset_ok :: "(string \<rightharpoonup> int) \<Rightarrow> int option \<Rightarrow> bool" where
  "zset_ok z e \<longleftrightarrow>
     (\<exists>t. e = Some t \<and> (\<forall>m sc. z m = Some sc \<longrightarrow> \<bar>sc\<bar> \<le> t)) \<and>
     (\<forall>m sc. z m = Some sc \<longrightarrow>
        (\<exists>u. m = member_of Read_Mode u \<and> 0 < sc) \<or> (\<exists>u. m = member_of Write_Mode u \<and> sc < 0)) \<and>
     (\<forall>m sc. z m = Some sc \<longrightarrow> sc < 0 \<longrightarrow> dom z = {m})"

fun entry_ok :: "entry option \<Rightarrow> bool" where
  "entry_ok None = True"
| "entry_ok (Some (RString v, e)) = (e \<noteq> None)"
| "entry_ok (Some (RZset z, e)) = zset_ok z e"
| "entry_ok (Some (ROther t, e)) = False"

lemma members_of_SomeD: "members_of x m = Some sc \<Longrightarrow> is_zset x \<and> (\<exists>v e. x = Some (v, e))"
  by (cases x rule: zset_of.cases) (auto simp: members_of_def is_zset_def)

lemma entry_ok_zset: "is_zset x \<Longrightarrow> entry_ok x \<longleftrightarrow> x = None \<or> zset_ok (members_of x) (expiry_of x)"
  by (cases x rule: zset_of.cases) (auto simp: is_zset_def members_of_def)

lemma entry_ok_cases:
  assumes "entry_ok x"
  obtains "x = None"
  | v t where "x = Some (RString v, Some t)"
  | z t where "x = Some (RZset z, Some t)" and "zset_ok z (Some t)"
  using assms by (cases x rule: entry_ok.cases) (auto simp: zset_ok_def)

lemma zset_okI:
  assumes "e = Some t" and "\<And>m sc. z m = Some sc \<Longrightarrow> \<bar>sc\<bar> \<le> t"
    and "\<And>m sc. z m = Some sc \<Longrightarrow>
      (\<exists>u. m = member_of Read_Mode u \<and> 0 < sc) \<or> (\<exists>u. m = member_of Write_Mode u \<and> sc < 0)"
    and "\<And>m sc m' sc'. z m = Some sc \<Longrightarrow> sc < 0 \<Longrightarrow> z m' = Some sc' \<Longrightarrow> m' = m"
  shows "zset_ok z e"
proof -
  have "dom z = {m}" if "z m = Some sc" "sc < 0" for m sc
  proof (intro equalityI subsetI)
    fix m'
    assume "m' \<in> dom z"
    then obtain sc' where "z m' = Some sc'" by blast
    then have "m' = m" by (rule assms(4) [OF that])
    then show "m' \<in> {m}" by simp
  qed (use that(1) in blast)
  with assms(1-3) show ?thesis unfolding zset_ok_def by blast
qed

lemma zset_okD:
  assumes "zset_ok z e" and "z m = Some sc"
  shows "\<exists>t. e = Some t \<and> \<bar>sc\<bar> \<le> t"
    and "(\<exists>u. m = member_of Read_Mode u \<and> 0 < sc) \<or> (\<exists>u. m = member_of Write_Mode u \<and> sc < 0)"
    and "sc < 0 \<Longrightarrow> z m' = Some sc' \<Longrightarrow> m' = m"
proof -
  show "\<exists>t. e = Some t \<and> \<bar>sc\<bar> \<le> t"
    "(\<exists>u. m = member_of Read_Mode u \<and> 0 < sc) \<or> (\<exists>u. m = member_of Write_Mode u \<and> sc < 0)"
    using assms unfolding zset_ok_def by blast+
  assume "sc < 0" "z m' = Some sc'"
  with assms have "m' \<in> {m}" unfolding zset_ok_def by blast
  then show "m' = m" by simp
qed

lemma zset_ok_subset:
  assumes "zset_ok z e" and "\<And>m sc. z' m = Some sc \<Longrightarrow> z m = Some sc"
  shows "zset_ok z' e"
proof -
  obtain t where t: "e = Some t" "\<And>m sc. z m = Some sc \<Longrightarrow> \<bar>sc\<bar> \<le> t"
    using assms(1) unfolding zset_ok_def by blast
  show ?thesis
  proof (rule zset_okI [OF t(1)])
    fix m sc
    assume m: "z' m = Some sc"
    then show "\<bar>sc\<bar> \<le> t" by (intro t(2) assms(2))
    show "(\<exists>u. m = member_of Read_Mode u \<and> 0 < sc) \<or> (\<exists>u. m = member_of Write_Mode u \<and> sc < 0)"
      by (rule zset_okD(2) [OF assms(1) assms(2) [OF m]])
    fix m' sc'
    assume "sc < 0" "z' m' = Some sc'"
    then show "m' = m" by (intro zset_okD(3) [OF assms(1) assms(2) [OF m]] assms(2))
  qed
qed

lemma entry_ok_put_zset:
  assumes "entry_ok x" and "is_zset x" and sub: "\<And>m sc. z' m = Some sc \<Longrightarrow> members_of x m = Some sc"
  shows "entry_ok (put_zset x z')"
proof (cases "z' = Map.empty")
  case True
  then show ?thesis by (simp add: put_zset_def)
next
  case False
  then obtain m sc where "z' m = Some sc" by (auto simp: fun_eq_iff)
  then have "x \<noteq> None" using sub [of m sc] members_of_SomeD [of x m sc] by auto
  then have "zset_ok (members_of x) (expiry_of x)"
    using assms(1,2) by (auto simp: entry_ok_zset)
  then have "zset_ok z' (expiry_of x)" using sub by (rule zset_ok_subset)
  with False show ?thesis by (simp add: put_zset_def)
qed

subsection \<open>The operations keep the invariant\<close>

lemma entry_ok_checked: "entry_ok x \<Longrightarrow> entry_ok (checked mode now x)"
  by (cases mode) (auto simp: purge_entry_def zset_purge_Some intro: entry_ok_put_zset)

lemma entry_ok_dropped: "entry_ok x \<Longrightarrow> entry_ok (dropped mode u x)"
  by (cases mode)
    (auto simp: drop_mutex_def drop_member_def split: if_splits intro: entry_ok_put_zset)

lemma entry_ok_expire: "entry_ok x \<Longrightarrow> entry_ok (expire_at t x)"
  by (auto simp: expire_at_def split: option.splits)

lemma kind_ok_expire: "kind_ok mode x \<Longrightarrow> kind_ok mode (expire_at t x)"
  by (cases mode) (auto simp: expire_at_def split: option.splits)

text \<open>A member of an entry that satisfies the invariant.\<close>

lemma entry_ok_memberD:
  assumes "entry_ok x" and "members_of x m = Some sc"
  shows "\<exists>t. expiry_of x = Some t \<and> \<bar>sc\<bar> \<le> t"
    and "(\<exists>u. m = member_of Read_Mode u \<and> 0 < sc) \<or> (\<exists>u. m = member_of Write_Mode u \<and> sc < 0)"
    and "sc < 0 \<Longrightarrow> members_of x m' = Some sc' \<Longrightarrow> m' = m"
    and "zset_ok (members_of x) (expiry_of x)"
proof -
  have "is_zset x" "x \<noteq> None" using members_of_SomeD [OF assms(2)] by auto
  then show ok: "zset_ok (members_of x) (expiry_of x)" using assms(1) by (auto simp: entry_ok_zset)
  show "\<exists>t. expiry_of x = Some t \<and> \<bar>sc\<bar> \<le> t"
    "(\<exists>u. m = member_of Read_Mode u \<and> 0 < sc) \<or> (\<exists>u. m = member_of Write_Mode u \<and> sc < 0)"
    "sc < 0 \<Longrightarrow> members_of x m' = Some sc' \<Longrightarrow> m' = m"
    using zset_okD [OF ok assms(2)] by blast+
qed

text \<open>Adding a reader where no writer is left, and a writer where nobody else is left.\<close>

lemma entry_ok_claim_read:
  assumes ok: "entry_ok x" and pos: "\<And>m sc. members_of x m = Some sc \<Longrightarrow> 0 < sc" and e: "0 < e"
  shows "entry_ok (claim_read (member_of Read_Mode u) e x)"
proof -
  define t where "t = (case expiry_of x of None \<Rightarrow> e | Some t \<Rightarrow> max t e)"
  have "zset_ok ((members_of x)(member_of Read_Mode u \<mapsto> e)) (Some t)"
  proof (rule zset_okI [OF refl])
    fix m sc
    assume m: "((members_of x)(member_of Read_Mode u \<mapsto> e)) m = Some sc"
    show "\<bar>sc\<bar> \<le> t"
      using m e entry_ok_memberD(1) [OF ok, of m sc] by (auto simp: t_def split: if_splits option.splits)
    show "(\<exists>u. m = member_of Read_Mode u \<and> 0 < sc) \<or> (\<exists>u. m = member_of Write_Mode u \<and> sc < 0)"
      using m e entry_ok_memberD(2) [OF ok, of m sc] by (auto split: if_splits)
    fix m' sc'
    assume "sc < 0"
    then show "m' = m" using m e pos [of m sc] by (auto split: if_splits)
  qed
  then show ?thesis by (simp add: claim_read_def t_def)
qed

lemma entry_ok_claim_write:
  assumes alone: "\<And>m sc. members_of x m = Some sc \<Longrightarrow> m = member_of Write_Mode u" and e: "0 < e"
  shows "entry_ok (claim_write (member_of Write_Mode u) e x)"
proof -
  have "zset_ok ((members_of x)(member_of Write_Mode u \<mapsto> - e)) (Some e)"
  proof (rule zset_okI [OF refl])
    fix m sc
    assume "((members_of x)(member_of Write_Mode u \<mapsto> - e)) m = Some sc"
    then have m: "m = member_of Write_Mode u" "sc = - e"
      using alone [of m sc] by (auto split: if_splits)
    show "\<bar>sc\<bar> \<le> e" using m e by simp
    show "(\<exists>u. m = member_of Read_Mode u \<and> 0 < sc) \<or> (\<exists>u. m = member_of Write_Mode u \<and> sc < 0)"
      using m e by simp
    fix m' sc'
    assume "((members_of x)(member_of Write_Mode u \<mapsto> - e)) m' = Some sc'"
    then show "m' = m" using m alone [of m' sc'] by (auto split: if_splits)
  qed
  then show ?thesis by (simp add: claim_write_def)
qed

lemma no_writer_pos:
  assumes "entry_ok x" and "\<not> has_writer now x" and "members_of (purge_entry now x) m = Some sc"
  shows "0 < sc"
  using assms entry_ok_memberD(2) [OF assms(1), of m sc]
  by (fastforce simp: zset_purge_Some has_writer_def)

lemma reader_pos:
  assumes "entry_ok x" and "reads_now now (member_of Read_Mode u) x" and "0 \<le> now"
    and "members_of x m = Some sc"
  shows "0 < sc"
proof (rule ccontr)
  assume "\<not> 0 < sc"
  moreover obtain sc' where "members_of x (member_of Read_Mode u) = Some sc'" "now < sc'"
    using assms(2) by (auto simp: reads_now_def)
  ultimately have "sc < 0" "m = member_of Read_Mode u" "0 < sc'" "members_of x m = Some sc'"
    using entry_ok_memberD(2,3) [OF assms(1,4)] assms(3) by auto
  then show False using assms(4) by simp
qed

lemma writer_alone:
  assumes "entry_ok x" and "writes_now now (member_of Write_Mode u) x" and "0 \<le> now"
    and "members_of x m = Some sc"
  shows "m = member_of Write_Mode u"
  using assms entry_ok_memberD(3) [OF assms(1), of "member_of Write_Mode u" _ m sc]
  by (auto simp: writes_now_def)

lemma entry_ok_taken_free:
  assumes "entry_ok x" and "\<not> blocked mode now x" and "0 \<le> now" and "now < e"
  shows "entry_ok (taken mode u now e x)"
proof (cases mode)
  case Mutex_Mode
  then show ?thesis by (simp add: taken_abs claim_mutex_def)
next
  case Read_Mode
  with assms have "entry_ok (claim_read (member_of Read_Mode u) e (purge_entry now x))"
    using entry_ok_checked [of x Read_Mode now] no_writer_pos [of x now]
    by (intro entry_ok_claim_read) auto
  with Read_Mode show ?thesis by (simp add: taken_abs)
next
  case Write_Mode
  with assms have "entry_ok (claim_write (member_of Write_Mode u) e (purge_entry now x))"
    by (intro entry_ok_claim_write) (auto simp: zset_purge_Some has_holder_def)
  with Write_Mode show ?thesis by (simp add: taken_abs)
qed

lemma entry_ok_taken_owned:
  assumes "entry_ok x" and "owned mode now u x" and "0 \<le> now" and "now < e"
  shows "entry_ok (taken mode u now e x)"
proof (cases mode)
  case Mutex_Mode
  then show ?thesis by (simp add: taken_abs claim_mutex_def)
next
  case Read_Mode
  with assms have "entry_ok (claim_read (member_of Read_Mode u) e (purge_entry now x))"
    using entry_ok_checked [of x Read_Mode now] reader_pos [of x now u]
    by (intro entry_ok_claim_read) (auto simp: zset_purge_Some)
  with Read_Mode show ?thesis by (simp add: taken_abs)
next
  case Write_Mode
  with assms have "entry_ok (claim_write (member_of Write_Mode u) e (purge_entry now x))"
    using writer_alone [of x now u]
    by (intro entry_ok_claim_write) (auto simp: zset_purge_Some)
  with Write_Mode show ?thesis by (simp add: taken_abs)
qed

subsection \<open>A holder keeps its entry\<close>

lemma holds_taken: "0 < e \<Longrightarrow> holds mode u e (taken mode u now e x)"
  by (cases mode)
    (auto simp: taken_abs claim_mutex_def claim_read_def claim_write_def split: option.splits)

lemma owned_holds:
  assumes "entry_ok x" and "owned mode now u x" and "0 \<le> now"
  obtains e where "holds mode u e x"
proof (cases mode)
  case Mutex_Mode
  with assms that show ?thesis
    by (cases x rule: entry_ok_cases) (auto simp: owns_mutex_def)
next
  case Read_Mode
  with assms obtain sc where "members_of x (member_of Read_Mode u) = Some sc" "now < sc"
    by (auto simp: reads_now_def)
  with Read_Mode assms entry_ok_memberD(1) [OF assms(1)] that show ?thesis by fastforce
next
  case Write_Mode
  with assms obtain sc where "members_of x (member_of Write_Mode u) = Some sc" "sc < - now"
    by (auto simp: writes_now_def)
  with Write_Mode assms entry_ok_memberD(1) [OF assms(1), of "member_of Write_Mode u" sc]
    that [of "- sc"] show ?thesis by fastforce
qed

lemma holds_unique: "holds mode u e x \<Longrightarrow> holds mode u e' x \<Longrightarrow> e = e'"
  by (cases mode) auto

lemma holds_not_None: "holds m u e x \<Longrightarrow> x \<noteq> None"
  by (cases m; cases x) auto

lemma expiry_of_put_zset: "z m = Some sc \<Longrightarrow> expiry_of (put_zset x z) = expiry_of x"
  by (auto simp: put_zset_def)

text \<open>A changed set still holds what it held if the member is untouched.\<close>

lemma holds_put_zset:
  assumes "holds m u e x" and "m \<noteq> Mutex_Mode"
    and "z (member_of m u) = members_of x (member_of m u)"
  shows "holds m u e (put_zset x z)"
proof -
  have "\<exists>sc. z (member_of m u) = Some sc" using assms by (cases m) auto
  then obtain sc where "z (member_of m u) = Some sc" by blast
  with assms expiry_of_put_zset [of z "member_of m u" sc x] show ?thesis by (cases m) auto
qed

lemma holds_checked:
  assumes "holds m u e x" and "live m now e"
  shows "holds m u e (checked m' now x)"
proof (cases "m = Mutex_Mode \<or> m' = Mutex_Mode \<or> \<not> is_zset x")
  case True
  with assms show ?thesis by (cases m'; cases m) (auto simp: purge_entry_def)
next
  case False
  have "zset_purge (- now) now (members_of x) (member_of m u) = members_of x (member_of m u)"
    using assms False by (cases m) (auto simp: zset_purge_def)
  then have "holds m u e (put_zset x (zset_purge (- now) now (members_of x)))"
    using assms(1) False by (intro holds_put_zset) auto
  with False show ?thesis by (cases m') (auto simp: purge_entry_def)
qed

lemma holds_claim_read_other:
  assumes "holds m u e x" and "is_zset x" and "u' \<noteq> u"
  shows "holds m u e (claim_read (member_of Read_Mode u') e' x)"
  using assms by (cases m) (auto simp: claim_read_def split: option.splits)

lemma holds_dropped_other:
  assumes "holds m u e x" and "u' \<noteq> u"
  shows "holds m u e (dropped m' u' x)"
proof (cases "m = Mutex_Mode \<or> m' = Mutex_Mode \<or> \<not> is_zset x")
  case True
  with assms show ?thesis
    by (cases m; cases m') (auto simp: drop_member_def drop_mutex_def owns_mutex_def)
next
  case False
  have "member_of m u \<noteq> member_of m' u'"
    using assms(2) False by (cases m; cases m') auto
  then have "holds m u e (put_zset x ((members_of x)(member_of m' u' := None)))"
    using assms(1) False by (intro holds_put_zset) auto
  with False show ?thesis by (cases m') (auto simp: drop_member_def)
qed

lemma holds_expire:
  "holds m u e x \<Longrightarrow> live m t e \<Longrightarrow> holds m u e (expire_at t x)"
  by (cases m; cases x) (auto simp: expire_at_def split: option.splits)

text \<open>Holding a key means that a request of another mode finds a holder.\<close>

lemma holds_blocks_write:
  "holds m u e x \<Longrightarrow> live m now e \<Longrightarrow> is_zset x \<Longrightarrow> has_holder now x"
  by (cases m) (auto simp: has_holder_def intro: exI [of _ "member_of m u"] exI [of _ "e"] exI [of _ "- e"])

text \<open>Nobody else can take the entry from under a holder.\<close>

lemma holds_taken_free:
  assumes "holds m u e x" and "live m now e" and "0 \<le> now" and "u' \<noteq> u"
    and "\<not> blocked m' now x" and "kind_ok m' x"
  shows "holds m u e (taken m' u' now e' x)"
proof (cases m')
  case Mutex_Mode
  with assms(5) holds_not_None [OF assms(1)] show ?thesis by simp
next
  case Read_Mode
  with assms show ?thesis
    using holds_claim_read_other [OF holds_checked [OF assms(1,2), of Read_Mode]]
    by (simp add: taken_abs)
next
  case Write_Mode
  with assms holds_blocks_write [OF assms(1,2)] show ?thesis by simp
qed

lemma holds_taken_owned:
  assumes "holds m u e x" and "live m now e" and "entry_ok x" and "0 \<le> now" and "u' \<noteq> u"
    and "owned m' now u' x" and "kind_ok m' x"
  shows "holds m u e (taken m' u' now e' x)"
proof (cases m')
  case Mutex_Mode
  with assms show ?thesis by (cases m) (auto simp: owns_mutex_def)
next
  case Read_Mode
  with assms show ?thesis
    using holds_claim_read_other [OF holds_checked [OF assms(1,2), of Read_Mode]]
    by (simp add: taken_abs)
next
  case Write_Mode
  then have "members_of x m'' = Some sc \<Longrightarrow> m'' = member_of Write_Mode u'" for m'' sc
    using writer_alone [OF assms(3) _ assms(4)] assms(6) by simp
  with assms(1,5,7) Write_Mode show ?thesis by (cases m) auto
qed

end
