(* ===== verification/Lock_Steps.thy ===== *)
theory Lock_Steps
  imports Lock_Safety
begin

text \<open>
  The lock server as a state machine: a step is a command of some process, with any request, or the
  passage of time. The theory proves the invariant of the reachable states and the safety of a
  held lock on every path that its owner takes no part in.
\<close>

subsection \<open>The scripts keep the time\<close>

definition keeps :: "('s \<Rightarrow> 't) \<Rightarrow> ('s, 'a) lua \<Rightarrow> bool" where
  "keeps obs m \<longleftrightarrow> (\<forall>s. obs (snd (m s)) = obs s)"

lemma keeps_pure [intro!]: "keeps obs (lua_pure a)"
  by (simp add: keeps_def)

lemma keeps_stop [intro!]: "keeps obs (lua_stop x)"
  by (simp add: keeps_def)

lemma keeps_bind [intro!]: "keeps obs m \<Longrightarrow> (\<And>a. keeps obs (f a)) \<Longrightarrow> keeps obs (lua_bind m f)"
  by (auto simp: keeps_def split: sum.splits)

lemma keeps_then [intro!]: "keeps obs m \<Longrightarrow> keeps obs n \<Longrightarrow> keeps obs (lua_then m n)"
  by (simp add: lua_then_def keeps_bind)

lemma keeps_if [intro!]: "keeps obs m \<Longrightarrow> keeps obs n \<Longrightarrow> keeps obs (if b then m else n)"
  by simp

lemma keeps_for_keys [intro!]: "(\<And>k. keeps obs (f k)) \<Longrightarrow> keeps obs (for_keys ks f)"
  by (induction ks) auto

lemma keeps_for_count [intro!]: "(\<And>k. keeps obs (f k)) \<Longrightarrow> keeps obs (for_count ks f c)"
  by (induction ks arbitrary: c) auto

lemma keeps_lua_values [intro!]:
  "keeps obs (lua_string x)" "keeps obs (lua_number r)" "keeps obs (TTL_PREFLIGHT args)"
  "keeps obs (time_millis r)"
  by (simp_all add: keeps_def TTL_PREFLIGHT_def time_millis_def split: option.splits reply.splits list.splits)

lemma keeps_score [intro!]:
  "(\<And>sc. keeps obs (f sc)) \<Longrightarrow>
   keeps obs (case score of BulkReply str \<Rightarrow>
       (case lua_tonumber str of None \<Rightarrow> lua_stop x | Some sc \<Rightarrow> f sc) | _ \<Rightarrow> lua_stop y)"
  by (auto split: reply.splits option.splits)

lemma keeps_prod [intro!]: "(\<And>a b. keeps obs (f a b)) \<Longrightarrow> keeps obs (case p of (a, b) \<Rightarrow> f a b)"
  by (cases p) simp

lemma keeps_eval_script: "keeps obs m \<Longrightarrow> obs (snd (eval_script m s)) = obs s"
  by (simp add: keeps_def)

context redis_server
begin

lemma keeps_redis_call [intro!]: "keeps now (redis_call call c)"
  by (simp add: keeps_def)

lemma keeps_preflight [intro!]:
  "keeps now (RW_EXPIRY_PREFLIGHT call ttl)" "keeps now (RW_TYPE_PREFLIGHT call ks)"
  unfolding RW_EXPIRY_PREFLIGHT_def RW_TYPE_PREFLIGHT_def Let_def by auto

lemma now_mutex_scripts [simp]:
  "now (snd (SCRIPT_ACQUIRE_LOCK call ks args s)) = now s"
  "now (snd (SCRIPT_RENEW_LOCK call ks args s)) = now s"
  "now (snd (SCRIPT_RELEASE_LOCK call ks args s)) = now s"
  unfolding SCRIPT_ACQUIRE_LOCK_def SCRIPT_RENEW_LOCK_def SCRIPT_RELEASE_LOCK_def
    script_with_ttl_preflight_def
  by (rule keeps_eval_script; auto)+

lemma now_rw_scripts [simp]:
  "now (snd (SCRIPT_ACQUIRE_READ_LOCK call ks args s)) = now s"
  "now (snd (SCRIPT_RENEW_READ_LOCK call ks args s)) = now s"
  "now (snd (SCRIPT_RELEASE_READ_LOCK call ks args s)) = now s"
  "now (snd (SCRIPT_ACQUIRE_WRITE_LOCK call ks args s)) = now s"
  "now (snd (SCRIPT_RENEW_WRITE_LOCK call ks args s)) = now s"
  "now (snd (SCRIPT_RELEASE_WRITE_LOCK call ks args s)) = now s"
  unfolding SCRIPT_ACQUIRE_READ_LOCK_def SCRIPT_RENEW_READ_LOCK_def SCRIPT_RELEASE_READ_LOCK_def
    SCRIPT_ACQUIRE_WRITE_LOCK_def SCRIPT_RENEW_WRITE_LOCK_def SCRIPT_RELEASE_WRITE_LOCK_def
    rw_script_with_preflight_def Let_def
  by (rule keeps_eval_script; auto)+

lemma now_send [simp]:
  "now (snd (send_acquire call target u ttl s)) = now s"
  "now (snd (send_renew call target u ttl s)) = now s"
  "now (snd (send_release call target u s)) = now s"
proof -
  show "now (snd (send_acquire call target u ttl s)) = now s"
    by (cases target) (simp_all add: case_prod_unfold)
  show "now (snd (send_renew call target u ttl s)) = now s"
    by (cases target) (simp_all add: send_renew_def)
  show "now (snd (send_release call target u s)) = now s"
    by (cases target) (simp_all add: send_release_def)
qed

end

subsection \<open>One step of the table\<close>

lemma all_or_nothing_cases:
  obtains "all_or_nothing bad look claim ks v k = v k"
  | "all_or_nothing bad look claim ks v k = look (v k)"
  | "k \<in> set ks" and "\<not> bad (v k)" and "all_or_nothing bad look claim ks v k = claim (v k)"
proof (cases "k \<in> set ks \<and> (\<forall>k\<in>set ks. \<not> bad (v k))")
  case True
  then have "all_or_nothing bad look claim ks v k = claim (v k)"
    by (auto simp: all_or_nothing_def)
  with True that(3) show ?thesis by blast
next
  case False
  then have "all_or_nothing bad look claim ks v k \<in> {v k, look (v k)}"
    by (auto simp: all_or_nothing_def update_at_apply)
  with that(1,2) show ?thesis by blast
qed

lemma table_acquire_ok:
  assumes "entry_ok (v k)" and "ttl_in_range now ttl"
  shows "entry_ok (snd (table_acquire target u now ttl v) k)"
  unfolding table_acquire_def Let_def snd_conv
proof (rule all_or_nothing_cases [of "blocked (target_mode target) now" "checked (target_mode target) now"
      "taken (target_mode target) u now (expiry_at now ttl)" "target_keys target" v k], goal_cases)
  case 3
  with assms show ?case
    using entry_ok_taken_free [of "v k" "target_mode target" now "expiry_at now ttl" u]
    by (simp add: ttl_in_range_def expiry_at_def)
qed (use assms entry_ok_checked in simp_all)

lemma table_renew_ok:
  assumes "entry_ok (v k)" and "ttl_in_range now ttl"
  shows "entry_ok (snd (table_renew target u now ttl v) k)"
  unfolding table_renew_def Let_def snd_conv
proof (rule all_or_nothing_cases [of "\<lambda>x. \<not> owned (target_mode target) now u x"
      "checked (target_mode target) now"
      "taken (target_mode target) u now (expiry_at now ttl)" "target_keys target" v k], goal_cases)
  case 3
  with assms show ?case
    using entry_ok_taken_owned [of "v k" "target_mode target" now u "expiry_at now ttl"]
    by (simp add: ttl_in_range_def expiry_at_def)
qed (use assms entry_ok_checked in simp_all)

lemma table_release_ok: "entry_ok (v k) \<Longrightarrow> entry_ok (snd (table_release target u v) k)"
  by (simp add: table_release_def Let_def update_at_apply entry_ok_dropped)

lemma table_acquire_holds:
  assumes "holds m u e (v k)" and "live m now e" and "u' \<noteq> u" and "ttl_in_range now ttl"
    and "\<forall>k\<in>set (target_keys target). kind_ok (target_mode target) (v k)"
  shows "holds m u e (snd (table_acquire target u' now ttl v) k)"
  unfolding table_acquire_def Let_def snd_conv
proof (rule all_or_nothing_cases [of "blocked (target_mode target) now" "checked (target_mode target) now"
      "taken (target_mode target) u' now (expiry_at now ttl)" "target_keys target" v k], goal_cases)
  case 3
  with assms show ?case
    using holds_taken_free [OF assms(1,2)] by (simp add: ttl_in_range_def)
qed (use assms holds_checked in simp_all)

lemma table_renew_holds:
  assumes "holds m u e (v k)" and "live m now e" and "u' \<noteq> u" and "ttl_in_range now ttl"
    and "entry_ok (v k)"
    and "\<forall>k\<in>set (target_keys target). kind_ok (target_mode target) (v k)"
  shows "holds m u e (snd (table_renew target u' now ttl v) k)"
  unfolding table_renew_def Let_def snd_conv
proof (rule all_or_nothing_cases [of "\<lambda>x. \<not> owned (target_mode target) now u' x"
      "checked (target_mode target) now"
      "taken (target_mode target) u' now (expiry_at now ttl)" "target_keys target" v k], goal_cases)
  case 3
  with assms show ?case
    using holds_taken_owned [OF assms(1,2,5)] by (simp add: ttl_in_range_def)
qed (use assms holds_checked in simp_all)

lemma table_release_holds:
  "holds m u e (v k) \<Longrightarrow> u' \<noteq> u \<Longrightarrow> holds m u e (snd (table_release target u' v) k)"
  by (simp add: table_release_def Let_def update_at_apply holds_dropped_other)

subsection \<open>Steps and paths\<close>

text \<open>A step with the process that takes it; \<open>None\<close> is the clock.\<close>

inductive lock_step :: "'s redis_call \<Rightarrow> ('s \<Rightarrow> int) \<Rightarrow> (int \<Rightarrow> 's \<Rightarrow> 's) \<Rightarrow>
    's \<Rightarrow> uuid option \<Rightarrow> 's \<Rightarrow> bool" for call now advance where
  step_acquire: "ttl_in_range (now s) ttl \<Longrightarrow>
    lock_step call now advance s (Some u) (snd (send_acquire call target u ttl s))"
| step_renew: "ttl_in_range (now s) ttl \<Longrightarrow>
    lock_step call now advance s (Some u) (snd (send_renew call target u ttl s))"
| step_release:
    "lock_step call now advance s (Some u) (snd (send_release call target u s))"
| step_tick: "0 \<le> d \<Longrightarrow> lock_step call now advance s None (advance d s)"

inductive_cases lock_stepE: "lock_step call now advance s a s'"

text \<open>A path all of whose steps are taken by processes that satisfy \<open>P\<close>.\<close>

inductive lock_path :: "'s redis_call \<Rightarrow> ('s \<Rightarrow> int) \<Rightarrow> (int \<Rightarrow> 's \<Rightarrow> 's) \<Rightarrow>
    (uuid option \<Rightarrow> bool) \<Rightarrow> 's \<Rightarrow> 's \<Rightarrow> bool" for call now advance P where
  path_refl: "lock_path call now advance P s s"
| path_step: "lock_path call now advance P s t \<Longrightarrow> lock_step call now advance t a u \<Longrightarrow> P a \<Longrightarrow>
    lock_path call now advance P s u"

definition table_ok :: "keyspace \<Rightarrow> bool" where
  "table_ok v \<longleftrightarrow> (\<forall>k. entry_ok (v k))"

lemma table_ok_empty: "table_ok (\<lambda>k. None)"
  by (simp add: table_ok_def)

context redis_clock
begin

lemma send_acquire_ok:
  assumes "table_ok (view s)" and "ttl_in_range (now s) ttl"
  shows "table_ok (view (snd (send_acquire call target u ttl s)))"
proof (cases "\<forall>k\<in>set (target_keys target). kind_ok (target_mode target) (view s k)")
  case True
  with assms show ?thesis
    by (simp add: send_acquire_table table_ok_def table_acquire_ok)
next
  case False
  with assms show ?thesis using send_wrong_kind(1) [of target s u ttl] by auto
qed

lemma send_renew_ok:
  assumes "table_ok (view s)" and "ttl_in_range (now s) ttl"
  shows "table_ok (view (snd (send_renew call target u ttl s)))"
proof (cases "\<forall>k\<in>set (target_keys target). kind_ok (target_mode target) (view s k)")
  case True
  with assms show ?thesis
    by (simp add: send_renew_table table_ok_def table_renew_ok)
next
  case False
  with assms show ?thesis using send_wrong_kind(2) [of target s u ttl] by auto
qed

lemma send_release_ok:
  "table_ok (view s) \<Longrightarrow> table_ok (view (snd (send_release call target u s)))"
  by (simp add: send_release_table table_ok_def table_release_ok)

lemma advance_ok: "0 \<le> d \<Longrightarrow> table_ok (view s) \<Longrightarrow> table_ok (view (advance d s))"
  by (simp add: view_advance table_ok_def entry_ok_expire)

lemma lock_step_ok:
  "lock_step call now advance s a s' \<Longrightarrow> table_ok (view s) \<Longrightarrow> table_ok (view s')"
  by (erule lock_stepE) (auto intro: send_acquire_ok send_renew_ok send_release_ok advance_ok)

lemma lock_step_now: "lock_step call now advance s a s' \<Longrightarrow> now s \<le> now s'"
  by (erule lock_stepE) (auto simp: now_advance)

lemma lock_step_holds:
  assumes "lock_step call now advance s a s'" and "a \<noteq> Some u" and "table_ok (view s)"
    and "holds m u e (view s k)" and "live m (now s') e"
  shows "holds m u e (view s' k)"
  using assms(1)
proof cases
  case (step_acquire ttl u' target)
  show ?thesis
  proof (cases "\<forall>k\<in>set (target_keys target). kind_ok (target_mode target) (view s k)")
    case True
    with step_acquire assms show ?thesis
      by (simp add: send_acquire_table table_acquire_holds)
  next
    case False
    with step_acquire assms(4) send_wrong_kind(1) [of target s u' ttl] show ?thesis by auto
  qed
next
  case (step_renew ttl u' target)
  show ?thesis
  proof (cases "\<forall>k\<in>set (target_keys target). kind_ok (target_mode target) (view s k)")
    case True
    with step_renew assms show ?thesis
      by (simp add: send_renew_table table_ok_def table_renew_holds)
  next
    case False
    with step_renew assms(4) send_wrong_kind(2) [of target s u' ttl] show ?thesis by auto
  qed
next
  case (step_release u' target)
  with assms show ?thesis by (simp add: send_release_table table_release_holds)
next
  case (step_tick d)
  with assms show ?thesis by (simp add: view_advance now_advance holds_expire)
qed

lemma lock_path_now: "lock_path call now advance P s s' \<Longrightarrow> now s \<le> now s'"
  by (induction rule: lock_path.induct) (auto dest: lock_step_now)

lemma lock_path_ok: "lock_path call now advance P s s' \<Longrightarrow> table_ok (view s) \<Longrightarrow> table_ok (view s')"
  by (induction rule: lock_path.induct) (auto dest: lock_step_ok)

lemma live_antimono: "live m t e \<Longrightarrow> t' \<le> t \<Longrightarrow> live m t' e"
  by (cases m) auto

lemma lock_path_holds:
  assumes "lock_path call now advance (\<lambda>a. a \<noteq> Some u) s s'" and "table_ok (view s)"
    and "holds m u e (view s k)" and "live m (now s') e"
  shows "holds m u e (view s' k)"
  using assms
proof (induction rule: lock_path.induct)
  case (path_refl s)
  then show ?case by simp
next
  case (path_step s t a s')
  have "live m (now t) e"
    using path_step.prems(3) lock_step_now [OF path_step.hyps(2)] by (rule live_antimono)
  with path_step show ?case
    using lock_step_holds [OF path_step.hyps(2,3) lock_path_ok [OF path_step.hyps(1)]] by simp
qed

end

end
