(* ===== verification/Server_Properties.thy ===== *)
theory Server_Properties
  imports Lock_Steps Mem_Redis
begin

text \<open>
  The properties of the scripts and of the lock table that they implement, stated for every server
  that keeps the contract of theory \<open>Redis\<close>. The witnesses run on the server of \<open>Mem_Redis\<close>.
\<close>

subsection \<open>Exclusion between holders\<close>

text \<open>Two modes conflict unless both read.\<close>

definition conflicts :: "lock_mode \<Rightarrow> lock_mode \<Rightarrow> bool" where
  "conflicts m m' \<longleftrightarrow> \<not> (m = Read_Mode \<and> m' = Read_Mode)"

lemma entry_exclusive:
  assumes "entry_ok x" and "holds m u e x" and "holds m' u' e' x" and "conflicts m m'"
  shows "m = m' \<and> u = u' \<and> e = e'"
proof (cases "m = Mutex_Mode \<or> m' = Mutex_Mode")
  case True
  with assms(2,3) show ?thesis by (cases m; cases m') auto
next
  case False
  have wr: "m' = Write_Mode \<and> u = u'"
    if w: "members_of x (member_of Write_Mode u) = Some (- e)" "0 < e"
      and h: "members_of x (member_of m' u') = Some sc" "m' \<noteq> Mutex_Mode" for m' u u' e sc
  proof -
    have "member_of m' u' = member_of Write_Mode u"
      using entry_ok_memberD(3) [OF assms(1) w(1) _ h(1)] w(2) by simp
    then show ?thesis using h(2) by (cases m') simp_all
  qed
  have "m = Write_Mode \<and> m' = Write_Mode \<and> u = u'"
    using assms(2-4) False wr [of u e m' u'] wr [of u' e' m u]
    by (cases m; cases m') (auto simp: conflicts_def)
  with assms(2,3) show ?thesis by auto
qed

text \<open>A live holder refuses a conflicting request.\<close>

lemma holds_blocks:
  assumes "holds m u e x" and "live m now e" and "conflicts m m'" and "kind_ok m' x" and "0 \<le> now"
  shows "blocked m' now x"
proof (cases m')
  case Mutex_Mode
  then show ?thesis using holds_not_None [OF assms(1)] by simp
next
  case Read_Mode
  with assms show ?thesis
    by (cases m)
      (auto simp: conflicts_def has_writer_def intro: exI [of _ "member_of Write_Mode u"] exI [of _ "- e"])
next
  case Write_Mode
  with assms show ?thesis using holds_blocks_write [OF assms(1,2)] by simp
qed

context redis_clock
begin

lemma acquire_holds:
  assumes "fst (send_acquire call target u ttl s) = Inr True" and "ttl_in_range (now s) ttl"
    and "k \<in> set (target_keys target)"
  shows "holds (target_mode target) u (expiry_at (now s) ttl)
    (view (snd (send_acquire call target u ttl s)) k)"
proof -
  have "\<forall>k\<in>set (target_keys target). kind_ok (target_mode target) (view s k)"
    using assms(1) send_wrong_kind(1) [of target s u ttl] by auto
  then have "fst (table_acquire target u (now s) ttl (view s))"
    "view (snd (send_acquire call target u ttl s)) = snd (table_acquire target u (now s) ttl (view s))"
    using assms(1,2) send_acquire_table [of s ttl target u] by simp_all
  then show ?thesis
    using assms(2,3) holds_taken [of "expiry_at (now s) ttl"]
    by (simp add: table_acquire_def all_or_nothing_def Let_def ttl_in_range_def expiry_at_def)
qed

lemma acquire_blocked:
  assumes "holds m u e (view s k)" and "live m (now s) e" and "k \<in> set (target_keys target)"
    and "conflicts m (target_mode target)" and "ttl_in_range (now s) ttl"
  shows "fst (send_acquire call target u' ttl s) \<noteq> Inr True"
proof (cases "\<forall>k\<in>set (target_keys target). kind_ok (target_mode target) (view s k)")
  case True
  have "blocked (target_mode target) (now s) (view s k)"
    using assms True by (intro holds_blocks) (auto simp: ttl_in_range_def)
  with assms True show ?thesis
    using send_acquire_table(1) [of s ttl target u'] by (auto simp: table_acquire_def Let_def)
next
  case False
  then show ?thesis using send_wrong_kind(1) [of target s u' ttl] by auto
qed

lemma lock_is_exclusive:
  assumes "fst (send_acquire call target u ttl s) = Inr True" and "ttl_in_range (now s) ttl"
    and "table_ok (view s)"
    and "lock_path call now advance (\<lambda>a. a \<noteq> Some u) (snd (send_acquire call target u ttl s)) s'"
    and "live (target_mode target) (now s') (expiry_at (now s) ttl)"
    and "k \<in> set (target_keys target)" and "k \<in> set (target_keys target')"
    and "conflicts (target_mode target) (target_mode target')" and "ttl_in_range (now s') ttl'"
  shows "fst (send_acquire call target' u' ttl' s') \<noteq> Inr True"
proof -
  have "holds (target_mode target) u (expiry_at (now s) ttl) (view s' k)"
    using assms(3,5) send_acquire_ok [OF assms(3,2)] acquire_holds [OF assms(1,2,6)]
    by (intro lock_path_holds [OF assms(4)]) auto
  then show ?thesis using assms by (intro acquire_blocked)
qed

end

text \<open>A command that did not succeed changes no live holder.\<close>

lemma holds_of_checked: "holds m u e (checked m' n x) \<Longrightarrow> holds m u e x"
proof (cases "m' = Mutex_Mode \<or> \<not> is_zset x")
  case True
  then show "holds m u e (checked m' n x) \<Longrightarrow> holds m u e x"
    by (cases m') (auto simp: purge_entry_def)
next
  case False
  then have c: "checked m' n x = put_zset x (zset_purge (- n) n (members_of x))"
    by (cases m') (auto simp: purge_entry_def)
  show "holds m u e (checked m' n x) \<Longrightarrow> holds m u e x"
    unfolding c
    by (cases m) (auto simp: put_zset_def zset_purge_Some split: if_splits)
qed

lemma holds_checked_iff: "live m n e \<Longrightarrow> holds m u e (checked m' n x) \<longleftrightarrow> holds m u e x"
  using holds_checked holds_of_checked by blast

lemma all_or_nothing_refused:
  "\<exists>k\<in>set ks. bad (v k) \<Longrightarrow> all_or_nothing bad look claim ks v k \<in> {v k, look (v k)}"
  by (auto simp: all_or_nothing_def update_at_apply)

context redis_clock
begin

lemma refused_acquire_holds:
  assumes "fst (send_acquire call target u ttl s) \<noteq> Inr True" and "ttl_in_range (now s) ttl"
    and "live m (now s) e"
  shows "holds m u' e (view (snd (send_acquire call target u ttl s)) k) \<longleftrightarrow> holds m u' e (view s k)"
proof (cases "\<forall>k\<in>set (target_keys target). kind_ok (target_mode target) (view s k)")
  case True
  let ?mode = "target_mode target"
  have "\<exists>k\<in>set (target_keys target). blocked ?mode (now s) (view s k)"
    using assms(1) send_acquire_table(1) [OF assms(2) True] by (auto simp: table_acquire_def Let_def)
  then have "view (snd (send_acquire call target u ttl s)) k \<in> {view s k, checked ?mode (now s) (view s k)}"
    using all_or_nothing_refused [of "target_keys target" "blocked ?mode (now s)"]
    by (simp add: send_acquire_table(2) [OF assms(2) True] table_acquire_def Let_def)
  then show ?thesis using assms(3) by (elim insertE emptyE) (simp_all add: holds_checked_iff)
next
  case False
  then show ?thesis using send_wrong_kind(1) [of target s u ttl] by auto
qed

lemma refused_renew_holds:
  assumes "fst (send_renew call target u ttl s) \<noteq> Inr True" and "ttl_in_range (now s) ttl"
    and "live m (now s) e"
  shows "holds m u' e (view (snd (send_renew call target u ttl s)) k) \<longleftrightarrow> holds m u' e (view s k)"
proof (cases "\<forall>k\<in>set (target_keys target). kind_ok (target_mode target) (view s k)")
  case True
  let ?mode = "target_mode target"
  have "\<exists>k\<in>set (target_keys target). \<not> owned ?mode (now s) u (view s k)"
    using assms(1) send_renew_table(1) [OF assms(2) True] by (auto simp: table_renew_def Let_def)
  then have "view (snd (send_renew call target u ttl s)) k \<in> {view s k, checked ?mode (now s) (view s k)}"
    using all_or_nothing_refused [of "target_keys target" "\<lambda>x. \<not> owned ?mode (now s) u x"]
    by (simp add: send_renew_table(2) [OF assms(2) True] table_renew_def Let_def)
  then show ?thesis using assms(3) by (elim insertE emptyE) (simp_all add: holds_checked_iff)
next
  case False
  then show ?thesis using send_wrong_kind(2) [of target s u ttl] by auto
qed

end

context redis_clock
begin

lemma reachable_exclusive:
  assumes "lock_path call now advance P s s'" and "table_ok (view s)"
    and "conflicts m m'" and "holds m u e (view s' k)" and "holds m' u' e' (view s' k)"
  shows "m = m' \<and> u = u' \<and> e = e'"
  using lock_path_ok [OF assms(1,2)] assms(3-5) by (intro entry_exclusive) (auto simp: table_ok_def)

lemma renew_iff_owned:
  assumes "ttl_in_range (now s) ttl"
    and "\<forall>k\<in>set (target_keys target). kind_ok (target_mode target) (view s k)"
  shows "fst (send_renew call target u ttl s) = Inr True \<longleftrightarrow>
    (\<forall>k\<in>set (target_keys target). owned (target_mode target) (now s) u (view s k))"
  using send_renew_table(1) [OF assms] by (simp add: table_renew_def Let_def)

lemma renew_holds:
  assumes "fst (send_renew call target u ttl s) = Inr True" and "ttl_in_range (now s) ttl"
    and "k \<in> set (target_keys target)"
  shows "holds (target_mode target) u (expiry_at (now s) ttl)
    (view (snd (send_renew call target u ttl s)) k)"
proof -
  have kinds: "\<forall>k\<in>set (target_keys target). kind_ok (target_mode target) (view s k)"
    using assms(1) send_wrong_kind(2) [of target s u ttl] by auto
  then have "\<forall>k\<in>set (target_keys target). owned (target_mode target) (now s) u (view s k)"
    using assms(1) renew_iff_owned [OF assms(2)] by blast
  then show ?thesis
    using assms(2,3) holds_taken [of "expiry_at (now s) ttl"]
    by (simp add: send_renew_table(2) [OF assms(2) kinds] table_renew_def all_or_nothing_def Let_def
        ttl_in_range_def expiry_at_def)
qed

lemma release_result:
  assumes "distinct (target_keys target)"
  shows "fst (send_release call target u s) =
    Inr (\<forall>k\<in>set (target_keys target). present (target_mode target) u (view s k))"
proof -
  let ?ks = "target_keys target" and ?own = "\<lambda>k. present (target_mode target) u (view s k)"
  have "card {k \<in> set ?ks. ?own k} = length ?ks \<longleftrightarrow> {k \<in> set ?ks. ?own k} = set ?ks"
    using distinct_card [OF assms] card_subset_eq [of "set ?ks" "{k \<in> set ?ks. ?own k}"] by auto
  then show ?thesis
    by (auto simp: send_release_table table_release_def Let_def)
qed

lemma release_drops:
  assumes "k \<in> set (target_keys target)"
  shows "\<not> present (target_mode target) u (view (snd (send_release call target u s)) k)"
  using assms
  by (cases "target_mode target")
    (auto simp: send_release_table table_release_def Let_def drop_mutex_def owns_mutex_def)

lemma release_keeps_others:
  assumes "u' \<noteq> u \<or> m \<noteq> target_mode target \<or> k \<notin> set (target_keys target)"
  shows "holds m u' e (view (snd (send_release call target u s)) k) \<longleftrightarrow> holds m u' e (view s k)"
proof -
  have "holds m u' e (dropped m' u x) \<longleftrightarrow> holds m u' e x" if "u' \<noteq> u \<or> m \<noteq> m'" for m' x
  proof (cases "m' = Mutex_Mode \<or> \<not> is_zset x")
    case True
    with that show ?thesis
      by (cases m'; cases m) (auto simp: drop_mutex_def drop_member_def owns_mutex_def)
  next
    case False
    then have d: "dropped m' u x = put_zset x ((members_of x)(member_of m' u := None))"
      by (cases m') (auto simp: drop_member_def)
    show ?thesis
    proof
      assume "holds m u' e x"
      moreover have "member_of m u' \<noteq> member_of m' u" if "m \<noteq> Mutex_Mode"
        using \<open>u' \<noteq> u \<or> m \<noteq> m'\<close> False that by (cases m; cases m') auto
      ultimately show "holds m u' e (dropped m' u x)"
        unfolding d using False by (cases "m = Mutex_Mode") (auto intro!: holds_put_zset)
    next
      assume "holds m u' e (dropped m' u x)"
      then show "holds m u' e x"
        unfolding d by (cases m) (auto simp: put_zset_def split: if_splits)
    qed
  qed
  then show ?thesis
    using assms by (auto simp: send_release_table table_release_def Let_def update_at_apply)
qed

lemma set_nx_script:
  assumes "ttl_in_range (now s) ttl"
  shows "fst (send_acquire call (Single k) u ttl s) = fst (send_acquire call (Multiple [k]) u ttl s) \<and>
    view (snd (send_acquire call (Single k) u ttl s)) = view (snd (send_acquire call (Multiple [k]) u ttl s))"
  using send_acquire_table [OF assms, of "Single k" u] send_acquire_table [OF assms, of "Multiple [k]" u]
  by (simp add: table_acquire_def)

text \<open>A read-write key all of whose holders are past their expiry can be acquired.\<close>

lemma acquire_after_expiry:
  assumes "table_ok (view s)" and "ttl_in_range (now s) ttl" and "target_mode target \<noteq> Mutex_Mode"
    and "\<forall>k\<in>set (target_keys target). \<forall>m u e. holds m u e (view s k) \<longrightarrow> \<not> live m (now s) e"
  shows "fst (send_acquire call target u ttl s) = Inr True"
proof -
  have free: "kind_ok (target_mode target) (view s k) \<and> \<not> blocked (target_mode target) (now s) (view s k)"
    if k: "k \<in> set (target_keys target)" for k
  proof -
    have ok: "entry_ok (view s k)" using assms(1) by (simp add: table_ok_def)
    have no_mutex: "view s k \<noteq> Some (RString v, Some t)" for v t
    proof
      assume v: "view s k = Some (RString v, Some t)"
      then have "\<not> live Mutex_Mode (now s) t" using assms(4) k by (metis holds.simps(1))
      then show False using view_live [OF v] by simp
    qed
    have stale: "- now s \<le> sc \<and> sc \<le> now s" if sc: "members_of (view s k) m = Some sc" for m sc
    proof (rule ccontr)
      assume n: "\<not> (- now s \<le> sc \<and> sc \<le> now s)"
      obtain u where "m = member_of Read_Mode u \<and> 0 < sc \<or> m = member_of Write_Mode u \<and> sc < 0"
        using entry_ok_memberD(2) [OF ok sc] by blast
      then show False
        using entry_ok_memberD(1) [OF ok sc] n sc assms(2)
          assms(4) [rule_format, OF k, of Read_Mode u sc]
          assms(4) [rule_format, OF k, of Write_Mode u "- sc"]
        by (auto simp: ttl_in_range_def)
    qed
    have "is_zset (view s k)" using ok no_mutex by (cases rule: entry_ok_cases) auto
    with stale assms(3) show ?thesis
      by (cases "target_mode target") (fastforce simp: has_writer_def has_holder_def)+
  qed
  then show ?thesis
    by (subst send_acquire_table(1) [OF assms(2)]) (auto simp: table_acquire_def Let_def)
qed

end

subsection \<open>Properties\<close>

declare send_acquire.simps [simp del]

text \<open>The server on which the witnesses run: empty at time 0, and one with a write lock on a key.\<close>

lemma mem_view_init [simp]: "mem_view (mem_init t) = (\<lambda>k. None)"
  by (simp add: fun_eq_iff mem_view_def mem_entry_def mem_init_def)

lemma m_now_init [simp]: "m_now (mem_init t) = t"
  by (simp add: mem_init_def)

lemma mem_ttl_in_range: "ttl_in_range 0 (from_millis 5)" "ttl_in_range 4 (from_millis 5)"
  by (simp_all add: ttl_in_range_def max_exact_def)

lemma mem_now_send [simp]:
  "m_now (snd (send_acquire mem_call target u ttl s)) = m_now s"
  by (rule mem.now_send)

lemma mem_acquire_free:
  "ttl_in_range 0 ttl \<Longrightarrow> fst (send_acquire mem_call target u ttl (mem_init 0)) = Inr True"
proof -
  assume range: "ttl_in_range 0 ttl"
  have "\<not> blocked m 0 None \<and> kind_ok m None" for m
    by (cases m) (simp_all add: has_writer_def has_holder_def)
  then show ?thesis
    using mem.send_acquire_table(1) [of "mem_init 0" ttl target u] range
    by (simp add: table_acquire_def Let_def)
qed

lemmas mem_facts = mem_ttl_in_range table_ok_empty mem_acquire_free

text \<open>
  C2: The commands implement the lock table. On keys of the right type, each of the three commands
  has the result and leaves the keys that the operation of the lock table gives, for every kind of
  target; a renewal answers either 1 or, when the table refuses it, 0 or an error.
\<close>

theorem commands_refine_table:
  assumes "redis_server call view now" and "ttl_in_range (now s) ttl"
    and "\<forall>k\<in>set (target_keys target). kind_ok (target_mode target) (view s k)"
  shows "fst (send_acquire call target u ttl s) = Inr (fst (table_acquire target u (now s) ttl (view s))) \<and>
    view (snd (send_acquire call target u ttl s)) = snd (table_acquire target u (now s) ttl (view s)) \<and>
    (fst (send_renew call target u ttl s) = Inr True \<longleftrightarrow> fst (table_renew target u (now s) ttl (view s))) \<and>
    view (snd (send_renew call target u ttl s)) = snd (table_renew target u (now s) ttl (view s)) \<and>
    fst (send_release call target u s) = Inr (fst (table_release target u (view s))) \<and>
    view (snd (send_release call target u s)) = snd (table_release target u (view s))"
  using redis_server.send_acquire_table [OF assms] redis_server.send_renew_table [OF assms]
    redis_server.send_release_table [OF assms(1)]
  by simp

theorem commands_refine_table_witness:
  "mem_view (snd (send_acquire mem_call (Read ''k'') ''u'' (from_millis 5) (mem_init 0))) ''k'' =
     Some (RZset [''r:u'' \<mapsto> 5], Some 5)"
  using commands_refine_table [OF mem.redis_server_axioms, of "mem_init 0" "from_millis 5" "Read ''k''" "''u''"]
  by (simp add: mem_facts table_acquire_def all_or_nothing_def Let_def has_writer_def taken_abs
      claim_read_def purge_entry_def put_zset_def expiry_at_def)

text \<open>
  C1: Mutual exclusion. Once a process acquired a target, no request of any process for a
  conflicting mode on a shared key succeeds while the lock is live, whatever commands the other
  processes send and however much time passes in between. Live means up to the expiry time for a
  mutex and before the expiry time for a read-write lock, counted from the server time of the
  acquisition.
\<close>

theorem mutual_exclusion:
  assumes "redis_clock call view now advance"
    and "fst (send_acquire call target u ttl s) = Inr True" and "ttl_in_range (now s) ttl"
    and "table_ok (view s)"
    and "lock_path call now advance (\<lambda>a. a \<noteq> Some u) (snd (send_acquire call target u ttl s)) s'"
    and "live (target_mode target) (now s') (expiry_at (now s) ttl)"
    and "k \<in> set (target_keys target)" and "k \<in> set (target_keys target')"
    and "conflicts (target_mode target) (target_mode target')" and "ttl_in_range (now s') ttl'"
  shows "fst (send_acquire call target' u' ttl' s') \<noteq> Inr True"
  by (rule redis_clock.lock_is_exclusive [OF assms])

theorem mutual_exclusion_witness:
  "fst (send_acquire mem_call (Read ''k'') ''v'' (from_millis 5)
     (mem_advance 4 (snd (send_acquire mem_call (MultipleWrite [''j'', ''k'']) ''u'' (from_millis 5) (mem_init 0)))))
   \<noteq> Inr True"
  by (rule mutual_exclusion [OF memc.redis_clock_axioms, where s = "mem_init 0" and ttl = "from_millis 5"
        and target = "MultipleWrite [''j'', ''k'']" and u = "''u''" and k = "''k''"])
    (simp_all add: mem_facts conflicts_def expiry_at_def memc.now_advance path_step [OF path_refl step_tick])

text \<open>
  C17: In every state that the commands of any processes and the clock reach from an empty server,
  two holders of one key in conflicting modes are the same holder: a mutex owner and a writer are
  alone on their key.
\<close>

theorem holders_exclusive:
  assumes "redis_clock call view now advance" and "view s = (\<lambda>k. None)"
    and "lock_path call now advance P s s'" and "conflicts m m'"
    and "holds m u e (view s' k)" and "holds m' u' e' (view s' k)"
  shows "m = m' \<and> u = u' \<and> e = e'"
  using assms redis_clock.reachable_exclusive [OF assms(1,3)] by (simp add: table_ok_empty)

text \<open>A writer is the only holder of its key, whatever other modes, owners and expiry times one asks for.\<close>

theorem holders_exclusive_witness:
  "{(m, w, e). holds m w e
     (mem_view (snd (send_acquire mem_call (Write ''k'') ''u'' (from_millis 5) (mem_init 0))) ''k'')} =
   {(Write_Mode, ''u'', 5)}"
proof -
  let ?s = "snd (send_acquire mem_call (Write ''k'') ''u'' (from_millis 5) (mem_init 0))"
  have path: "lock_path mem_call m_now mem_advance (\<lambda>_. True) (mem_init 0) ?s"
    by (intro path_step [OF path_refl step_acquire]) (simp_all add: mem_facts)
  have writer: "holds Write_Mode ''u'' 5 (mem_view ?s ''k'')"
    using memc.acquire_holds [of "Write ''k''" "''u''" "from_millis 5" "mem_init 0" "''k''"]
    by (simp add: mem_facts expiry_at_def)
  have "m = Write_Mode \<and> w = ''u'' \<and> e = 5" if "holds m w e (mem_view ?s ''k'')" for m w e
    using holders_exclusive [OF memc.redis_clock_axioms mem_view_init path _ writer that]
    by (auto simp: conflicts_def)
  with writer show ?thesis by blast
qed

text \<open>
  C16: A held lock is not lost. On every path that its owner takes no part in, a holder keeps its key
  with the same expiry until that expiry: no failed or successful command of another process, and
  no purge of expired members, removes it or shortens it.
\<close>

theorem holder_keeps_lock:
  assumes "redis_clock call view now advance" and "table_ok (view s)"
    and "lock_path call now advance (\<lambda>a. a \<noteq> Some u) s s'"
    and "holds m u e (view s k)" and "live m (now s') e"
  shows "holds m u e (view s' k)"
  by (rule redis_clock.lock_path_holds [OF assms(1,3,2,4,5)])

theorem holder_keeps_lock_witness:
  "holds Read_Mode ''u'' 5
     (mem_view (snd (send_release mem_call (Read ''k'') ''v''
        (snd (send_acquire mem_call (Read ''k'') ''u'' (from_millis 5) (mem_init 0))))) ''k'')"
proof (rule holder_keeps_lock [OF memc.redis_clock_axioms])
  let ?s = "snd (send_acquire mem_call (Read ''k'') ''u'' (from_millis 5) (mem_init 0))"
  show "table_ok (mem_view ?s)"
    by (rule memc.send_acquire_ok) (simp_all add: mem_facts)
  show "lock_path mem_call m_now mem_advance (\<lambda>a. a \<noteq> Some ''u'') ?s
      (snd (send_release mem_call (Read ''k'') ''v'' ?s))"
    by (rule path_step [OF path_refl step_release]) simp
  show "holds Read_Mode ''u'' 5 (mem_view ?s ''k'')"
    using memc.acquire_holds [of "Read ''k''" "''u''" "from_millis 5" "mem_init 0" "''k''"]
    by (simp add: mem_facts expiry_at_def)
qed simp

text \<open>
  A refused command takes nothing. An acquisition or renewal that does not succeed, with 0 or
  with an error, leaves every live holder of every key as it was, its own uuid included: there is
  no partial acquisition and no partial renewal of a multi-key lock.
\<close>

theorem refused_changes_nothing:
  assumes "redis_clock call view now advance" and "ttl_in_range (now s) ttl" and "live m (now s) e"
    and "(r, s') = send_acquire call target u ttl s \<or> (r, s') = send_renew call target u ttl s"
    and "r \<noteq> Inr True"
  shows "holds m u' e (view s' k) \<longleftrightarrow> holds m u' e (view s k)"
proof -
  have "fst (r, s') = r" "snd (r, s') = s'" by simp_all
  with assms(4) consider "r = fst (send_acquire call target u ttl s)" "s' = snd (send_acquire call target u ttl s)"
    | "r = fst (send_renew call target u ttl s)" "s' = snd (send_renew call target u ttl s)"
    by metis
  then show ?thesis
    using redis_clock.refused_acquire_holds [OF assms(1) _ assms(2,3), of target u]
      redis_clock.refused_renew_holds [OF assms(1) _ assms(2,3), of target u] assms(5)
    by cases simp_all
qed

theorem refused_changes_nothing_witness:
  "holds Mutex_Mode ''u'' 5
     (mem_view (snd (send_renew mem_call (Multiple [''k'', ''j'']) ''v'' (from_millis 5)
        (snd (send_acquire mem_call (Single ''k'') ''u'' (from_millis 5) (mem_init 0))))) ''k'') \<longleftrightarrow>
   holds Mutex_Mode ''u'' 5
     (mem_view (snd (send_acquire mem_call (Single ''k'') ''u'' (from_millis 5) (mem_init 0))) ''k'')"
proof (rule refused_changes_nothing [OF memc.redis_clock_axioms, where ttl = "from_millis 5"])
  let ?s = "snd (send_acquire mem_call (Single ''k'') ''u'' (from_millis 5) (mem_init 0))"
  let ?t = "Multiple [''k'', ''j'']"
  show "(fst (send_renew mem_call ?t ''v'' (from_millis 5) ?s),
      snd (send_renew mem_call ?t ''v'' (from_millis 5) ?s)) = send_acquire mem_call ?t ''v'' (from_millis 5) ?s \<or>
    (fst (send_renew mem_call ?t ''v'' (from_millis 5) ?s),
      snd (send_renew mem_call ?t ''v'' (from_millis 5) ?s)) = send_renew mem_call ?t ''v'' (from_millis 5) ?s"
    by simp
  have "holds Mutex_Mode ''u'' 5 (mem_view ?s ''k'')"
    using memc.acquire_holds [of "Single ''k''" "''u''" "from_millis 5" "mem_init 0" "''k''"]
    by (simp add: mem_facts expiry_at_def)
  then show "fst (send_renew mem_call ?t ''v'' (from_millis 5) ?s) \<noteq> Inr True"
    using memc.renew_iff_owned [of ?s "from_millis 5" ?t "''v''"]
    by (simp add: mem_facts owns_mutex_def)
qed (simp_all add: mem_facts)

text \<open>
  C25: Release. With distinct keys the command reports success exactly when the request was present
  on all of them; in every case the request is gone from all of them afterwards, and every other
  holder, of another uuid, another mode or another key, is untouched.
\<close>

theorem release_removes_own:
  assumes "redis_clock call view now advance" and "distinct (target_keys target)"
    and "k \<in> set (target_keys target)" and "u' \<noteq> u \<or> m \<noteq> target_mode target"
  shows "fst (send_release call target u s) =
      Inr (\<forall>k\<in>set (target_keys target). present (target_mode target) u (view s k)) \<and>
    \<not> present (target_mode target) u (view (snd (send_release call target u s)) k) \<and>
    (holds m u' e (view (snd (send_release call target u s)) j) \<longleftrightarrow> holds m u' e (view s j))"
  using redis_clock.release_result [OF assms(1,2)] redis_clock.release_drops [OF assms(1,3)]
    redis_clock.release_keeps_others [OF assms(1)] assms(4)
  by blast

theorem release_removes_own_witness:
  "fst (send_release mem_call (Write ''k'') ''u''
     (snd (send_acquire mem_call (Write ''k'') ''u'' (from_millis 5) (mem_init 0)))) = Inr True"
proof -
  let ?s = "snd (send_acquire mem_call (Write ''k'') ''u'' (from_millis 5) (mem_init 0))"
  have "present Write_Mode ''u'' (mem_view ?s ''k'')"
    using memc.acquire_holds [of "Write ''k''" "''u''" "from_millis 5" "mem_init 0" "''k''"]
    by (simp add: mem_facts expiry_at_def)
  then show ?thesis
    using release_removes_own [OF memc.redis_clock_axioms, of "Write ''k''" "''k''" "''v''" "''u''"
        Read_Mode ?s 0 "''k''"]
    by simp
qed

text \<open>A writer that is past its expiry.\<close>

lemma mem_writer_expired:
  fixes s defines "s \<equiv> mem_advance 5 (snd (send_acquire mem_call (Write ''k'') ''u'' (from_millis 5) (mem_init 0)))"
  shows "table_ok (mem_view s)" and "holds m u e (mem_view s ''k'') \<Longrightarrow> \<not> live m (m_now s) e"
proof -
  let ?s = "snd (send_acquire mem_call (Write ''k'') ''u'' (from_millis 5) (mem_init 0))"
  have ok: "table_ok (mem_view ?s)"
    by (rule memc.send_acquire_ok) (simp_all add: mem_facts)
  then show "table_ok (mem_view s)"
    unfolding s_def by (intro memc.advance_ok) simp_all
  have held: "holds Write_Mode ''u'' 5 (mem_view ?s ''k'')"
    using memc.acquire_holds [of "Write ''k''" "''u''" "from_millis 5" "mem_init 0" "''k''"]
    by (simp add: mem_facts expiry_at_def)
  assume h: "holds m u e (mem_view s ''k'')"
  then have "holds m u e (mem_view ?s ''k'')"
    by (cases m) (auto simp: s_def memc.view_advance expire_at_def split: option.splits if_splits)
  from entry_exclusive [OF _ held this] ok have "m = Write_Mode \<and> e = 5"
    by (simp add: table_ok_def conflicts_def)
  then show "\<not> live m (m_now s) e"
    by (simp add: s_def memc.now_advance)
qed

text \<open>
  A crashed holder does not block a read-write lock for ever. Once every holder of the keys is
  past its expiry, any read or write request on them succeeds.
\<close>

theorem expired_lock_is_free:
  assumes "redis_clock call view now advance" and "table_ok (view s)" and "ttl_in_range (now s) ttl"
    and "target_mode target \<noteq> Mutex_Mode"
    and "\<forall>k\<in>set (target_keys target). \<forall>m u e. holds m u e (view s k) \<longrightarrow> \<not> live m (now s) e"
  shows "fst (send_acquire call target u ttl s) = Inr True"
  by (rule redis_clock.acquire_after_expiry [OF assms])

theorem expired_lock_is_free_witness:
  "fst (send_acquire mem_call (Read ''k'') ''v'' (from_millis 5)
     (mem_advance 5 (snd (send_acquire mem_call (Write ''k'') ''u'' (from_millis 5) (mem_init 0))))) = Inr True"
proof (rule expired_lock_is_free [OF memc.redis_clock_axioms mem_writer_expired(1)])
  show "\<forall>k\<in>set (target_keys (Read ''k'')). \<forall>m u e.
      holds m u e (mem_view (mem_advance 5 (snd (send_acquire mem_call (Write ''k'') ''u'' (from_millis 5) (mem_init 0)))) k) \<longrightarrow>
      \<not> live m (m_now (mem_advance 5 (snd (send_acquire mem_call (Write ''k'') ''u'' (from_millis 5) (mem_init 0))))) e"
    using mem_writer_expired(2) by simp
qed (simp_all add: memc.now_advance ttl_in_range_def max_exact_def)

text \<open>
  C26: \<open>SET NX PX\<close> and the acquisition script agree. A single-key mutex, acquired with one \<open>SET\<close>,
  has the same result and leaves the same keys as the script for a multi-key mutex on that one key.
\<close>

theorem set_nx_is_script:
  assumes "redis_clock call view now advance" and "ttl_in_range (now s) ttl"
  shows "fst (send_acquire call (Single k) u ttl s) = fst (send_acquire call (Multiple [k]) u ttl s) \<and>
    view (snd (send_acquire call (Single k) u ttl s)) = view (snd (send_acquire call (Multiple [k]) u ttl s))"
  by (rule redis_clock.set_nx_script [OF assms])

theorem set_nx_is_script_witness:
  "fst (send_acquire mem_call (Multiple [''k'']) ''u'' (from_millis 5) (mem_init 0)) = Inr True"
  using set_nx_is_script [OF memc.redis_clock_axioms, of "mem_init 0" "from_millis 5" "''k''" "''u''"]
  by (simp add: mem_facts)

text \<open>
  C27: Arguments are validated before any write. A script that takes a TTL, called with a TTL that is
  not a decimal number from 1 to \<open>2 ^ 53 - 1\<close>, or a read-write script whose expiry would leave
  that range or one of whose keys is not a sorted set, ends with an error and changes no key.
\<close>

theorem invalid_arguments_change_nothing:
  assumes "redis_server call view now"
    and "(script \<in> {SCRIPT_ACQUIRE_LOCK, SCRIPT_RENEW_LOCK} \<and>
        \<not> (\<exists>raw ttl. lua_index ARGV 2 = Some raw \<and> valid_ttl raw ttl)) \<or>
      (script \<in> {SCRIPT_ACQUIRE_READ_LOCK, SCRIPT_RENEW_READ_LOCK,
          SCRIPT_ACQUIRE_WRITE_LOCK, SCRIPT_RENEW_WRITE_LOCK} \<and>
        (\<not> (\<exists>raw ttl. lua_index ARGV 2 = Some raw \<and> rw_args (now s) raw ttl) \<or>
         (\<exists>k\<in>set ks. \<not> is_zset (view s k))))"
  shows "(\<exists>msg. fst (script call ks ARGV s) = Inl msg) \<and> view (snd (script call ks ARGV s)) = view s"
  using assms(2) redis_server.mutex_script_bad [OF assms(1), of ARGV script ks s]
    redis_server.rw_script_bad [OF assms(1), of ARGV s ks script]
  by (elim disjE conjE) auto

theorem invalid_arguments_change_nothing_witness:
  "(\<exists>msg. fst (SCRIPT_ACQUIRE_WRITE_LOCK mem_call [''k''] [''u'', ''0''] (mem_init 7)) = Inl msg) \<and>
   mem_view (snd (SCRIPT_ACQUIRE_WRITE_LOCK mem_call [''k''] [''u'', ''0''] (mem_init 7))) = mem_view (mem_init 7)"
  by (rule invalid_arguments_change_nothing [OF mem.redis_server_axioms])
    (simp add: rw_args_def valid_ttl_def)

end
