(* ===== verification/Lease.thy ===== *)
theory Lease
  imports Prelude
begin

text \<open>
  The lease of \<open>src/lease.rs\<close>: what a process knows locally about the lock it holds. The data is
  behind a mutex, so every operation is one atomic step; every reading of the clock inside an
  operation (\<open>start.elapsed()\<close>) is an argument of its own, in the order of the code. \<open>l_changed\<close>
  counts the \<open>notify\<close> calls of the watch channel.
\<close>

subsection \<open>State\<close>

datatype lease_state = Active | Lost | Released

text \<open>The order in which a lease moves through its states.\<close>

fun lease_rank :: "lease_state \<Rightarrow> nat" where
  "lease_rank Active = 0"
| "lease_rank Lost = 1"
| "lease_rank Released = 2"

lemma lease_rank_eq_iff [simp]: "lease_rank a = lease_rank b \<longleftrightarrow> a = b"
  by (cases a; cases b) simp_all

instantiation lease_state :: linorder
begin

definition less_eq_lease_state :: "lease_state \<Rightarrow> lease_state \<Rightarrow> bool" where
  "less_eq_lease_state a b \<longleftrightarrow> lease_rank a \<le> lease_rank b"

definition less_lease_state :: "lease_state \<Rightarrow> lease_state \<Rightarrow> bool" where
  "less_lease_state a b \<longleftrightarrow> lease_rank a < lease_rank b"

instance
  by standard (auto simp: less_eq_lease_state_def less_lease_state_def simp flip: lease_rank_eq_iff)

end

lemma lease_state_order [simp]:
  "Active \<le> x" "x \<le> Released" "Lost \<le> Active \<longleftrightarrow> False" "Released \<le> Lost \<longleftrightarrow> False"
  "Released \<le> Active \<longleftrightarrow> False"
  by (cases x; simp add: less_eq_lease_state_def)+

record lease =
  l_state :: lease_state
  l_start :: instant
  l_ttl :: duration
  l_changed :: nat

subsection \<open>Operations\<close>

definition lease_new :: "instant \<Rightarrow> duration \<Rightarrow> lease" where
  "lease_new start ttl = \<lparr>l_state = Active, l_start = start, l_ttl = ttl, l_changed = 0\<rparr>"

definition lease_notify :: "lease \<Rightarrow> lease" where
  "lease_notify l = l\<lparr>l_changed := Suc (l_changed l)\<rparr>"

definition lease_refresh :: "instant \<Rightarrow> lease \<Rightarrow> lease" where
  "lease_refresh now l =
     (if l_state l = Active \<and> l_ttl l \<le> elapsed now (l_start l)
      then lease_notify (l\<lparr>l_state := Lost\<rparr>) else l)"

definition lease_get_state :: "instant \<Rightarrow> lease \<Rightarrow> lease_state \<times> lease" where
  "lease_get_state now l = (let l' = lease_refresh now l in (l_state l', l'))"

definition lease_remaining :: "instant \<Rightarrow> instant \<Rightarrow> lease \<Rightarrow> duration \<times> lease" where
  "lease_remaining now1 now2 l =
     (let l' = lease_refresh now1 l in
      (if l_state l' = Active then l_ttl l' - elapsed now2 (l_start l') else 0, l'))"

definition lease_renew ::
    "instant \<Rightarrow> instant \<Rightarrow> instant \<Rightarrow> duration \<Rightarrow> lease \<Rightarrow> bool \<times> lease" where
  "lease_renew now1 now2 start ttl l =
     (let l' = lease_refresh now1 l in
      if l_state l' \<noteq> Active then (False, l')
      else if ttl \<le> elapsed now2 start then (False, lease_notify (l'\<lparr>l_state := Lost\<rparr>))
      else (True, lease_notify (l'\<lparr>l_start := start, l_ttl := ttl\<rparr>)))"

definition lease_lose :: "lease \<Rightarrow> lease" where
  "lease_lose l = (if l_state l = Active then lease_notify (l\<lparr>l_state := Lost\<rparr>) else l)"

definition lease_release :: "lease \<Rightarrow> lease" where
  "lease_release l = lease_notify (l\<lparr>l_state := Released\<rparr>)"

lemmas [lease_simps] =
  lease_notify_def lease_refresh_def lease_get_state_def lease_remaining_def lease_renew_def
  lease_lose_def lease_release_def Let_def elapsed_def

text \<open>The deadline: the first instant at which the lease is no longer active.\<close>

definition lease_deadline :: "lease \<Rightarrow> instant" where
  "lease_deadline l = l_start l + l_ttl l"

subsection \<open>Facts\<close>

lemma lease_refresh_state:
  "l_state (lease_refresh now l) =
     (if l_state l = Active \<and> (l_ttl l = 0 \<or> lease_deadline l \<le> now) then Lost else l_state l)"
  by (auto simp: lease_simps lease_deadline_def)

lemma lease_refresh_active_iff:
  "l_state (lease_refresh now l) = Active \<longleftrightarrow> l_state l = Active \<and> now - l_start l < l_ttl l"
  by (auto simp: lease_simps)

lemma lease_refresh_inactive: "l_state l \<noteq> Active \<Longrightarrow> lease_refresh now l = l"
  by (simp add: lease_simps)

lemma lease_refresh_data [simp]:
  "l_start (lease_refresh now l) = l_start l" "l_ttl (lease_refresh now l) = l_ttl l"
  by (simp_all add: lease_simps)

text \<open>Every operation moves the state up: \<open>Active\<close>, then \<open>Lost\<close>, then \<open>Released\<close>.\<close>

lemma lease_monotone:
  "l_state l \<le> l_state (lease_refresh now l)"
  "l_state l \<le> l_state (snd (lease_get_state now l))"
  "l_state l \<le> l_state (snd (lease_remaining now now2 l))"
  "l_state l \<le> l_state (snd (lease_renew now now2 start ttl l))"
  "l_state l \<le> l_state (lease_lose l)"
  "l_state l \<le> l_state (lease_release l)"
  by (cases "l_state l"; simp add: lease_simps)+

text \<open>A waiter is notified whenever the state changes.\<close>

lemma lease_notifies:
  "l_state (lease_refresh now l) \<noteq> l_state l \<Longrightarrow> l_changed l < l_changed (lease_refresh now l)"
  "l_state (snd (lease_renew now now2 start ttl l)) \<noteq> l_state l \<Longrightarrow>
     l_changed l < l_changed (snd (lease_renew now now2 start ttl l))"
  "l_state (lease_lose l) \<noteq> l_state l \<Longrightarrow> l_changed l < l_changed (lease_lose l)"
  "l_changed l < l_changed (lease_release l)"
  by (auto simp: lease_simps split: if_splits)

lemma lease_renew_True:
  assumes "fst (lease_renew now1 now2 start ttl l)"
  shows "l_state l = Active" and "l_state (snd (lease_renew now1 now2 start ttl l)) = Active"
    and "l_start (snd (lease_renew now1 now2 start ttl l)) = start"
    and "l_ttl (snd (lease_renew now1 now2 start ttl l)) = ttl"
    and "now1 - l_start l < l_ttl l" and "now2 - start < ttl"
  using assms by (auto simp: lease_simps split: if_splits)

lemma lease_renew_False:
  "\<not> fst (lease_renew now1 now2 start ttl l) \<Longrightarrow>
     l_state (snd (lease_renew now1 now2 start ttl l)) \<noteq> Active"
  by (auto simp: lease_simps split: if_splits)

lemma lease_remaining_pos_iff:
  "now1 \<le> now2 \<Longrightarrow> 0 < fst (lease_remaining now1 now2 l) \<longleftrightarrow>
     l_state l = Active \<and> now2 - l_start l < l_ttl l"
  by (auto simp: lease_simps)

subsection \<open>Histories of a lease\<close>

text \<open>The operations that the tasks sharing a lease perform, in the order of its mutex.\<close>

datatype lease_op =
    Op_State instant
  | Op_Remaining instant instant
  | Op_Renew instant instant instant duration
  | Op_Lose
  | Op_Release

fun lease_apply :: "lease_op \<Rightarrow> lease \<Rightarrow> lease" where
  "lease_apply (Op_State now) l = snd (lease_get_state now l)"
| "lease_apply (Op_Remaining now1 now2) l = snd (lease_remaining now1 now2 l)"
| "lease_apply (Op_Renew now1 now2 start ttl) l = snd (lease_renew now1 now2 start ttl l)"
| "lease_apply Op_Lose l = lease_lose l"
| "lease_apply Op_Release l = lease_release l"

definition lease_run :: "lease_op list \<Rightarrow> lease \<Rightarrow> lease" where
  "lease_run ops l = foldl (\<lambda>l op. lease_apply op l) l ops"

lemma lease_run_simps [simp]:
  "lease_run [] l = l" "lease_run (op # ops) l = lease_run ops (lease_apply op l)"
  by (simp_all add: lease_run_def)

lemma lease_run_append: "lease_run (xs @ ys) l = lease_run ys (lease_run xs l)"
  by (simp add: lease_run_def)

lemma lease_apply_monotone: "l_state l \<le> l_state (lease_apply op l)"
  by (cases op) (simp_all add: lease_monotone)

lemma lease_run_monotone: "l_state l \<le> l_state (lease_run ops l)"
  by (induction ops arbitrary: l) (auto intro: order_trans lease_apply_monotone)

lemma lease_apply_deadline:
  "l_state (lease_apply op l) = Active \<Longrightarrow>
     lease_deadline (lease_apply op l) = lease_deadline l \<or>
     (\<exists>now1 now2 start ttl. op = Op_Renew now1 now2 start ttl \<and>
        lease_deadline (lease_apply op l) = start + ttl)"
  by (cases op) (auto simp: lease_simps lease_deadline_def split: if_splits)

subsection \<open>Waiting until the lease is inactive\<close>

text \<open>
  One pass of the loop in \<open>wait_until_inactive\<close>: the clock readings of \<open>state\<close> and \<open>remaining\<close>, and
  what the other tasks do to the lease until the \<open>select!\<close> wakes up. The loop runs over the list of
  its passes; an exhausted list means that it still waits.
\<close>

record wait_pass =
  wp_state_now :: instant
  wp_remaining_now1 :: instant
  wp_remaining_now2 :: instant
  wp_others :: "lease_op list"

definition max_sleep :: duration where
  "max_sleep = from_secs 86400"

definition wait_sleep :: "wait_pass \<Rightarrow> lease \<Rightarrow> duration" where
  "wait_sleep p l =
     min (fst (lease_remaining (wp_remaining_now1 p) (wp_remaining_now2 p)
                 (snd (lease_get_state (wp_state_now p) l)))) max_sleep"

definition wait_next :: "wait_pass \<Rightarrow> lease \<Rightarrow> lease" where
  "wait_next p l =
     lease_run (wp_others p)
       (snd (lease_remaining (wp_remaining_now1 p) (wp_remaining_now2 p)
               (snd (lease_get_state (wp_state_now p) l))))"

fun wait_until_inactive :: "wait_pass list \<Rightarrow> lease \<Rightarrow> (lease_state \<times> lease) option" where
  "wait_until_inactive [] l = None"
| "wait_until_inactive (p # ps) l =
     (case lease_get_state (wp_state_now p) l of (st, l') \<Rightarrow>
       if st \<noteq> Active then Some (st, l') else wait_until_inactive ps (wait_next p l))"

text \<open>
  The passes of a waiting task that nobody disturbs: the clock does not run backwards, and the next
  pass starts after the sleep.
\<close>

fun undisturbed :: "wait_pass list \<Rightarrow> lease \<Rightarrow> bool" where
  "undisturbed (p # q # ps) l =
     (wp_others p = [] \<and>
      wp_state_now p \<le> wp_remaining_now1 p \<and> wp_remaining_now1 p \<le> wp_remaining_now2 p \<and>
      wp_remaining_now2 p + wait_sleep p l \<le> wp_state_now q \<and>
      undisturbed (q # ps) (wait_next p l))"
| "undisturbed ps l = True"

lemma max_sleep_pos [simp]: "0 < max_sleep"
  by (simp add: max_sleep_def from_secs_def from_millis_def nanos_per_milli_def)

lemma lease_get_state_expired:
  "l_state l = Active \<Longrightarrow> l_start l \<le> now \<Longrightarrow> lease_deadline l \<le> now \<Longrightarrow>
     fst (lease_get_state now l) = Lost"
  by (auto simp: lease_simps lease_deadline_def)

lemma lease_get_state_active:
  "fst (lease_get_state now l) = Active \<Longrightarrow> snd (lease_get_state now l) = l \<and> l_state l = Active"
  by (auto simp: lease_simps split: if_splits)

text \<open>After an undisturbed sleep the lease has expired, or a whole \<open>max_sleep\<close> has passed.\<close>

lemma wait_next_deadline:
  assumes "fst (lease_get_state (wp_state_now p) l) = Active" and "wp_others p = []"
    and "l_start l \<le> wp_state_now p" and "wp_state_now p \<le> wp_remaining_now1 p"
    and "wp_remaining_now1 p \<le> wp_remaining_now2 p"
    and "wp_remaining_now2 p + wait_sleep p l \<le> now"
  shows "l_start (wait_next p l) = l_start l \<and> lease_deadline (wait_next p l) = lease_deadline l \<and>
    (l_state (wait_next p l) = Active \<or> l_state (wait_next p l) = Lost) \<and>
    (l_state (wait_next p l) = Active \<longrightarrow> lease_deadline l \<le> now \<or> wp_state_now p + max_sleep \<le> now)"
  using assms lease_get_state_active [OF assms(1)]
  by (auto simp: wait_next_def wait_sleep_def lease_simps lease_deadline_def min_def split: if_splits)

lemma wait_until_inactive_lost:
  "l_state l = Lost \<Longrightarrow> ps \<noteq> [] \<Longrightarrow> wait_until_inactive ps l = Some (Lost, l)"
  by (cases ps) (simp_all add: lease_get_state_def lease_refresh_inactive)

lemma wait_until_inactive_returns:
  assumes "undisturbed ps l" and "l_state l = Active" and "l_start l \<le> wp_state_now (hd ps)"
    and "lease_deadline l \<le> wp_state_now (hd ps) + n * max_sleep" and "n < length ps"
  shows "\<exists>l'. wait_until_inactive ps l = Some (Lost, l')"
  using assms
proof (induction n arbitrary: ps l)
  case 0
  then obtain p qs where ps: "ps = p # qs" by (cases ps) auto
  have "fst (lease_get_state (wp_state_now p) l) = Lost"
    using 0 by (intro lease_get_state_expired) (simp_all add: ps)
  then show ?case by (auto simp: ps split: prod.splits)
next
  case (Suc n)
  then obtain p q qs where ps: "ps = p # q # qs" by (cases ps; cases "tl ps") auto
  let ?l = "wait_next p l"
  show ?case
  proof (cases "fst (lease_get_state (wp_state_now p) l) = Active")
    case False
    with Suc.prems(2) have "fst (lease_get_state (wp_state_now p) l) = Lost"
      by (auto simp: lease_simps split: if_splits)
    then show ?thesis by (auto simp: ps split: prod.splits)
  next
    case True
    then have go: "wait_until_inactive ps l = wait_until_inactive (q # qs) ?l"
      by (auto simp: ps split: prod.splits)
    have after: "l_start ?l = l_start l" "lease_deadline ?l = lease_deadline l"
      "l_state ?l = Active \<or> l_state ?l = Lost"
      "l_state ?l = Active \<longrightarrow> lease_deadline l \<le> wp_state_now q \<or> wp_state_now p + max_sleep \<le> wp_state_now q"
      using wait_next_deadline [OF True, of "wp_state_now q"] Suc.prems(1,3) by (auto simp: ps)
    show ?thesis
    proof (cases "l_state ?l = Active")
      case False
      with after(3) wait_until_inactive_lost [of ?l "q # qs"] go show ?thesis by auto
    next
      case active: True
      have "lease_deadline ?l \<le> wp_state_now q + n * max_sleep"
        using after active Suc.prems(4) by (auto simp: ps)
      moreover have "l_start ?l \<le> wp_state_now q"
        using after(1) Suc.prems(1,3) by (auto simp: ps)
      ultimately show ?thesis
        using Suc.IH [of "q # qs" ?l] Suc.prems(1,5) active go by (simp add: ps)
    qed
  qed
qed

subsection \<open>Properties\<close>

text \<open>
  A lease moves from \<open>Active\<close> to \<open>Lost\<close> to \<open>Released\<close> and never back, through any history of
  the operations of the tasks that share it, with any readings of the clock: a lease that was once
  reported lost is never reported active again, not even by a late renewal.
\<close>

theorem lease_never_revives: "l_state l \<le> l_state (lease_run ops l)"
  by (rule lease_run_monotone)

text \<open>
  C35: Waiting ends. If nobody touches the lease, \<open>wait_until_inactive\<close> returns \<open>Lost\<close> once the
  deadline has passed, after at most one pass per day of remaining time, although one sleep is
  capped at a day.
\<close>

theorem wait_until_inactive_ends:
  assumes "undisturbed ps l" and "l_state l = Active" and "l_start l \<le> wp_state_now (hd ps)"
    and "(lease_deadline l - wp_state_now (hd ps)) div max_sleep + 1 < length ps"
  shows "\<exists>l'. wait_until_inactive ps l = Some (Lost, l')"
proof (rule wait_until_inactive_returns [OF assms(1-3) _ assms(4)])
  have "lease_deadline l - wp_state_now (hd ps) <
      ((lease_deadline l - wp_state_now (hd ps)) div max_sleep + 1) * max_sleep"
    using dividend_less_div_times [OF max_sleep_pos] by (simp add: add.commute)
  then show "lease_deadline l \<le> wp_state_now (hd ps) +
      ((lease_deadline l - wp_state_now (hd ps)) div max_sleep + 1) * max_sleep"
    by linarith
qed

definition wait_example :: "wait_pass list" where
  "wait_example =
     [\<lparr>wp_state_now = 1, wp_remaining_now1 = 1, wp_remaining_now2 = 2, wp_others = []\<rparr>,
      \<lparr>wp_state_now = 5, wp_remaining_now1 = 6, wp_remaining_now2 = 6, wp_others = []\<rparr>]"

theorem wait_until_inactive_ends_witness:
  "\<exists>l'. wait_until_inactive wait_example (lease_new 0 5) = Some (Lost, l')"
  by (rule wait_until_inactive_ends)
    (simp_all add: wait_example_def lease_new_def lease_simps wait_sleep_def wait_next_def
      lease_deadline_def max_sleep_def from_secs_def from_millis_def nanos_per_milli_def)

end
