(* ===== verification/Options.thy ===== *)
theory Options
  imports Prelude
begin

text \<open>
  The acquisition options of \<open>src/options.rs\<close>: the validated record \<open>AcquireOptions\<close>, its builder
  with one setter per field, and the validation in \<open>build\<close>. The error of a failed validation is
  the first check that fails, in the order of the code.
\<close>

subsection \<open>Options, builder and errors\<close>

datatype renewal_mode = Disabled | Auto | Interval duration

record acquire_options =
  ao_retry_interval :: duration
  ao_lock_timeout :: "duration option"
  ao_ttl :: duration
  ao_renew_interval :: "duration option option"

record acquire_options_builder =
  ab_retry_interval :: duration
  ab_lock_timeout :: "duration option"
  ab_ttl :: duration
  ab_renew_interval :: "duration option option"

datatype options_build_error =
    TtlTooShort
  | TtlTooLong
  | RetryIntervalIsZero
  | RenewIntervalTooShort
  | RenewIntervalNotLessThanTtl

fun options_build_error_display :: "options_build_error \<Rightarrow> string" where
  "options_build_error_display TtlTooShort = ''ttl must be at least 1 millisecond''"
| "options_build_error_display TtlTooLong = ''ttl exceeds the exact integer range of Lua''"
| "options_build_error_display RetryIntervalIsZero = ''retry_interval must not be zero''"
| "options_build_error_display RenewIntervalTooShort = ''renew_interval must be at least 1 millisecond''"
| "options_build_error_display RenewIntervalNotLessThanTtl =
     ''renew_interval must be shorter than the effective ttl''"

definition DEFAULT_RETRY_INTERVAL :: duration where
  "DEFAULT_RETRY_INTERVAL = from_millis 100"

definition DEFAULT_LOCK_TIMEOUT :: "duration option" where
  "DEFAULT_LOCK_TIMEOUT = None"

definition DEFAULT_TTL :: duration where
  "DEFAULT_TTL = from_secs 10"

definition DEFAULT_RENEW_INTERVAL :: "duration option option" where
  "DEFAULT_RENEW_INTERVAL = Some None"

definition MAX_TTL_MILLIS :: nat where
  "MAX_TTL_MILLIS = 2 ^ 53 - 1"

subsection \<open>\<open>AcquireOptions\<close>\<close>

definition options_new :: acquire_options where
  "options_new =
     \<lparr>ao_retry_interval = DEFAULT_RETRY_INTERVAL, ao_lock_timeout = DEFAULT_LOCK_TIMEOUT,
      ao_ttl = DEFAULT_TTL, ao_renew_interval = DEFAULT_RENEW_INTERVAL\<rparr>"

definition options_default :: acquire_options where
  "options_default = options_new"

definition options_renewal_mode :: "acquire_options \<Rightarrow> renewal_mode" where
  "options_renewal_mode opts =
     (case ao_renew_interval opts of
        None \<Rightarrow> Disabled
      | Some None \<Rightarrow> Auto
      | Some (Some interval) \<Rightarrow> Interval interval)"

definition effective_ttl :: "acquire_options \<Rightarrow> duration" where
  "effective_ttl opts = from_millis (as_u64 (as_millis (ao_ttl opts)))"

definition effective_renew_interval :: "acquire_options \<Rightarrow> duration option" where
  "effective_renew_interval opts =
     map_option
       (\<lambda>interval. case interval of None \<Rightarrow> effective_ttl opts div 2 | Some d \<Rightarrow> d)
       (ao_renew_interval opts)"

subsection \<open>\<open>AcquireOptionsBuilder\<close>\<close>

definition builder_new :: acquire_options_builder where
  "builder_new =
     \<lparr>ab_retry_interval = DEFAULT_RETRY_INTERVAL, ab_lock_timeout = DEFAULT_LOCK_TIMEOUT,
      ab_ttl = DEFAULT_TTL, ab_renew_interval = DEFAULT_RENEW_INTERVAL\<rparr>"

definition builder_default :: acquire_options_builder where
  "builder_default = builder_new"

definition options_builder :: acquire_options_builder where
  "options_builder = builder_new"

definition set_retry_interval :: "duration \<Rightarrow> acquire_options_builder \<Rightarrow> acquire_options_builder" where
  "set_retry_interval d b = b\<lparr>ab_retry_interval := d\<rparr>"

definition set_lock_timeout :: "duration option \<Rightarrow> acquire_options_builder \<Rightarrow> acquire_options_builder" where
  "set_lock_timeout d b = b\<lparr>ab_lock_timeout := d\<rparr>"

definition set_ttl :: "duration \<Rightarrow> acquire_options_builder \<Rightarrow> acquire_options_builder" where
  "set_ttl d b = b\<lparr>ab_ttl := d\<rparr>"

definition set_renew_interval ::
    "duration option option \<Rightarrow> acquire_options_builder \<Rightarrow> acquire_options_builder" where
  "set_renew_interval d b = b\<lparr>ab_renew_interval := d\<rparr>"

definition set_renewal_mode :: "renewal_mode \<Rightarrow> acquire_options_builder \<Rightarrow> acquire_options_builder" where
  "set_renewal_mode mode b =
     b\<lparr>ab_renew_interval :=
         (case mode of Disabled \<Rightarrow> None | Auto \<Rightarrow> Some None | Interval interval \<Rightarrow> Some (Some interval))\<rparr>"

definition options_build ::
    "acquire_options_builder \<Rightarrow> (options_build_error, acquire_options) result" where
  "options_build b =
     (if as_millis (ab_ttl b) = 0 then Inl TtlTooShort
      else if MAX_TTL_MILLIS < as_millis (ab_ttl b) then Inl TtlTooLong
      else
        (let effective_ttl = from_millis (as_u64 (as_millis (ab_ttl b)));
             built = Inr \<lparr>ao_retry_interval = ab_retry_interval b, ao_lock_timeout = ab_lock_timeout b,
                          ao_ttl = ab_ttl b, ao_renew_interval = ab_renew_interval b\<rparr>
         in
           if ab_retry_interval b = 0 then Inl RetryIntervalIsZero
           else
             (case ab_renew_interval b of
                None \<Rightarrow> built
              | Some interval \<Rightarrow>
                  (let renew_interval = (case interval of None \<Rightarrow> effective_ttl div 2 | Some d \<Rightarrow> d)
                   in
                     if as_millis renew_interval = 0 then Inl RenewIntervalTooShort
                     else if effective_ttl \<le> renew_interval then Inl RenewIntervalNotLessThanTtl
                     else built))))"

subsection \<open>What a built value satisfies\<close>

text \<open>
  The contract of \<open>AcquireOptions\<close>: a TTL of whole milliseconds that the scripts accept, a
  positive retry interval, and a renewal interval strictly between zero and the TTL.
\<close>

definition options_ok :: "acquire_options \<Rightarrow> bool" where
  "options_ok opts \<longleftrightarrow>
     1 \<le> as_millis (ao_ttl opts) \<and> as_millis (ao_ttl opts) \<le> MAX_TTL_MILLIS \<and>
     0 < ao_retry_interval opts \<and>
     (case effective_renew_interval opts of
        None \<Rightarrow> True
      | Some d \<Rightarrow> from_millis 1 \<le> d \<and> d < effective_ttl opts)"

lemma as_millis_pos_iff: "0 < as_millis d \<longleftrightarrow> from_millis 1 \<le> d"
  using as_millis_0_iff [of d] by (auto simp: from_millis_def)

lemma effective_ttl_bounded:
  "as_millis (ao_ttl opts) \<le> MAX_TTL_MILLIS \<Longrightarrow>
     effective_ttl opts = from_millis (as_millis (ao_ttl opts))"
  by (simp add: effective_ttl_def as_u64_def MAX_TTL_MILLIS_def)

lemma as_millis_effective_ttl:
  "options_ok opts \<Longrightarrow> as_millis (effective_ttl opts) = as_millis (ao_ttl opts)"
  by (simp add: options_ok_def effective_ttl_bounded)

lemma effective_ttl_pos: "options_ok opts \<Longrightarrow> from_millis 1 \<le> effective_ttl opts"
  by (simp add: options_ok_def effective_ttl_bounded)

lemma effective_ttl_le: "options_ok opts \<Longrightarrow> effective_ttl opts \<le> ao_ttl opts"
  using from_millis_as_millis_le [of "ao_ttl opts"] by (simp add: options_ok_def effective_ttl_bounded)

lemma effective_renew_interval_bounds:
  "options_ok opts \<Longrightarrow> effective_renew_interval opts = Some d \<Longrightarrow> 0 < d \<and> d < effective_ttl opts"
  by (auto simp: options_ok_def from_millis_def nanos_per_milli_def)

lemma options_build_ok:
  assumes "options_build b = Inr opts"
  shows "options_ok opts"
    and "ao_retry_interval opts = ab_retry_interval b" and "ao_lock_timeout opts = ab_lock_timeout b"
    and "ao_ttl opts = ab_ttl b" and "ao_renew_interval opts = ab_renew_interval b"
proof -
  show fields: "ao_retry_interval opts = ab_retry_interval b" "ao_lock_timeout opts = ab_lock_timeout b"
    "ao_ttl opts = ab_ttl b" "ao_renew_interval opts = ab_renew_interval b"
    using assms by (auto simp: options_build_def Let_def split: if_splits option.splits)
  have ttl: "1 \<le> as_millis (ab_ttl b)" "as_millis (ab_ttl b) \<le> MAX_TTL_MILLIS" "0 < ab_retry_interval b"
    using assms by (auto simp: options_build_def Let_def split: if_splits)
  moreover have "case effective_renew_interval opts of None \<Rightarrow> True
      | Some d \<Rightarrow> from_millis 1 \<le> d \<and> d < effective_ttl opts"
    using assms fields
    by (auto simp: options_build_def Let_def effective_renew_interval_def effective_ttl_def
        as_millis_pos_iff split: if_splits option.splits)
  ultimately show "options_ok opts"
    using fields by (simp add: options_ok_def)
qed

lemma options_new_ok: "options_ok options_new"
  by (simp add: options_ok_def options_new_def DEFAULT_TTL_def DEFAULT_RETRY_INTERVAL_def
      DEFAULT_RENEW_INTERVAL_def effective_renew_interval_def effective_ttl_def from_secs_def
      MAX_TTL_MILLIS_def as_u64_def from_millis_def nanos_per_milli_def as_millis_def)

subsection \<open>Properties\<close>

text \<open>
  C38: \<open>build\<close> accepts exactly the valid options. It returns options if and only if they are the
  fields of the builder and satisfy the contract: a TTL from 1 to \<open>2 ^ 53 - 1\<close> whole milliseconds,
  a positive retry interval, and a renewal interval of at least a millisecond that is shorter than
  the effective TTL.
\<close>

theorem options_build_iff:
  "options_build b = Inr opts \<longleftrightarrow>
     opts = \<lparr>ao_retry_interval = ab_retry_interval b, ao_lock_timeout = ab_lock_timeout b,
             ao_ttl = ab_ttl b, ao_renew_interval = ab_renew_interval b\<rparr> \<and> options_ok opts"
proof
  assume built: "options_build b = Inr opts"
  show "opts = \<lparr>ao_retry_interval = ab_retry_interval b, ao_lock_timeout = ab_lock_timeout b,
      ao_ttl = ab_ttl b, ao_renew_interval = ab_renew_interval b\<rparr> \<and> options_ok opts"
    using options_build_ok [OF built] by simp
next
  assume r: "opts = \<lparr>ao_retry_interval = ab_retry_interval b, ao_lock_timeout = ab_lock_timeout b,
      ao_ttl = ab_ttl b, ao_renew_interval = ab_renew_interval b\<rparr> \<and> options_ok opts"
  then have ttl: "as_millis (ab_ttl b) \<noteq> 0" "\<not> MAX_TTL_MILLIS < as_millis (ab_ttl b)"
    "ab_retry_interval b \<noteq> 0"
    by (auto simp: options_ok_def)
  have renew: "as_millis d \<noteq> 0 \<and> \<not> from_millis (as_u64 (as_millis (ab_ttl b))) \<le> d"
    if "ab_renew_interval b = Some i"
      "d = (case i of None \<Rightarrow> from_millis (as_u64 (as_millis (ab_ttl b))) div 2 | Some d \<Rightarrow> d)" for i d
    using r that as_millis_pos_iff [of d]
    by (auto simp: options_ok_def effective_renew_interval_def effective_ttl_def)
  show "options_build b = Inr opts"
  proof (cases "ab_renew_interval b")
    case None
    with r ttl show ?thesis by (simp add: options_build_def Let_def)
  next
    case (Some i)
    with r ttl renew [OF Some refl] show ?thesis by (simp add: options_build_def Let_def)
  qed
qed

end
