(* ===== verification/Lease_Safety.thy ===== *)
theory Lease_Safety
  imports Server_Properties Lease Options
begin

text \<open>
  The local lease against the server: what an active lease (\<open>src/lease.rs\<close>) says about the lock that the
  scripts (\<open>src/scripts.rs\<close>) keep in Redis. The client measures nanoseconds from the instant before it sent
  a command; the server counts whole milliseconds from the instant at which it executed the command. Both
  clocks are taken to run at the same rate.
\<close>

subsection \<open>The clock of the server\<close>

text \<open>
  The time of a server whose clock is \<open>offset\<close> nanoseconds ahead of the clock of the client, in whole
  milliseconds, as the scripts read it.
\<close>

definition server_millis :: "nat \<Rightarrow> instant \<Rightarrow> int" where
  "server_millis offset t = int ((t + offset) div nanos_per_milli)"

text \<open>
  How much longer a lease has to be active: a mutex key exists up to and including its last millisecond, a
  member of a read-write lock is purged at its beginning.
\<close>

fun clock_margin :: "lock_mode \<Rightarrow> duration" where
  "clock_margin Mutex_Mode = 0"
| "clock_margin Read_Mode = nanos_per_milli"
| "clock_margin Write_Mode = nanos_per_milli"

lemma server_millis_mono: "t \<le> t' \<Longrightarrow> server_millis offset t \<le> server_millis offset t'"
  by (simp add: server_millis_def div_le_mono)

lemma server_millis_plus: "server_millis offset (t + from_millis n) = server_millis offset t + int n"
proof -
  have "(t + from_millis n + offset) div nanos_per_milli = (t + offset + n * nanos_per_milli) div nanos_per_milli"
    by (simp add: from_millis_def algebra_simps)
  then show ?thesis by (simp add: server_millis_def)
qed

lemma lease_active_before:
  assumes "fst (lease_get_state now l) = Active"
  shows "now < l_start l + l_ttl l"
  using assms by (auto simp: lease_get_state_def Let_def lease_refresh_active_iff)

text \<open>As long as the lease is active for the margin, the expiry time that the server set is not over.\<close>

lemma active_lease_live:
  assumes "l_start l \<le> sent" and "l_ttl l = from_millis n"
    and "fst (lease_get_state (t + clock_margin m) l) = Active"
  shows "live m (server_millis offset t) (expiry_at (server_millis offset sent) (from_millis n))"
proof -
  have t: "t + clock_margin m < sent + from_millis n"
    using lease_active_before [OF assms(3)] assms(1,2) by simp
  show ?thesis
  proof (cases m)
    case Mutex_Mode
    then have "server_millis offset t \<le> server_millis offset (sent + from_millis n)"
      using t by (intro server_millis_mono) simp
    with Mutex_Mode show ?thesis by (simp add: server_millis_plus expiry_at_def)
  next
    case Read_Mode
    then have "server_millis offset (t + from_millis 1) \<le> server_millis offset (sent + from_millis n)"
      using t by (intro server_millis_mono) (simp add: from_millis_def)
    with Read_Mode show ?thesis by (simp add: server_millis_plus expiry_at_def)
  next
    case Write_Mode
    then have "server_millis offset (t + from_millis 1) \<le> server_millis offset (sent + from_millis n)"
      using t by (intro server_millis_mono) (simp add: from_millis_def)
    with Write_Mode show ?thesis by (simp add: server_millis_plus expiry_at_def)
  qed
qed

subsection \<open>A confirmed command\<close>

lemma live_mono: "live m now e \<Longrightarrow> e \<le> e' \<Longrightarrow> live m now e'"
  by (cases m) auto

context redis_clock
begin

lemma confirmed_holds:
  assumes "(Inr True, s1) = send_acquire call target u ttl s \<or> (Inr True, s1) = send_renew call target u ttl s"
    and "ttl_in_range (now s) ttl" and "k \<in> set (target_keys target)" and "table_ok (view s)"
  shows "holds (target_mode target) u (expiry_at (now s) ttl) (view s1 k)" and "table_ok (view s1)"
    and "now s1 = now s"
proof -
  consider "fst (send_acquire call target u ttl s) = Inr True" "s1 = snd (send_acquire call target u ttl s)"
    | "fst (send_renew call target u ttl s) = Inr True" "s1 = snd (send_renew call target u ttl s)"
    using assms(1) by (metis fst_conv snd_conv)
  then have "holds (target_mode target) u (expiry_at (now s) ttl) (view s1 k) \<and> table_ok (view s1) \<and> now s1 = now s"
  proof cases
    case 1
    with assms acquire_holds send_acquire_ok show ?thesis by simp
  next
    case 2
    with assms renew_holds send_renew_ok show ?thesis by simp
  qed
  then show "holds (target_mode target) u (expiry_at (now s) ttl) (view s1 k)" and "table_ok (view s1)"
    and "now s1 = now s" by blast+
qed

end

subsection \<open>Properties\<close>

text \<open>
  C37: Without the margin the deadline of a read-write lock is not conservative. The server drops the
  fraction of a millisecond of its clock and purges a member at the beginning of its last millisecond, so
  an owner whose lease still has almost a millisecond can already have lost the lock: a second writer gets
  the key while the lease of the first one is active.
\<close>

theorem rw_lease_outlives_lock:
  "let s = mem_init 0;
       s1 = snd (send_acquire mem_call (Write ''k'') ''u'' (from_millis 5) s);
       s2 = mem_advance 5 s1
   in fst (send_acquire mem_call (Write ''k'') ''u'' (from_millis 5) s) = Inr True \<and>
      m_now s = server_millis 999999 0 \<and> m_now s2 = server_millis 999999 4000001 \<and>
      fst (lease_get_state 4000001 (lease_new 0 (from_millis 5))) = Active \<and>
      fst (send_acquire mem_call (Write ''k'') ''v'' (from_millis 5) s2) = Inr True"
proof -
  have "fst (send_acquire mem_call (Write ''k'') ''v'' (from_millis 5)
      (mem_advance 5 (snd (send_acquire mem_call (Write ''k'') ''u'' (from_millis 5) (mem_init 0))))) = Inr True"
    using mem_writer_expired
    by (intro memc.acquire_after_expiry) (simp_all add: memc.now_advance ttl_in_range_def max_exact_def)
  then show ?thesis
    by (simp add: mem_facts memc.now_advance)
      (simp add: server_millis_def nanos_per_milli_def from_millis_def lease_new_def lease_simps)
qed

end
