(* ===== verification/Keys.thy ===== *)
theory Keys
  imports Prelude
begin

text \<open>
  Lock keys: the key builders of \<open>src/functions.rs\<close> and the validated collection of
  \<open>src/lock_keys.rs\<close>. An \<open>Arc\<close> is the value it shares; a \<open>HashSet\<close> is a set.
\<close>

subsection \<open>Key builders\<close>

definition build_redis_key_with_prefix :: "string \<Rightarrow> string \<Rightarrow> redis_key" where
  "build_redis_key_with_prefix prefix key = (prefix @ '':'') @ key"

fun push_parts :: "string list \<Rightarrow> string \<Rightarrow> string" where
  "push_parts [] s = s"
| "push_parts (part # key_parts) s = push_parts key_parts ((s @ '':'') @ part)"

fun build_redis_key_from_parts :: "string list \<Rightarrow> redis_key" where
  "build_redis_key_from_parts [] = []"
| "build_redis_key_from_parts (first_part # key_parts) = push_parts key_parts first_part"

definition build_redis_key_from_parts_with_prefix :: "string \<Rightarrow> string list \<Rightarrow> redis_key" where
  "build_redis_key_from_parts_with_prefix prefix key_parts = push_parts key_parts prefix"

text \<open>A reader for built keys: the parts between the separators.\<close>

fun split_key :: "string \<Rightarrow> string list" where
  "split_key [] = [[]]"
| "split_key (c # cs) =
     (if c = CHR '':'' then [] # split_key cs
      else (case split_key cs of [] \<Rightarrow> [[c]] | p # ps \<Rightarrow> (c # p) # ps))"

lemma split_key_nonempty [simp]: "split_key s \<noteq> []"
  by (induction s) (auto split: list.splits)

lemma split_key_append:
  assumes "CHR '':'' \<notin> set p"
  shows "split_key (p @ CHR '':'' # s) = p # split_key s"
  using assms by (induction p) auto

lemma split_key_plain: "CHR '':'' \<notin> set p \<Longrightarrow> split_key p = [p]"
  by (induction p) auto

fun join_parts :: "string list \<Rightarrow> string" where
  "join_parts [] = []"
| "join_parts (part # key_parts) = CHR '':'' # part @ join_parts key_parts"

lemma push_parts_join: "push_parts ps s = s @ join_parts ps"
  by (induction ps arbitrary: s) auto

lemma split_key_join:
  "\<forall>p\<in>set (q # ps). CHR '':'' \<notin> set p \<Longrightarrow> split_key (q @ join_parts ps) = q # ps"
proof (induction ps arbitrary: q)
  case Nil
  then show ?case by (simp add: split_key_plain)
next
  case (Cons p ps)
  then show ?case by (simp add: split_key_append)
qed

subsection \<open>\<open>LockKeys\<close>\<close>

datatype lock_keys = LockKeys "string list"

datatype lock_keys_build_error = Empty | DuplicateKey string

fun lock_keys_build_error_display :: "lock_keys_build_error \<Rightarrow> string" where
  "lock_keys_build_error_display Empty = ''at least one lock key is required''"
| "lock_keys_build_error_display (DuplicateKey key) = ''duplicate lock key: '' @ key"

text \<open>The loop of \<open>validate\<close>: \<open>unique\<close> is the \<open>HashSet\<close>.\<close>

fun insert_unique :: "string set \<Rightarrow> string list \<Rightarrow> (lock_keys_build_error, unit) result" where
  "insert_unique unique [] = Inr ()"
| "insert_unique unique (key # keys) =
     (if key \<in> unique then Inl (DuplicateKey key) else insert_unique (insert key unique) keys)"

definition validate :: "string list \<Rightarrow> (lock_keys_build_error, unit) result" where
  "validate keys = (if keys = [] then Inl Empty else insert_unique {} keys)"

text \<open>\<open>debug\<close> is \<open>cfg!(debug_assertions)\<close>; \<open>Inl\<close> is the panic with its message.\<close>

definition debug_assert_lock_keys :: "bool \<Rightarrow> string list \<Rightarrow> (string, unit) result" where
  "debug_assert_lock_keys debug keys =
     (if debug
      then (case validate keys of
              Inl error \<Rightarrow> Inl (''invalid lock keys: '' @ lock_keys_build_error_display error)
            | Inr _ \<Rightarrow> Inr ())
      else Inr ())"

definition lock_keys_new :: "string list \<Rightarrow> (lock_keys_build_error, lock_keys) result" where
  "lock_keys_new keys =
     (case validate keys of Inl error \<Rightarrow> Inl error | Inr _ \<Rightarrow> Inr (LockKeys keys))"

fun as_slice :: "lock_keys \<Rightarrow> string list" where
  "as_slice (LockKeys keys) = keys"

definition into_arc :: "lock_keys \<Rightarrow> string list" where
  "into_arc keys = as_slice keys"

lemma insert_unique_ok: "insert_unique seen ks = Inr u \<longleftrightarrow> distinct ks \<and> set ks \<inter> seen = {}"
  by (induction ks arbitrary: seen) auto

lemma insert_unique_duplicate:
  "insert_unique seen ks = Inl (DuplicateKey k) \<longleftrightarrow>
     (\<exists>xs ys. ks = xs @ k # ys \<and> distinct xs \<and> set xs \<inter> seen = {} \<and> k \<in> set xs \<union> seen)"
proof (induction ks arbitrary: seen)
  case Nil
  then show ?case by simp
next
  case (Cons a ks)
  show ?case
  proof (cases "a \<in> seen")
    case True
    then show ?thesis
      by (auto simp: Cons_eq_append_conv)
  next
    case False
    then have "insert_unique seen (a # ks) = Inl (DuplicateKey k) \<longleftrightarrow>
        (\<exists>xs ys. ks = xs @ k # ys \<and> distinct xs \<and> set xs \<inter> insert a seen = {} \<and> k \<in> set xs \<union> insert a seen)"
      by (simp add: Cons.IH)
    also have "\<dots> \<longleftrightarrow> (\<exists>xs ys. a # ks = (a # xs) @ k # ys \<and> distinct (a # xs) \<and>
        set (a # xs) \<inter> seen = {} \<and> k \<in> set (a # xs) \<union> seen)"
      using False by auto
    also have "\<dots> \<longleftrightarrow> (\<exists>xs ys. a # ks = xs @ k # ys \<and> distinct xs \<and> set xs \<inter> seen = {} \<and>
        k \<in> set xs \<union> seen)" (is "?L \<longleftrightarrow> ?R")
    proof
      assume ?L
      then show ?R by blast
    next
      assume ?R
      then obtain xs ys where xs: "a # ks = xs @ k # ys" "distinct xs" "set xs \<inter> seen = {}"
        "k \<in> set xs \<union> seen"
        by blast
      then obtain xs' where "xs = a # xs'" using False by (cases xs) auto
      with xs show ?L by blast
    qed
    finally show ?thesis .
  qed
qed

lemma insert_unique_not_empty [simp]: "insert_unique seen ks \<noteq> Inl Empty"
  by (induction ks arbitrary: seen) auto

lemma validate_ok: "validate ks = Inr u \<longleftrightarrow> ks \<noteq> [] \<and> distinct ks"
  by (simp add: validate_def insert_unique_ok)

lemma validate_empty: "validate ks = Inl Empty \<longleftrightarrow> ks = []"
  by (simp add: validate_def)

lemma validate_duplicate:
  "validate ks = Inl (DuplicateKey k) \<longleftrightarrow> (\<exists>xs ys. ks = xs @ k # ys \<and> distinct xs \<and> k \<in> set xs)"
  by (auto simp: validate_def insert_unique_duplicate)

subsection \<open>Properties\<close>

text \<open>
  C39: A validated collection of keys is the given list, in its order, not empty and without
  duplicates; an invalid list is refused as empty or with the first key that repeats an earlier one.
\<close>

theorem lock_keys_new_correct:
  "(lock_keys_new keys = Inr lk \<longleftrightarrow> as_slice lk = keys \<and> keys \<noteq> [] \<and> distinct keys) \<and>
   (lock_keys_new keys = Inl Empty \<longleftrightarrow> keys = []) \<and>
   (lock_keys_new keys = Inl (DuplicateKey k) \<longleftrightarrow>
      (\<exists>xs ys. keys = xs @ k # ys \<and> distinct xs \<and> k \<in> set xs))"
  using validate_ok [of keys] validate_empty [of keys] validate_duplicate [of keys k]
  by (cases lk; cases "validate keys") (auto simp: lock_keys_new_def)

text \<open>
  C40: Built keys do not collide. From a key built of a prefix and parts that contain no separator,
  the prefix and the parts can be read back, so different parts give different keys; and the three
  builders agree with each other.
\<close>

theorem built_keys_round_trip:
  assumes "\<forall>p\<in>set (prefix # parts). CHR '':'' \<notin> set p"
  shows "split_key (build_redis_key_from_parts_with_prefix prefix parts) = prefix # parts \<and>
    build_redis_key_from_parts (prefix # parts) = build_redis_key_from_parts_with_prefix prefix parts \<and>
    build_redis_key_with_prefix prefix p = build_redis_key_from_parts_with_prefix prefix [p]"
  using split_key_join [OF assms]
  by (simp add: build_redis_key_from_parts_with_prefix_def build_redis_key_with_prefix_def push_parts_join)

theorem built_keys_round_trip_witness:
  "split_key (build_redis_key_from_parts_with_prefix ''lock'' [''account'', ''123'']) = [''lock'', ''account'', ''123'']"
  using built_keys_round_trip [of "''lock''" "[''account'', ''123'']"] by simp

end
