(* ===== verification/Errors.thy ===== *)
theory Errors
  imports Prelude
begin

text \<open>
  The errors of \<open>src/errors.rs\<close>. \<open>redis::RedisError\<close> and \<open>io::Error\<close> are types of other crates:
  they are type parameters here, and what the code asks of them (their display and their source)
  are arguments of the functions that use them. The rest of the development instantiates both with
  \<open>string\<close>, the message.
\<close>

datatype ('re, 'io) acquire_error =
    AcquireRedisError 're
  | LockTimeout
  | Shutdown
  | LeaseExpired
  | AcquireWorkerError 'io

definition acquire_error_from :: "'re \<Rightarrow> ('re, 'io) acquire_error" where
  "acquire_error_from value = AcquireRedisError value"

fun acquire_error_display ::
    "('re \<Rightarrow> string) \<Rightarrow> ('io \<Rightarrow> string) \<Rightarrow> ('re, 'io) acquire_error \<Rightarrow> string" where
  "acquire_error_display fmt_redis fmt_io (AcquireRedisError error) = fmt_redis error"
| "acquire_error_display fmt_redis fmt_io LockTimeout =
     ''attempted to get a lock but the provided timeout was exceeded''"
| "acquire_error_display fmt_redis fmt_io Shutdown = ''the RLock manager is shutting down''"
| "acquire_error_display fmt_redis fmt_io LeaseExpired =
     ''the lock lease expired before acquisition completed''"
| "acquire_error_display fmt_redis fmt_io (AcquireWorkerError error) = fmt_io error"

fun acquire_error_source ::
    "('re \<Rightarrow> 'd option) \<Rightarrow> ('io \<Rightarrow> 'd option) \<Rightarrow> ('re, 'io) acquire_error \<Rightarrow> 'd option" where
  "acquire_error_source source_redis source_io (AcquireRedisError error) = source_redis error"
| "acquire_error_source source_redis source_io (AcquireWorkerError error) = source_io error"
| "acquire_error_source source_redis source_io _ = None"

datatype ('re, 'io) release_error =
    ReleaseRedisError 're
  | ReleaseWorkerError 'io

definition release_error_from :: "'re \<Rightarrow> ('re, 'io) release_error" where
  "release_error_from value = ReleaseRedisError value"

fun release_error_display ::
    "('re \<Rightarrow> string) \<Rightarrow> ('io \<Rightarrow> string) \<Rightarrow> ('re, 'io) release_error \<Rightarrow> string" where
  "release_error_display fmt_redis fmt_io (ReleaseRedisError error) = fmt_redis error"
| "release_error_display fmt_redis fmt_io (ReleaseWorkerError error) = fmt_io error"

fun release_error_source ::
    "('re \<Rightarrow> 'd option) \<Rightarrow> ('io \<Rightarrow> 'd option) \<Rightarrow> ('re, 'io) release_error \<Rightarrow> 'd option" where
  "release_error_source source_redis source_io (ReleaseRedisError error) = source_redis error"
| "release_error_source source_redis source_io (ReleaseWorkerError error) = source_io error"

type_synonym acquire_failure = "(string, string) acquire_error"
type_synonym release_failure = "(string, string) release_error"

text \<open>
  The messages along a chain of sources, as \<open>messages\<close> of the tests collects them: the error first,
  then each cause. \<open>fuel\<close> bounds the chain.
\<close>

fun source_chain :: "('d \<Rightarrow> string) \<Rightarrow> ('d \<Rightarrow> 'd option) \<Rightarrow> nat \<Rightarrow> 'd option \<Rightarrow> string list" where
  "source_chain fmt source 0 e = []"
| "source_chain fmt source (Suc n) None = []"
| "source_chain fmt source (Suc n) (Some e) = fmt e # source_chain fmt source n (source e)"

text \<open>
  A wrapped error adds nothing to the chain: the message of the wrapper is the message of the
  wrapped error, and its source is that error's source, so no message appears twice.
\<close>

lemma acquire_error_chain_redis:
  "acquire_error_display fmt fmt_io (AcquireRedisError e) #
     source_chain fmt source n (acquire_error_source source source_io (AcquireRedisError e)) =
   source_chain fmt source (Suc n) (Some e)"
  by simp

lemma acquire_error_chain_worker:
  "acquire_error_display fmt_redis fmt (AcquireWorkerError e) #
     source_chain fmt source n (acquire_error_source source_redis source (AcquireWorkerError e)) =
   source_chain fmt source (Suc n) (Some e)"
  by simp

end
