(* ===== verification/Release_Queue.thy ===== *)
theory Release_Queue
  imports Lock_Request "HOL-Library.Sublist"
begin

text \<open>
  The release queue that both managers own (\<open>src/sync_lock/manager.rs\<close>, \<open>src/async_lock/manager.rs\<close>):
  a bounded channel of release commands and the worker that takes them out one by one. A barrier is
  a command that carries the sender of an acknowledgement, here a number. The two ghost lists record
  the requests that entered the queue and the requests whose release the worker sent to Redis.
\<close>

subsection \<open>The channel\<close>

datatype release_command = Release lock_request | Barrier nat

datatype release_worker = Receiving | Releasing lock_request | Stopped

datatype send_error = Queue_Full | Queue_Closed

record release_queue =
  rq_items :: "release_command list"
  rq_worker :: release_worker
  rq_acked :: "nat set"
  rq_enqueued :: "lock_request list"
  rq_released :: "lock_request list"

definition RECYCLE_CHANNEL_BUFFER :: nat where
  "RECYCLE_CHANNEL_BUFFER = 1024"

definition release_queue_new :: release_queue where
  "release_queue_new =
     \<lparr>rq_items = [], rq_worker = Receiving, rq_acked = {}, rq_enqueued = [], rq_released = []\<rparr>"

fun releases_of :: "release_command list \<Rightarrow> lock_request list" where
  "releases_of [] = []"
| "releases_of (Release r # cs) = r # releases_of cs"
| "releases_of (Barrier b # cs) = releases_of cs"

lemma releases_of_append [simp]: "releases_of (xs @ ys) = releases_of xs @ releases_of ys"
  by (induction xs rule: releases_of.induct) auto

definition queue_push :: "release_command \<Rightarrow> release_queue \<Rightarrow> release_queue" where
  "queue_push c q = q\<lparr>rq_items := rq_items q @ [c], rq_enqueued := rq_enqueued q @ releases_of [c]\<rparr>"

text \<open>\<open>try_send\<close> never blocks.\<close>

definition queue_try_send ::
    "release_command \<Rightarrow> release_queue \<Rightarrow> (send_error, unit) result \<times> release_queue" where
  "queue_try_send c q =
     (if rq_worker q = Stopped then (Inl Queue_Closed, q)
      else if RECYCLE_CHANNEL_BUFFER \<le> length (rq_items q) then (Inl Queue_Full, q)
      else (Inr (), queue_push c q))"

text \<open>\<open>send\<close> waits while the channel is full, which is \<open>None\<close> here.\<close>

definition queue_send ::
    "release_command \<Rightarrow> release_queue \<Rightarrow> ((send_error, unit) result \<times> release_queue) option" where
  "queue_send c q =
     (case queue_try_send c q of
        (Inl Queue_Full, q') \<Rightarrow> None
      | r \<Rightarrow> Some r)"

text \<open>\<open>ack_rx.recv()\<close>: the acknowledgement, or an error once its sender is gone.\<close>

definition queue_await_ack :: "nat \<Rightarrow> release_queue \<Rightarrow> bool option" where
  "queue_await_ack b q =
     (if b \<in> rq_acked q then Some True else if Barrier b \<in> set (rq_items q) then None else Some False)"

subsection \<open>The worker\<close>

text \<open>
  One step of the worker loop. \<open>recv\<close> takes the first command; with an empty channel it waits, or
  ends the loop once every sender is dropped. An error of a release is only logged. \<open>worker_dies\<close>
  stands for a panic of the worker: the receiver and the commands in the channel are dropped.
\<close>

definition worker_recv :: "bool \<Rightarrow> release_queue \<Rightarrow> release_queue option" where
  "worker_recv senders_alive q =
     (if rq_worker q \<noteq> Receiving then None
      else
        (case rq_items q of
           [] \<Rightarrow> (if senders_alive then None else Some (q\<lparr>rq_worker := Stopped\<rparr>))
         | Release r # cs \<Rightarrow> Some (q\<lparr>rq_items := cs, rq_worker := Releasing r\<rparr>)
         | Barrier b # cs \<Rightarrow> Some (q\<lparr>rq_items := cs, rq_acked := insert b (rq_acked q)\<rparr>)))"

definition worker_release :: "release_queue \<Rightarrow> release_queue option" where
  "worker_release q =
     (case rq_worker q of
        Releasing r \<Rightarrow> Some (q\<lparr>rq_released := rq_released q @ [r], rq_worker := Receiving\<rparr>)
      | _ \<Rightarrow> None)"

definition worker_dies :: "release_queue \<Rightarrow> release_queue" where
  "worker_dies q = q\<lparr>rq_items := [], rq_worker := Stopped\<rparr>"

text \<open>A step of the queue in which nobody sends the barrier \<open>b\<close>.\<close>

inductive queue_step :: "nat \<Rightarrow> release_queue \<Rightarrow> release_queue \<Rightarrow> bool" for b where
  step_stay: "queue_step b q q"
| step_send: "queue_try_send c q = (Inr (), q') \<Longrightarrow> c \<noteq> Barrier b \<Longrightarrow> queue_step b q q'"
| step_recv: "worker_recv alive q = Some q' \<Longrightarrow> queue_step b q q'"
| step_released: "worker_release q = Some q' \<Longrightarrow> queue_step b q q'"
| step_dies: "queue_step b q (worker_dies q)"

inductive_cases queue_stepE: "queue_step b q q'"

subsection \<open>The invariants\<close>

fun in_flight :: "release_worker \<Rightarrow> lock_request list" where
  "in_flight (Releasing r) = [r]"
| "in_flight Receiving = []"
| "in_flight Stopped = []"

text \<open>Requests leave the queue in the order in which they entered it.\<close>

definition queue_ok :: "release_queue \<Rightarrow> bool" where
  "queue_ok q \<longleftrightarrow>
     length (rq_items q) \<le> RECYCLE_CHANNEL_BUFFER \<and>
     (rq_worker q = Stopped \<longrightarrow> rq_items q = []) \<and>
     (rq_worker q \<noteq> Stopped \<longrightarrow>
        rq_enqueued q = rq_released q @ in_flight (rq_worker q) @ releases_of (rq_items q)) \<and>
     prefix (rq_released q) (rq_enqueued q)"

text \<open>
  What is known of a barrier that was sent when the requests \<open>before\<close> had entered the queue: it is
  acknowledged and all of them are released, or it waits behind the rest of them, or it is lost
  with the worker.
\<close>

definition barrier_ok :: "nat \<Rightarrow> lock_request list \<Rightarrow> release_queue \<Rightarrow> bool" where
  "barrier_ok b before q \<longleftrightarrow>
     (if b \<in> rq_acked q then prefix before (rq_released q)
      else if Barrier b \<in> set (rq_items q)
      then \<exists>xs ys. rq_items q = xs @ Barrier b # ys \<and> Barrier b \<notin> set xs \<and>
        prefix before (rq_released q @ in_flight (rq_worker q) @ releases_of xs)
      else rq_worker q = Stopped)"

lemma queue_new_ok: "queue_ok release_queue_new"
  by (simp add: queue_ok_def release_queue_new_def)

lemma try_send_okD:
  "queue_try_send c q = (Inr u, q') \<Longrightarrow>
     q' = queue_push c q \<and> rq_worker q \<noteq> Stopped \<and> length (rq_items q) < RECYCLE_CHANNEL_BUFFER"
  by (auto simp: queue_try_send_def split: if_splits)

lemma queue_push_ok:
  "queue_ok q \<Longrightarrow> rq_worker q \<noteq> Stopped \<Longrightarrow> length (rq_items q) < RECYCLE_CHANNEL_BUFFER \<Longrightarrow>
     queue_ok (queue_push c q)"
  by (cases c) (auto simp: queue_ok_def queue_push_def)

lemma worker_recv_ok: "queue_ok q \<Longrightarrow> worker_recv alive q = Some q' \<Longrightarrow> queue_ok q'"
  by (auto simp: queue_ok_def worker_recv_def split: if_splits list.splits release_command.splits)

lemma worker_release_ok: "queue_ok q \<Longrightarrow> worker_release q = Some q' \<Longrightarrow> queue_ok q'"
  by (auto simp: queue_ok_def worker_release_def split: release_worker.splits)

lemma worker_dies_ok: "queue_ok q \<Longrightarrow> queue_ok (worker_dies q)"
  by (simp add: queue_ok_def worker_dies_def)

lemma queue_step_ok: "queue_step b q q' \<Longrightarrow> queue_ok q \<Longrightarrow> queue_ok q'"
  by (erule queue_stepE) (auto dest: try_send_okD intro: queue_push_ok worker_recv_ok worker_release_ok
      worker_dies_ok)

text \<open>Sending a new barrier establishes its invariant.\<close>

lemma barrier_sent:
  assumes "queue_ok q" and "queue_try_send (Barrier b) q = (Inr u, q')" and "b \<notin> rq_acked q"
    and "Barrier b \<notin> set (rq_items q)"
  shows "barrier_ok b (rq_enqueued q) q'"
proof -
  have q': "q' = queue_push (Barrier b) q" "rq_worker q \<noteq> Stopped"
    using try_send_okD [OF assms(2)] by auto
  then have "rq_items q' = rq_items q @ Barrier b # []" "rq_released q' = rq_released q"
    "rq_worker q' = rq_worker q" "rq_acked q' = rq_acked q"
    by (auto simp: queue_push_def)
  moreover have "rq_enqueued q = rq_released q @ in_flight (rq_worker q) @ releases_of (rq_items q)"
    using assms(1) q'(2) by (simp add: queue_ok_def)
  ultimately show ?thesis using assms(3,4) by (auto simp: barrier_ok_def)
qed

lemma barrier_push:
  assumes "barrier_ok b before q" and "c \<noteq> Barrier b" and "rq_worker q \<noteq> Stopped"
  shows "barrier_ok b before (queue_push c q)"
proof (cases "b \<in> rq_acked q")
  case True
  with assms(1) show ?thesis by (simp add: barrier_ok_def queue_push_def)
next
  case False
  with assms(1,3) obtain xs ys where "rq_items q = xs @ Barrier b # ys" "Barrier b \<notin> set xs"
    "prefix before (rq_released q @ in_flight (rq_worker q) @ releases_of xs)"
    by (auto simp: barrier_ok_def split: if_splits)
  moreover from this have "rq_items (queue_push c q) = xs @ Barrier b # (ys @ [c])"
    by (simp add: queue_push_def)
  ultimately show ?thesis using False by (auto simp: barrier_ok_def queue_push_def)
qed

lemma prefix_appendI: "prefix xs ys \<Longrightarrow> prefix xs (ys @ zs)"
  by (auto simp: prefix_def)

lemma barrier_waits:
  "barrier_ok b before q \<Longrightarrow> b \<notin> rq_acked q \<Longrightarrow> rq_worker q \<noteq> Stopped \<Longrightarrow>
     \<exists>xs ys. rq_items q = xs @ Barrier b # ys \<and> Barrier b \<notin> set xs \<and>
       prefix before (rq_released q @ in_flight (rq_worker q) @ releases_of xs)"
  by (simp add: barrier_ok_def split: if_splits)

lemma barrier_waitsI:
  "b \<notin> rq_acked q \<Longrightarrow> rq_items q = xs @ Barrier b # ys \<Longrightarrow> Barrier b \<notin> set xs \<Longrightarrow>
     prefix before (rq_released q @ in_flight (rq_worker q) @ releases_of xs) \<Longrightarrow> barrier_ok b before q"
  unfolding barrier_ok_def by (simp only: if_False) (intro if_bool_eq_conj [THEN iffD2] conjI impI; fastforce)

lemma barrier_recv:
  assumes "barrier_ok b before q" and "worker_recv alive q = Some q'"
  shows "barrier_ok b before q'"
proof (cases "b \<in> rq_acked q")
  case True
  with assms show ?thesis
    by (auto simp: barrier_ok_def worker_recv_def split: if_splits list.splits release_command.splits)
next
  case False
  have w: "rq_worker q = Receiving" using assms(2) by (auto simp: worker_recv_def split: if_splits)
  then obtain xs ys where xs: "rq_items q = xs @ Barrier b # ys" "Barrier b \<notin> set xs"
    "prefix before (rq_released q @ releases_of xs)"
    using barrier_waits [OF assms(1) False] by auto
  show ?thesis
  proof (cases xs)
    case Nil
    with xs w assms(2) show ?thesis by (auto simp: barrier_ok_def worker_recv_def)
  next
    case (Cons c cs)
    show ?thesis
    proof (cases c)
      case (Release r)
      with xs w assms(2) False Cons show ?thesis
        by (intro barrier_waitsI [of b q' cs ys]) (auto simp: worker_recv_def)
    next
      case (Barrier a)
      show ?thesis
      proof (cases "a = b")
        case True
        with Barrier xs w assms(2) Cons show ?thesis
          by (auto simp: barrier_ok_def worker_recv_def prefix_def)
      next
        case neq: False
        with Barrier xs w assms(2) False Cons show ?thesis
          by (intro barrier_waitsI [of b q' cs ys]) (auto simp: worker_recv_def)
      qed
    qed
  qed
qed

lemma barrier_released:
  assumes "barrier_ok b before q" and "worker_release q = Some q'"
  shows "barrier_ok b before q'"
proof (cases "b \<in> rq_acked q")
  case True
  with assms show ?thesis
    by (auto simp: barrier_ok_def worker_release_def prefix_appendI split: release_worker.splits)
next
  case False
  obtain r where w: "rq_worker q = Releasing r"
    "q' = q\<lparr>rq_released := rq_released q @ [r], rq_worker := Receiving\<rparr>"
    using assms(2) by (auto simp: worker_release_def split: release_worker.splits)
  then obtain xs ys where "rq_items q = xs @ Barrier b # ys" "Barrier b \<notin> set xs"
    "prefix before (rq_released q @ in_flight (rq_worker q) @ releases_of xs)"
    using barrier_waits [OF assms(1) False] by auto
  with w False show ?thesis by (intro barrier_waitsI [of b q' xs ys]) simp_all
qed

lemma barrier_dies: "barrier_ok b before q \<Longrightarrow> barrier_ok b before (worker_dies q)"
  by (auto simp: barrier_ok_def worker_dies_def)

lemma queue_step_barrier:
  "queue_step b q q' \<Longrightarrow> barrier_ok b before q \<Longrightarrow> barrier_ok b before q'"
  by (erule queue_stepE)
    (auto dest: try_send_okD intro: barrier_push barrier_recv barrier_released barrier_dies)

definition barrier_fresh :: "nat \<Rightarrow> release_queue \<Rightarrow> bool" where
  "barrier_fresh b q \<longleftrightarrow> b \<notin> rq_acked q \<and> Barrier b \<notin> set (rq_items q)"

lemma queue_step_fresh: "queue_step b q q' \<Longrightarrow> barrier_fresh b q \<Longrightarrow> barrier_fresh b q'"
  by (erule queue_stepE)
    (auto simp: barrier_fresh_def worker_recv_def worker_release_def worker_dies_def queue_push_def
      dest!: try_send_okD split: if_splits list.splits release_command.splits release_worker.splits)

text \<open>The ghost lists only grow.\<close>

lemma queue_step_grows:
  "queue_step b q q' \<Longrightarrow>
     prefix (rq_enqueued q) (rq_enqueued q') \<and> prefix (rq_released q) (rq_released q')"
  by (erule queue_stepE)
    (auto simp: worker_recv_def worker_release_def worker_dies_def queue_push_def
      dest!: try_send_okD split: if_splits list.splits release_command.splits release_worker.splits)

text \<open>A queue that is not empty has a worker that can take a step, or no worker at all.\<close>

lemma worker_enabled:
  "queue_ok q \<Longrightarrow> rq_items q \<noteq> [] \<Longrightarrow>
     (\<exists>q'. worker_recv alive q = Some q') \<or> (\<exists>q'. worker_release q = Some q')"
  by (cases "rq_worker q"; cases "rq_items q")
    (auto simp: queue_ok_def worker_recv_def worker_release_def split: release_command.splits)

lemma queue_send_blocks:
  "queue_send c q = None \<longleftrightarrow>
     rq_worker q \<noteq> Stopped \<and> RECYCLE_CHANNEL_BUFFER \<le> length (rq_items q)"
  by (auto simp: queue_send_def queue_try_send_def)

lemma queue_send_cases:
  assumes "queue_send c q = Some r"
  obtains "r = (Inl Queue_Closed, q)" and "rq_worker q = Stopped"
  | q' where "r = (Inr (), q')" and "queue_try_send c q = (Inr (), q')"
  using assms
  by (auto simp: queue_send_def queue_try_send_def split: if_splits)

lemma await_ack_blocks:
  "queue_await_ack b q = None \<longleftrightarrow> b \<notin> rq_acked q \<and> Barrier b \<in> set (rq_items q)"
  by (simp add: queue_await_ack_def)

lemma try_release_step: "queue_try_send (Release r) q = (res, q') \<Longrightarrow> queue_step b q q'"
  by (cases res) (auto simp: queue_try_send_def split: if_splits
      intro: step_stay step_send [of "Release r"])

lemma barrier_fresh_new: "barrier_fresh b release_queue_new"
  by (simp add: barrier_fresh_def release_queue_new_def)

subsection \<open>The contract of the queue\<close>

text \<open>
  What a shutdown relies on: a channel with a barrier. \<open>entered\<close> and \<open>left_ch\<close> are the requests that
  entered the channel and those that its worker is done with.
\<close>

locale barrier_channel =
  fixes inv :: "'q \<Rightarrow> bool"
    and step :: "nat \<Rightarrow> 'q \<Rightarrow> 'q \<Rightarrow> bool"
    and fresh :: "nat \<Rightarrow> 'q \<Rightarrow> bool"
    and send_barrier :: "nat \<Rightarrow> 'q \<Rightarrow> 'q \<Rightarrow> bool"
    and acked :: "nat \<Rightarrow> 'q \<Rightarrow> bool"
    and tracked :: "nat \<Rightarrow> 'r list \<Rightarrow> 'q \<Rightarrow> bool"
    and entered :: "'q \<Rightarrow> 'r list"
    and left_ch :: "'q \<Rightarrow> 'r list"
  assumes inv_step: "step b q q' \<Longrightarrow> inv q \<Longrightarrow> inv q'"
    and fresh_step: "step b q q' \<Longrightarrow> fresh b q \<Longrightarrow> fresh b q'"
    and send_inv: "send_barrier b q q' \<Longrightarrow> inv q \<Longrightarrow> inv q'"
    and send_tracked: "send_barrier b q q' \<Longrightarrow> inv q \<Longrightarrow> fresh b q \<Longrightarrow> tracked b (entered q) q'"
    and tracked_step: "step b q q' \<Longrightarrow> tracked b before q \<Longrightarrow> tracked b before q'"
    and acked_tracked: "tracked b before q \<Longrightarrow> acked b q \<Longrightarrow> prefix before (left_ch q)"
begin

lemma steps_tracked: "(step b)\<^sup>*\<^sup>* q q' \<Longrightarrow> tracked b before q \<Longrightarrow> tracked b before q'"
  by (induction rule: rtranclp_induct) (auto intro: tracked_step)

lemma steps_inv: "(step b)\<^sup>*\<^sup>* q q' \<Longrightarrow> inv q \<Longrightarrow> inv q'"
  by (induction rule: rtranclp_induct) (auto intro: inv_step)

text \<open>Whoever waits for the acknowledgement of a barrier knows that all earlier requests are done.\<close>

lemma barrier_waits_for_earlier:
  assumes "inv q" and "fresh b q" and "send_barrier b q q1" and "(step b)\<^sup>*\<^sup>* q1 q2" and "acked b q2"
  shows "prefix (entered q) (left_ch q2)"
  using acked_tracked [OF steps_tracked [OF assms(4) send_tracked [OF assms(3,1,2)]] assms(5)] .

end

interpretation rq: barrier_channel queue_ok queue_step barrier_fresh
  "\<lambda>b q q'. queue_try_send (Barrier b) q = (Inr (), q')" "\<lambda>b q. b \<in> rq_acked q" barrier_ok
  rq_enqueued rq_released
proof (unfold_locales, goal_cases)
  case (3 b q q')
  then show ?case using try_send_okD [OF 3(1)] queue_push_ok by auto
next
  case (4 b q q')
  then show ?case using barrier_sent [OF 4(2,1)] by (simp add: barrier_fresh_def)
next
  case (6 b before q)
  then show ?case by (simp add: barrier_ok_def)
qed (auto intro: queue_step_ok queue_step_fresh queue_step_barrier)

end
