(* ===== verification/Sync_Manager.thy ===== *)
theory Sync_Manager
  imports Release_Queue Errors
begin

text \<open>
  The sync manager, \<open>src/sync_lock/manager.rs\<close>, as a state machine over its shared state: the
  sender behind \<open>release_tx\<close>, the two shutdown flags, the release queue with its worker, the clones
  of the sender that acquisitions and guards hold, and for every call of \<open>shutdown\<close> how far it got.
  One step is one access to a lock, an atomic or the channel. Taking the sender and storing
  \<open>is_shutdown\<close> is one step, because both happen under the lock of \<open>release_tx\<close>.

  Ghost state: \<open>sm_closer\<close> is the call that took the sender, \<open>sm_closed_at\<close> the requests that had
  entered the queue at that time.
\<close>

subsection \<open>State\<close>

datatype shutdown_pc =
    Not_Called
  | Waking bool           \<comment> \<open>left the lock of \<open>release_tx\<close>, with or without the sender\<close>
  | Sending_Barrier
  | Awaiting_Ack
  | Publishing bool
  | Waiting_Result
  | Returned
  | Panicked

record sync_manager =
  sm_release_tx :: bool
  sm_is_shutdown :: bool
  sm_shutdown_result :: "bool option"
  sm_queue :: release_queue
  sm_holders :: nat
  sm_closing :: bool
  sm_calls :: "nat \<Rightarrow> shutdown_pc"
  sm_closer :: "nat option"
  sm_closed_at :: "lock_request list"

definition sync_manager_new :: sync_manager where
  "sync_manager_new =
     \<lparr>sm_release_tx = True, sm_is_shutdown = False, sm_shutdown_result = None,
      sm_queue = release_queue_new, sm_holders = 0, sm_closing = False,
      sm_calls = (\<lambda>c. Not_Called), sm_closer = None, sm_closed_at = []\<rparr>"

text \<open>The sender is alive while the manager, an acquisition, a guard or a shutdown holds it.\<close>

definition sm_senders_alive :: "sync_manager \<Rightarrow> bool" where
  "sm_senders_alive m \<longleftrightarrow> sm_release_tx m \<or> sm_closing m \<or> 0 < sm_holders m"

definition sm_goto :: "nat \<Rightarrow> shutdown_pc \<Rightarrow> sync_manager \<Rightarrow> sync_manager" where
  "sm_goto c pc m = m\<lparr>sm_calls := (sm_calls m)(c := pc)\<rparr>"

subsection \<open>Operations\<close>

definition sm_admit :: "sync_manager \<Rightarrow> (acquire_failure, unit) result \<times> sync_manager" where
  "sm_admit m =
     (if sm_release_tx m then (Inr (), m\<lparr>sm_holders := Suc (sm_holders m)\<rparr>) else (Inl Shutdown, m))"

definition is_shutdown :: "sync_manager \<Rightarrow> bool" where
  "is_shutdown m = sm_is_shutdown m"

text \<open>
  A holder of the sender queues a release without waiting, and drops its sender. \<open>None\<close>: nobody
  holds a sender.
\<close>

definition sm_try_release ::
    "lock_request \<Rightarrow> sync_manager \<Rightarrow> ((send_error, unit) result \<times> sync_manager) option" where
  "sm_try_release r m =
     (if sm_holders m = 0 then None
      else (case queue_try_send (Release r) (sm_queue m) of (res, q) \<Rightarrow> Some (res, m\<lparr>sm_queue := q\<rparr>)))"

definition sm_drop_sender :: "sync_manager \<Rightarrow> sync_manager option" where
  "sm_drop_sender m =
     (if sm_holders m = 0 then None else Some (m\<lparr>sm_holders := sm_holders m - 1\<rparr>))"

text \<open>The steps of \<open>shutdown\<close>, in their order.\<close>

definition shutdown_take :: "nat \<Rightarrow> sync_manager \<Rightarrow> sync_manager option" where
  "shutdown_take c m =
     (if sm_calls m c = Not_Called
      then Some (sm_goto c (Waking (sm_release_tx m))
             (if sm_release_tx m
              then m\<lparr>sm_release_tx := False, sm_is_shutdown := True, sm_closing := True,
                     sm_closer := Some c, sm_closed_at := rq_enqueued (sm_queue m)\<rparr>
              else m\<lparr>sm_is_shutdown := True\<rparr>))
      else None)"

definition shutdown_wake :: "nat \<Rightarrow> sync_manager \<Rightarrow> sync_manager option" where
  "shutdown_wake c m =
     (case sm_calls m c of
        Waking has_sender \<Rightarrow> Some (sm_goto c (if has_sender then Sending_Barrier else Waiting_Result) m)
      | _ \<Rightarrow> None)"

definition shutdown_send :: "nat \<Rightarrow> sync_manager \<Rightarrow> sync_manager option" where
  "shutdown_send c m =
     (if sm_calls m c = Sending_Barrier
      then
        (case queue_send (Barrier c) (sm_queue m) of
           None \<Rightarrow> None
         | Some (Inl e, q) \<Rightarrow> Some (sm_goto c (Publishing False) m)
         | Some (Inr _, q) \<Rightarrow>
             Some (sm_goto c Awaiting_Ack (m\<lparr>sm_queue := q\<rparr>)))
      else None)"

definition shutdown_recv :: "nat \<Rightarrow> sync_manager \<Rightarrow> sync_manager option" where
  "shutdown_recv c m =
     (if sm_calls m c = Awaiting_Ack
      then map_option (\<lambda>complete. sm_goto c (Publishing complete) m) (queue_await_ack c (sm_queue m))
      else None)"

definition shutdown_publish :: "nat \<Rightarrow> sync_manager \<Rightarrow> sync_manager option" where
  "shutdown_publish c m =
     (case sm_calls m c of
        Publishing complete \<Rightarrow>
          Some (sm_goto c Waiting_Result (m\<lparr>sm_shutdown_result := Some complete, sm_closing := False\<rparr>))
      | _ \<Rightarrow> None)"

definition shutdown_wait :: "nat \<Rightarrow> sync_manager \<Rightarrow> sync_manager option" where
  "shutdown_wait c m =
     (if sm_calls m c = Waiting_Result
      then map_option (\<lambda>result. sm_goto c (if result then Returned else Panicked) m) (sm_shutdown_result m)
      else None)"

subsection \<open>Steps\<close>

inductive sync_manager_step :: "sync_manager \<Rightarrow> sync_manager \<Rightarrow> bool" where
  sm_step_admit: "sm_admit m = (Inr (), m') \<Longrightarrow> sync_manager_step m m'"
| sm_step_release: "sm_try_release r m = Some (res, m') \<Longrightarrow> sync_manager_step m m'"
| sm_step_drop: "sm_drop_sender m = Some m' \<Longrightarrow> sync_manager_step m m'"
| sm_step_take: "shutdown_take c m = Some m' \<Longrightarrow> sync_manager_step m m'"
| sm_step_wake: "shutdown_wake c m = Some m' \<Longrightarrow> sync_manager_step m m'"
| sm_step_send: "shutdown_send c m = Some m' \<Longrightarrow> sync_manager_step m m'"
| sm_step_recv: "shutdown_recv c m = Some m' \<Longrightarrow> sync_manager_step m m'"
| sm_step_publish: "shutdown_publish c m = Some m' \<Longrightarrow> sync_manager_step m m'"
| sm_step_wait: "shutdown_wait c m = Some m' \<Longrightarrow> sync_manager_step m m'"
| sm_step_worker_recv: "worker_recv (sm_senders_alive m) (sm_queue m) = Some q \<Longrightarrow>
    sync_manager_step m (m\<lparr>sm_queue := q\<rparr>)"
| sm_step_worker_release: "worker_release (sm_queue m) = Some q \<Longrightarrow>
    sync_manager_step m (m\<lparr>sm_queue := q\<rparr>)"
| sm_step_worker_dies: "sync_manager_step m (m\<lparr>sm_queue := worker_dies (sm_queue m)\<rparr>)"

inductive_cases sync_manager_stepE: "sync_manager_step m m'"

inductive sync_manager_reach :: "sync_manager \<Rightarrow> bool" where
  sm_reach_new: "sync_manager_reach sync_manager_new"
| sm_reach_step: "sync_manager_reach m \<Longrightarrow> sync_manager_step m m' \<Longrightarrow> sync_manager_reach m'"

subsection \<open>The invariant\<close>

text \<open>The barrier that was sent in time: everything queued before the close was queued before it.\<close>

definition barrier_done :: "sync_manager \<Rightarrow> bool" where
  "barrier_done m \<longleftrightarrow> prefix (sm_closed_at m) (rq_released (sm_queue m))"

text \<open>What holds of the call that took the sender, at each of its steps.\<close>

fun closer_ok :: "nat \<Rightarrow> shutdown_pc \<Rightarrow> sync_manager \<Rightarrow> bool" where
  "closer_ok t (Waking b) m = (b \<and> sm_shutdown_result m = None \<and> sm_closing m \<and> barrier_fresh t (sm_queue m))"
| "closer_ok t Sending_Barrier m =
     (sm_shutdown_result m = None \<and> sm_closing m \<and> barrier_fresh t (sm_queue m))"
| "closer_ok t Awaiting_Ack m =
     (sm_shutdown_result m = None \<and> sm_closing m \<and>
      (\<exists>before. barrier_ok t before (sm_queue m) \<and> prefix (sm_closed_at m) before))"
| "closer_ok t (Publishing b) m =
     (sm_shutdown_result m = None \<and> sm_closing m \<and> (b \<longrightarrow> barrier_done m))"
| "closer_ok t Not_Called m = False"
| "closer_ok t pc m = (\<exists>b. sm_shutdown_result m = Some b \<and> (b \<longrightarrow> barrier_done m))"

fun bystander_ok :: "shutdown_pc \<Rightarrow> bool" where
  "bystander_ok (Waking b) = (\<not> b)"
| "bystander_ok Sending_Barrier = False"
| "bystander_ok Awaiting_Ack = False"
| "bystander_ok (Publishing b) = False"
| "bystander_ok pc = True"

fun verdict_ok :: "bool option \<Rightarrow> shutdown_pc \<Rightarrow> bool" where
  "verdict_ok r Returned = (r = Some True)"
| "verdict_ok r Panicked = (r = Some False)"
| "verdict_ok r pc = True"

lemma verdict_ok_None: "verdict_ok None pc \<Longrightarrow> verdict_ok r pc"
  by (cases pc) simp_all

definition sync_manager_ok :: "sync_manager \<Rightarrow> bool" where
  "sync_manager_ok m \<longleftrightarrow>
     queue_ok (sm_queue m) \<and>
     (\<forall>c. verdict_ok (sm_shutdown_result m) (sm_calls m c)) \<and>
     (case sm_closer m of
        None \<Rightarrow>
          sm_release_tx m \<and> \<not> sm_is_shutdown m \<and> \<not> sm_closing m \<and> sm_shutdown_result m = None \<and>
          (\<forall>c. sm_calls m c = Not_Called) \<and> (\<forall>c. barrier_fresh c (sm_queue m))
      | Some t \<Rightarrow>
          \<not> sm_release_tx m \<and> sm_is_shutdown m \<and> closer_ok t (sm_calls m t) m \<and>
          (\<forall>c. c \<noteq> t \<longrightarrow> bystander_ok (sm_calls m c)) \<and>
          prefix (sm_closed_at m) (rq_enqueued (sm_queue m)))"

lemma sync_manager_new_ok: "sync_manager_ok sync_manager_new"
  by (simp add: sync_manager_ok_def sync_manager_new_def queue_new_ok barrier_fresh_new)

lemma closer_ok_queue:
  assumes "closer_ok t pc m" and "\<And>b. queue_step b (sm_queue m) q"
  shows "closer_ok t pc (m\<lparr>sm_queue := q\<rparr>)"
proof -
  have "barrier_done m \<Longrightarrow> barrier_done (m\<lparr>sm_queue := q\<rparr>)"
    using queue_step_grows [OF assms(2)] by (auto simp: barrier_done_def intro: prefix_order.trans)
  with assms show ?thesis
    by (cases pc) (auto intro: queue_step_fresh queue_step_barrier)
qed

lemma sm_queue_ok:
  assumes "sync_manager_ok m" and "\<And>b. queue_step b (sm_queue m) q"
  shows "sync_manager_ok (m\<lparr>sm_queue := q\<rparr>)"
proof -
  have q: "queue_ok q" using assms queue_step_ok by (auto simp: sync_manager_ok_def)
  have grow: "prefix (rq_enqueued (sm_queue m)) (rq_enqueued q)"
    using queue_step_grows [OF assms(2)] by simp
  show ?thesis
  proof (cases "sm_closer m")
    case None
    with assms q queue_step_fresh [OF assms(2)] show ?thesis
      by (auto simp: sync_manager_ok_def)
  next
    case (Some t)
    with assms q grow closer_ok_queue [of t "sm_calls m t" m q] show ?thesis
      by (auto simp: sync_manager_ok_def intro: prefix_order.trans)
  qed
qed

lemma closer_ok_holders [simp]: "closer_ok t pc (m\<lparr>sm_holders := n\<rparr>) = closer_ok t pc m"
  by (cases pc) (simp_all add: barrier_done_def)

lemma closer_ok_calls [simp]: "closer_ok t pc (m\<lparr>sm_calls := f\<rparr>) = closer_ok t pc m"
  by (cases pc) (simp_all add: barrier_done_def)

lemma closer_ok_shutdown [simp]: "closer_ok t pc (m\<lparr>sm_is_shutdown := b\<rparr>) = closer_ok t pc m"
  by (cases pc) (simp_all add: barrier_done_def)

lemma sm_holders_ok: "sync_manager_ok m \<Longrightarrow> sync_manager_ok (m\<lparr>sm_holders := n\<rparr>)"
  by (simp add: sync_manager_ok_def split: option.splits)

lemma sm_admit_ok: "sync_manager_ok m \<Longrightarrow> sm_admit m = (r, m') \<Longrightarrow> sync_manager_ok m'"
  by (auto simp: sm_admit_def sm_holders_ok split: if_splits)

lemma sm_drop_ok: "sync_manager_ok m \<Longrightarrow> sm_drop_sender m = Some m' \<Longrightarrow> sync_manager_ok m'"
  by (auto simp: sm_drop_sender_def sm_holders_ok split: if_splits)

lemma sm_release_ok: "sync_manager_ok m \<Longrightarrow> sm_try_release r m = Some (res, m') \<Longrightarrow> sync_manager_ok m'"
  by (auto simp: sm_try_release_def intro: sm_queue_ok try_release_step split: if_splits prod.splits)

text \<open>A call that moves on without touching the shared state.\<close>

lemma goto_bystander:
  assumes "sync_manager_ok m" and "sm_closer m = Some t" and "c \<noteq> t" and "bystander_ok pc"
    and "verdict_ok (sm_shutdown_result m) pc"
  shows "sync_manager_ok (sm_goto c pc m)"
  using assms by (auto simp: sync_manager_ok_def sm_goto_def)

lemma goto_closer:
  assumes "sync_manager_ok m" and "sm_closer m = Some t" and "closer_ok t pc m"
    and "verdict_ok (sm_shutdown_result m) pc"
  shows "sync_manager_ok (sm_goto t pc m)"
  using assms by (auto simp: sync_manager_ok_def sm_goto_def)

text \<open>A call that is on its way has a closer to wait for.\<close>

lemma called_has_closer:
  "sync_manager_ok m \<Longrightarrow> sm_calls m c \<noteq> Not_Called \<Longrightarrow> \<exists>t. sm_closer m = Some t"
  by (auto simp: sync_manager_ok_def split: option.splits)

lemma shutdown_take_ok:
  assumes "sync_manager_ok m" and "shutdown_take c m = Some m'"
  shows "sync_manager_ok m'"
  using assms
  by (cases "sm_closer m")
    (auto simp: sync_manager_ok_def shutdown_take_def sm_goto_def split: if_splits)

lemma shutdown_wake_ok:
  assumes "sync_manager_ok m" and "shutdown_wake c m = Some m'"
  shows "sync_manager_ok m'"
proof -
  obtain b where c: "sm_calls m c = Waking b"
    "m' = sm_goto c (if b then Sending_Barrier else Waiting_Result) m"
    using assms(2) by (auto simp: shutdown_wake_def split: shutdown_pc.splits)
  then obtain t where t: "sm_closer m = Some t" using called_has_closer [OF assms(1)] by fastforce
  show ?thesis
  proof (cases "c = t")
    case True
    then have "closer_ok t (Waking b) m" using assms(1) t c by (auto simp: sync_manager_ok_def)
    with assms(1) t c True show ?thesis by (auto intro: goto_closer)
  next
    case False
    then have "\<not> b" using assms(1) t c by (auto simp: sync_manager_ok_def)
    with assms(1) t c False show ?thesis by (auto intro: goto_bystander)
  qed
qed

text \<open>Only the call that took the sender sends the barrier, awaits it and publishes.\<close>

lemma closer_pc:
  assumes "sync_manager_ok m" and "\<not> bystander_ok (sm_calls m c)"
  shows "sm_closer m = Some c" and "closer_ok c (sm_calls m c) m"
proof -
  have "sm_calls m c \<noteq> Not_Called" using assms(2) by auto
  then obtain t where t: "sm_closer m = Some t" using called_has_closer [OF assms(1)] by blast
  then have "c = t" using assms by (auto simp: sync_manager_ok_def)
  with t assms(1) show "sm_closer m = Some c" "closer_ok c (sm_calls m c) m"
    by (auto simp: sync_manager_ok_def)
qed

lemma shutdown_send_ok:
  assumes "sync_manager_ok m" and "shutdown_send c m = Some m'"
  shows "sync_manager_ok m'"
proof -
  have pc: "sm_calls m c = Sending_Barrier" using assms(2) by (simp add: shutdown_send_def split: if_splits)
  then have closer: "sm_closer m = Some c" "closer_ok c Sending_Barrier m"
    using closer_pc [OF assms(1), of c] by auto
  obtain r where r: "queue_send (Barrier c) (sm_queue m) = Some r"
    using assms(2) pc by (auto simp: shutdown_send_def split: option.splits)
  then show ?thesis
  proof (cases rule: queue_send_cases)
    case 1
    then have "m' = sm_goto c (Publishing False) m" using assms(2) pc r by (simp add: shutdown_send_def)
    with assms(1) closer show ?thesis by (auto intro: goto_closer)
  next
    case (2 q)
    then have m': "m' = sm_goto c Awaiting_Ack (m\<lparr>sm_queue := q\<rparr>)"
      using assms(2) pc r by (simp add: shutdown_send_def)
    have ok: "queue_ok (sm_queue m)" "prefix (sm_closed_at m) (rq_enqueued (sm_queue m))"
      "barrier_fresh c (sm_queue m)"
      using assms(1) closer by (auto simp: sync_manager_ok_def)
    have "barrier_ok c (rq_enqueued (sm_queue m)) q" by (rule rq.send_tracked [OF 2(2) ok(1,3)])
    moreover have "queue_ok q" by (rule rq.send_inv [OF 2(2) ok(1)])
    moreover have "rq_enqueued q = rq_enqueued (sm_queue m)"
      using try_send_okD [OF 2(2)] by (simp add: queue_push_def)
    ultimately show ?thesis
      using assms(1) closer ok(2) unfolding m' by (auto simp: sync_manager_ok_def sm_goto_def)
  qed
qed

lemma shutdown_recv_ok:
  assumes "sync_manager_ok m" and "shutdown_recv c m = Some m'"
  shows "sync_manager_ok m'"
proof -
  have pc: "sm_calls m c = Awaiting_Ack" using assms(2) by (simp add: shutdown_recv_def split: if_splits)
  then have closer: "sm_closer m = Some c" "closer_ok c Awaiting_Ack m"
    using closer_pc [OF assms(1), of c] by auto
  then obtain before where b: "barrier_ok c before (sm_queue m)" "prefix (sm_closed_at m) before" by auto
  obtain d where d: "queue_await_ack c (sm_queue m) = Some d" "m' = sm_goto c (Publishing d) m"
    using assms(2) pc by (auto simp: shutdown_recv_def)
  have "barrier_done m" if d
    using that d(1) b rq.acked_tracked [OF b(1)]
    by (auto simp: queue_await_ack_def barrier_done_def intro: prefix_order.trans split: if_splits)
  with assms(1) closer d show ?thesis by (auto intro: goto_closer)
qed

lemma shutdown_publish_ok:
  assumes "sync_manager_ok m" and "shutdown_publish c m = Some m'"
  shows "sync_manager_ok m'"
proof -
  obtain b where pc: "sm_calls m c = Publishing b"
    "m' = sm_goto c Waiting_Result (m\<lparr>sm_shutdown_result := Some b, sm_closing := False\<rparr>)"
    using assms(2) by (auto simp: shutdown_publish_def split: shutdown_pc.splits)
  then have closer: "sm_closer m = Some c" "closer_ok c (Publishing b) m"
    using closer_pc [OF assms(1), of c] by auto
  have "verdict_ok (sm_shutdown_result m) (sm_calls m d)" for d
    using assms(1) by (simp add: sync_manager_ok_def)
  then have "verdict_ok (Some b) (sm_calls m d)" for d
    using closer(2) verdict_ok_None [of "sm_calls m d" "Some b"] by simp
  with assms(1) pc closer show ?thesis
    by (auto simp: sync_manager_ok_def sm_goto_def barrier_done_def)
qed

lemma shutdown_wait_ok:
  assumes "sync_manager_ok m" and "shutdown_wait c m = Some m'"
  shows "sync_manager_ok m'"
proof -
  obtain b where pc: "sm_calls m c = Waiting_Result" "sm_shutdown_result m = Some b"
    "m' = sm_goto c (if b then Returned else Panicked) m"
    using assms(2) by (auto simp: shutdown_wait_def split: if_splits)
  then obtain t where t: "sm_closer m = Some t" using called_has_closer [OF assms(1), of c] by auto
  show ?thesis
  proof (cases "c = t")
    case True
    then have "closer_ok t Waiting_Result m" using assms(1) t pc by (auto simp: sync_manager_ok_def)
    with assms(1) t pc True show ?thesis by (auto intro!: goto_closer)
  next
    case False
    with assms(1) t pc show ?thesis by (auto intro!: goto_bystander)
  qed
qed

lemma sync_manager_step_ok: "sync_manager_step m m' \<Longrightarrow> sync_manager_ok m \<Longrightarrow> sync_manager_ok m'"
  by (erule sync_manager_stepE)
    (auto intro: sm_admit_ok sm_release_ok sm_drop_ok shutdown_take_ok shutdown_wake_ok shutdown_send_ok
      shutdown_recv_ok shutdown_publish_ok shutdown_wait_ok sm_queue_ok step_recv step_released step_dies)

lemma sync_manager_reach_ok: "sync_manager_reach m \<Longrightarrow> sync_manager_ok m"
  by (induction rule: sync_manager_reach.induct) (auto simp: sync_manager_new_ok sync_manager_step_ok)

subsection \<open>After the close\<close>

lemma closed_stays_closed:
  "sync_manager_step m m' \<Longrightarrow> \<not> sm_release_tx m \<Longrightarrow>
     \<not> sm_release_tx m' \<and> sm_closed_at m' = sm_closed_at m"
  by (erule sync_manager_stepE)
    (auto simp: sm_admit_def sm_try_release_def sm_drop_sender_def shutdown_take_def shutdown_wake_def
      shutdown_send_def shutdown_recv_def shutdown_publish_def shutdown_wait_def sm_goto_def
      split: if_splits prod.splits option.splits sum.splits shutdown_pc.splits)

lemma closed_path:
  "sync_manager_step\<^sup>*\<^sup>* m m' \<Longrightarrow> \<not> sm_release_tx m \<Longrightarrow>
     \<not> sm_release_tx m' \<and> sm_closed_at m' = sm_closed_at m"
  by (induction rule: rtranclp_induct) (auto dest: closed_stays_closed)

lemma sync_manager_path_ok: "sync_manager_step\<^sup>*\<^sup>* m m' \<Longrightarrow> sync_manager_ok m \<Longrightarrow> sync_manager_ok m'"
  by (induction rule: rtranclp_induct) (auto intro: sync_manager_step_ok)

lemma returned_barrier_done:
  assumes "sync_manager_ok m" and "sm_calls m c = Returned"
  shows "barrier_done m"
proof -
  obtain t where t: "sm_closer m = Some t" using called_has_closer [OF assms(1), of c] assms(2) by auto
  have "verdict_ok (sm_shutdown_result m) (sm_calls m c)" using assms(1) by (simp add: sync_manager_ok_def)
  then have "sm_shutdown_result m = Some True" using assms(2) by simp
  moreover have "closer_ok t (sm_calls m t) m" using assms(1) t by (simp add: sync_manager_ok_def)
  ultimately show ?thesis by (cases "sm_calls m t") auto
qed

text \<open>Somebody can always move: a call that waits, the closer it waits for, or the worker.\<close>

definition call_enabled :: "nat \<Rightarrow> sync_manager \<Rightarrow> bool" where
  "call_enabled c m \<longleftrightarrow>
     shutdown_wake c m \<noteq> None \<or> shutdown_send c m \<noteq> None \<or> shutdown_recv c m \<noteq> None \<or>
     shutdown_publish c m \<noteq> None \<or> shutdown_wait c m \<noteq> None"

definition worker_enabled_sm :: "sync_manager \<Rightarrow> bool" where
  "worker_enabled_sm m \<longleftrightarrow>
     worker_recv (sm_senders_alive m) (sm_queue m) \<noteq> None \<or> worker_release (sm_queue m) \<noteq> None"

lemma closer_waits:
  assumes "sync_manager_ok m" and "sm_closer m = Some t" and "sm_shutdown_result m = None"
  shows "call_enabled t m \<or> rq_items (sm_queue m) \<noteq> []"
proof -
  have ok: "closer_ok t (sm_calls m t) m" using assms(1,2) by (auto simp: sync_manager_ok_def)
  show ?thesis
  proof (cases "sm_calls m t")
    case Sending_Barrier
    show ?thesis
    proof (cases "queue_send (Barrier t) (sm_queue m)")
      case None
      then show ?thesis by (auto simp: queue_send_blocks RECYCLE_CHANNEL_BUFFER_def)
    next
      case (Some r)
      with Sending_Barrier show ?thesis
        by (auto simp: call_enabled_def shutdown_send_def split: prod.splits sum.splits)
    qed
  next
    case Awaiting_Ack
    show ?thesis
    proof (cases "queue_await_ack t (sm_queue m)")
      case None
      then show ?thesis by (auto simp: await_ack_blocks)
    next
      case (Some b)
      with Awaiting_Ack show ?thesis by (auto simp: call_enabled_def shutdown_recv_def)
    qed
  qed (use ok assms(3) in \<open>auto simp: call_enabled_def shutdown_wake_def shutdown_publish_def\<close>)
qed

lemma closer_progress:
  assumes "sync_manager_ok m" and "sm_closer m = Some t" and "sm_shutdown_result m = None"
  shows "call_enabled t m \<or> worker_enabled_sm m"
proof -
  have "queue_ok (sm_queue m)" using assms(1) by (simp add: sync_manager_ok_def)
  then show ?thesis
    using closer_waits [OF assms] worker_enabled [of "sm_queue m" "sm_senders_alive m"]
    by (auto simp: worker_enabled_sm_def)
qed

lemma waiter_enabled:
  assumes "sync_manager_ok m" and "sm_closer m = Some t" and "sm_shutdown_result m = Some b"
    and "sm_calls m c \<notin> {Not_Called, Returned, Panicked}"
  shows "call_enabled c m"
proof -
  have "bystander_ok (sm_calls m c) \<or> c = t" "closer_ok t (sm_calls m t) m"
    using assms(1,2) by (auto simp: sync_manager_ok_def)
  with assms(3,4) show ?thesis
    by (cases "sm_calls m c") (auto simp: call_enabled_def shutdown_wait_def shutdown_wake_def)
qed

lemma shutdown_progress:
  assumes "sync_manager_ok m" and "sm_calls m c \<notin> {Not_Called, Returned, Panicked}"
  shows "call_enabled c m \<or> worker_enabled_sm m \<or> (\<exists>t. sm_closer m = Some t \<and> call_enabled t m)"
proof -
  obtain t where t: "sm_closer m = Some t" using called_has_closer [OF assms(1), of c] assms(2) by auto
  show ?thesis
    using closer_progress [OF assms(1) t] waiter_enabled [OF assms(1) t _ assms(2)] t
    by (cases "sm_shutdown_result m") auto
qed

text \<open>The steps as events, so that runs can be computed.\<close>

datatype sm_event =
    E_Admit | E_Release lock_request | E_Drop
  | E_Take nat | E_Wake nat | E_Send nat | E_Recv nat | E_Publish nat | E_Wait nat
  | E_Worker_Recv | E_Worker_Release

fun sm_apply :: "sm_event \<Rightarrow> sync_manager \<Rightarrow> sync_manager option" where
  "sm_apply E_Admit m = (case sm_admit m of (Inr _, m') \<Rightarrow> Some m' | _ \<Rightarrow> None)"
| "sm_apply (E_Release r) m = map_option snd (sm_try_release r m)"
| "sm_apply E_Drop m = sm_drop_sender m"
| "sm_apply (E_Take c) m = shutdown_take c m"
| "sm_apply (E_Wake c) m = shutdown_wake c m"
| "sm_apply (E_Send c) m = shutdown_send c m"
| "sm_apply (E_Recv c) m = shutdown_recv c m"
| "sm_apply (E_Publish c) m = shutdown_publish c m"
| "sm_apply (E_Wait c) m = shutdown_wait c m"
| "sm_apply E_Worker_Recv m =
     map_option (\<lambda>q. m\<lparr>sm_queue := q\<rparr>) (worker_recv (sm_senders_alive m) (sm_queue m))"
| "sm_apply E_Worker_Release m = map_option (\<lambda>q. m\<lparr>sm_queue := q\<rparr>) (worker_release (sm_queue m))"

fun sm_exec :: "sm_event list \<Rightarrow> sync_manager \<Rightarrow> sync_manager option" where
  "sm_exec [] m = Some m"
| "sm_exec (e # es) m = (case sm_apply e m of None \<Rightarrow> None | Some m' \<Rightarrow> sm_exec es m')"

lemma sm_apply_step: "sm_apply e m = Some m' \<Longrightarrow> sync_manager_step m m'"
  by (cases e) (auto intro: sync_manager_step.intros split: prod.splits sum.splits)

lemma sm_exec_path: "sm_exec es m = Some m' \<Longrightarrow> sync_manager_step\<^sup>*\<^sup>* m m'"
  by (induction es arbitrary: m)
    (auto split: option.splits dest: sm_apply_step intro: converse_rtranclp_into_rtranclp)

lemma sm_path_reach: "sync_manager_step\<^sup>*\<^sup>* m m' \<Longrightarrow> sync_manager_reach m \<Longrightarrow> sync_manager_reach m'"
  by (induction rule: rtranclp_induct) (auto intro: sm_reach_step)

lemma sm_exec_reach: "sm_exec es sync_manager_new = Some m \<Longrightarrow> sync_manager_reach m"
  using sm_exec_path sm_path_reach sm_reach_new by blast

lemmas sm_run_defs =
  sm_admit_def sm_try_release_def shutdown_take_def shutdown_wake_def shutdown_send_def
  shutdown_recv_def shutdown_publish_def shutdown_wait_def sm_goto_def sm_senders_alive_def
  queue_send_def queue_try_send_def queue_push_def queue_await_ack_def worker_recv_def
  worker_release_def RECYCLE_CHANNEL_BUFFER_def sync_manager_new_def release_queue_new_def

subsection \<open>Properties\<close>

text \<open>
  \<open>shutdown\<close> waits for the queue. If the manager was open when a call of \<open>shutdown\<close> took the
  sender, then on every later path on which that call, or any other call of \<open>shutdown\<close>, returns
  normally, every release request that had entered the queue before has been sent to Redis by then,
  in the order of the queue.
\<close>

theorem shutdown_waits_for_queue:
  assumes "sync_manager_reach m" and "sm_release_tx m" and "shutdown_take t m = Some m1"
    and "sync_manager_step\<^sup>*\<^sup>* m1 m2" and "sm_calls m2 c = Returned"
  shows "prefix (rq_enqueued (sm_queue m)) (rq_released (sm_queue m2))"
proof -
  have m1: "\<not> sm_release_tx m1 \<and> sm_closed_at m1 = rq_enqueued (sm_queue m)"
    using assms(2,3) by (auto simp: shutdown_take_def sm_goto_def split: if_splits)
  have "sync_manager_ok m1" using shutdown_take_ok assms(1,3) sync_manager_reach_ok by blast
  then have "barrier_done m2"
    using assms(4,5) by (blast intro: returned_barrier_done sync_manager_path_ok)
  then show ?thesis using closed_path [OF assms(4)] m1 by (simp add: barrier_done_def)
qed

text \<open>
  C32: Shutdown is final. Once \<open>is_shutdown\<close> is set, no acquisition is ever admitted again, and all
  calls of \<open>shutdown\<close> that end agree on how it ended.
\<close>

theorem shutdown_is_final:
  assumes "sync_manager_reach m" and "is_shutdown m" and "sync_manager_step\<^sup>*\<^sup>* m m'"
  shows "fst (sm_admit m') = Inl Shutdown \<and> is_shutdown m' \<and>
    \<not> (sm_calls m' c = Returned \<and> sm_calls m' d = Panicked)"
proof -
  have ok: "sync_manager_ok m" "sync_manager_ok m'"
    using sync_manager_reach_ok [OF assms(1)] sync_manager_path_ok [OF assms(3)] by auto
  then have "\<not> sm_release_tx m" using assms(2) by (auto simp: sync_manager_ok_def is_shutdown_def split: option.splits)
  then have "\<not> sm_release_tx m'" using closed_path [OF assms(3)] by simp
  moreover have "verdict_ok (sm_shutdown_result m') (sm_calls m' c)"
    "verdict_ok (sm_shutdown_result m') (sm_calls m' d)"
    using ok(2) by (simp_all add: sync_manager_ok_def)
  moreover have "sm_is_shutdown m'"
    using ok(2) calculation(1) by (auto simp: sync_manager_ok_def split: option.splits)
  ultimately show ?thesis by (auto simp: sm_admit_def is_shutdown_def)
qed

text \<open>
  \<open>shutdown\<close> cannot get stuck. In every reachable state, as long as a call of \<open>shutdown\<close> has not
  ended, that call, or the worker, or the call that sends the barrier can take a step, also when the
  queue is full and when the worker has died.
\<close>

theorem shutdown_never_stuck:
  assumes "sync_manager_reach m" and "sm_calls m c \<notin> {Not_Called, Returned, Panicked}"
  shows "call_enabled c m \<or> worker_enabled_sm m \<or> (\<exists>t. sm_closer m = Some t \<and> call_enabled t m)"
  by (rule shutdown_progress [OF sync_manager_reach_ok [OF assms(1)] assms(2)])

definition example_request :: lock_request where
  "example_request = \<lparr>lr_target = Single ''k'', lr_uuid = ''u''\<rparr>"

text \<open>A run: one release is queued, call 7 shuts the manager down and returns.\<close>

definition sm_queued :: sync_manager where
  "sm_queued = the (sm_exec [E_Admit, E_Release example_request] sync_manager_new)"

definition sm_taken :: sync_manager where
  "sm_taken = the (sm_exec [E_Take 7] sm_queued)"

definition sm_ended :: sync_manager where
  "sm_ended = the (sm_exec [E_Wake 7, E_Send 7, E_Worker_Recv, E_Worker_Release, E_Worker_Recv,
     E_Recv 7, E_Publish 7, E_Wait 7] sm_taken)"

lemma sm_queued_run: "sm_exec [E_Admit, E_Release example_request] sync_manager_new = Some sm_queued"
  by (simp add: sm_queued_def sm_run_defs)

lemma sm_taken_run: "sm_exec [E_Take 7] sm_queued = Some sm_taken"
  by (simp add: sm_taken_def sm_queued_def sm_run_defs)

lemma sm_ended_run: "sm_exec [E_Wake 7, E_Send 7, E_Worker_Recv, E_Worker_Release, E_Worker_Recv,
     E_Recv 7, E_Publish 7, E_Wait 7] sm_taken = Some sm_ended"
  by (simp add: sm_ended_def sm_taken_def sm_queued_def sm_run_defs)

lemma sm_queued_reach: "sync_manager_reach sm_queued"
  by (rule sm_exec_reach [OF sm_queued_run])

lemma sm_taken_reach: "sync_manager_reach sm_taken"
  using sm_exec_path [OF sm_taken_run] sm_queued_reach by (rule sm_path_reach)

lemma sm_example_facts:
  "sm_release_tx sm_queued" "shutdown_take 7 sm_queued = Some sm_taken" "is_shutdown sm_taken"
  "sm_calls sm_ended 7 = Returned" "sm_calls sm_taken 7 = Waking True"
  "rq_enqueued (sm_queue sm_queued) = [example_request]"
  by (simp_all add: sm_ended_def sm_taken_def sm_queued_def sm_run_defs is_shutdown_def)

theorem shutdown_waits_for_queue_witness:
  "prefix [example_request] (rq_released (sm_queue sm_ended))"
  using shutdown_waits_for_queue [OF sm_queued_reach sm_example_facts(1,2) sm_exec_path [OF sm_ended_run]
      sm_example_facts(4)]
  by (simp add: sm_example_facts)

theorem shutdown_is_final_witness:
  "fst (sm_admit sm_ended) = Inl Shutdown"
  using shutdown_is_final [OF sm_taken_reach sm_example_facts(3) sm_exec_path [OF sm_ended_run]] by simp

theorem shutdown_never_stuck_witness:
  "call_enabled 7 sm_taken \<or> worker_enabled_sm sm_taken \<or>
   (\<exists>t. sm_closer sm_taken = Some t \<and> call_enabled t sm_taken)"
  by (rule shutdown_never_stuck [OF sm_taken_reach]) (simp add: sm_example_facts)

end
