(* ===== verification/Async_Manager.thy ===== *)
theory Async_Manager
  imports Release_Queue Errors
begin

text \<open>
  The async manager, \<open>src/async_lock/manager.rs\<close>, as a state machine: the sender behind the
  \<open>admission\<close> lock, the watch channel with the shutdown state, the release queue with its worker task,
  the monitor task that awaits the worker, the coordinator task that the first \<open>shutdown\<close> spawns, and
  the calls of \<open>shutdown\<close>. A step is what a task does between two awaits.

  Ghost state: \<open>am_closed_at\<close> holds the requests that had entered the queue when the sender was taken.
\<close>

subsection \<open>State\<close>

datatype shutdown_state = Open | Closing | Completed | Failed

datatype coordinator_pc =
    No_Coordinator
  | Coord_Sending
  | Coord_Awaiting
  | Coord_Completing bool
  | Coord_Done

datatype async_call_pc = Async_Not_Called | Async_Waiting | Async_Returned | Async_Panicked

record async_manager =
  am_admission :: bool
  am_shutdown :: shutdown_state
  am_queue :: release_queue
  am_crashed :: bool
  am_holders :: nat
  am_coordinator :: coordinator_pc
  am_calls :: "nat \<Rightarrow> async_call_pc"
  am_closed_at :: "lock_request list"

definition async_manager_new :: async_manager where
  "async_manager_new =
     \<lparr>am_admission = True, am_shutdown = Open, am_queue = release_queue_new, am_crashed = False,
      am_holders = 0, am_coordinator = No_Coordinator, am_calls = (\<lambda>c. Async_Not_Called),
      am_closed_at = []\<rparr>"

fun coordinator_running :: "coordinator_pc \<Rightarrow> bool" where
  "coordinator_running No_Coordinator = False"
| "coordinator_running Coord_Done = False"
| "coordinator_running pc = True"

definition am_senders_alive :: "async_manager \<Rightarrow> bool" where
  "am_senders_alive m \<longleftrightarrow>
     am_admission m \<or> coordinator_running (am_coordinator m) \<or> 0 < am_holders m"

subsection \<open>Operations\<close>

definition am_admit :: "async_manager \<Rightarrow> (acquire_failure, unit) result \<times> async_manager" where
  "am_admit m =
     (if am_shutdown m \<noteq> Open then (Inl Shutdown, m)
      else if am_admission m then (Inr (), m\<lparr>am_holders := Suc (am_holders m)\<rparr>)
      else (Inl Shutdown, m))"

definition is_open :: "async_manager \<Rightarrow> bool" where
  "is_open m \<longleftrightarrow> am_shutdown m = Open"

definition am_try_release ::
    "lock_request \<Rightarrow> async_manager \<Rightarrow> ((send_error, unit) result \<times> async_manager) option" where
  "am_try_release r m =
     (if am_holders m = 0 then None
      else (case queue_try_send (Release r) (am_queue m) of (res, q) \<Rightarrow> Some (res, m\<lparr>am_queue := q\<rparr>)))"

definition am_drop_sender :: "async_manager \<Rightarrow> async_manager option" where
  "am_drop_sender m =
     (if am_holders m = 0 then None else Some (m\<lparr>am_holders := am_holders m - 1\<rparr>))"

text \<open>The part of \<open>shutdown\<close> under the admission lock, with the spawn of the coordinator.\<close>

definition async_shutdown :: "nat \<Rightarrow> async_manager \<Rightarrow> async_manager option" where
  "async_shutdown c m =
     (if am_calls m c = Async_Not_Called
      then Some ((if am_admission m
                  then m\<lparr>am_admission := False,
                         am_shutdown := (if am_shutdown m = Open then Closing else am_shutdown m),
                         am_coordinator := Coord_Sending,
                         am_closed_at := rq_enqueued (am_queue m)\<rparr>
                  else m)\<lparr>am_calls := (am_calls m)(c := Async_Waiting)\<rparr>)
      else None)"

text \<open>The loop at the end of \<open>shutdown\<close>: it returns, panics, or waits for the next change.\<close>

definition async_shutdown_wait :: "nat \<Rightarrow> async_manager \<Rightarrow> async_manager option" where
  "async_shutdown_wait c m =
     (if am_calls m c = Async_Waiting
      then
        (case am_shutdown m of
           Completed \<Rightarrow> Some (m\<lparr>am_calls := (am_calls m)(c := Async_Returned)\<rparr>)
         | Failed \<Rightarrow> Some (m\<lparr>am_calls := (am_calls m)(c := Async_Panicked)\<rparr>)
         | _ \<Rightarrow> None)
      else None)"

text \<open>The coordinator task. It is the only sender of a barrier, so the barrier has number 0.\<close>

definition coordinator_send :: "async_manager \<Rightarrow> async_manager option" where
  "coordinator_send m =
     (if am_coordinator m = Coord_Sending
      then
        (case queue_send (Barrier 0) (am_queue m) of
           None \<Rightarrow> None
         | Some (Inl e, q) \<Rightarrow> Some (m\<lparr>am_coordinator := Coord_Completing False\<rparr>)
         | Some (Inr _, q) \<Rightarrow> Some (m\<lparr>am_queue := q, am_coordinator := Coord_Awaiting\<rparr>))
      else None)"

definition coordinator_await :: "async_manager \<Rightarrow> async_manager option" where
  "coordinator_await m =
     (if am_coordinator m = Coord_Awaiting
      then map_option (\<lambda>completed. m\<lparr>am_coordinator := Coord_Completing completed\<rparr>)
             (queue_await_ack 0 (am_queue m))
      else None)"

definition coordinator_complete :: "async_manager \<Rightarrow> async_manager option" where
  "coordinator_complete m =
     (case am_coordinator m of
        Coord_Completing completed \<Rightarrow>
          Some (m\<lparr>am_coordinator := Coord_Done,
                  am_shutdown := (if am_shutdown m = Failed then Failed
                                  else if completed then Completed else Failed)\<rparr>)
      | _ \<Rightarrow> None)"

text \<open>The monitor task: an error of the worker's join handle fails the shutdown, unless it completed.\<close>

definition monitor_failed :: "async_manager \<Rightarrow> async_manager option" where
  "monitor_failed m =
     (if am_crashed m
      then Some (if am_shutdown m = Completed then m else m\<lparr>am_shutdown := Failed\<rparr>)
      else None)"

text \<open>\<open>wait_for_shutdown\<close> returns as soon as the state is not open; \<open>None\<close> means that it waits.\<close>

definition wait_for_shutdown :: "async_manager \<Rightarrow> unit option" where
  "wait_for_shutdown m = (if am_shutdown m \<noteq> Open then Some () else None)"

subsection \<open>Steps\<close>

inductive async_manager_step :: "async_manager \<Rightarrow> async_manager \<Rightarrow> bool" where
  am_step_admit: "am_admit m = (Inr (), m') \<Longrightarrow> async_manager_step m m'"
| am_step_release: "am_try_release r m = Some (res, m') \<Longrightarrow> async_manager_step m m'"
| am_step_drop: "am_drop_sender m = Some m' \<Longrightarrow> async_manager_step m m'"
| am_step_shutdown: "async_shutdown c m = Some m' \<Longrightarrow> async_manager_step m m'"
| am_step_wait: "async_shutdown_wait c m = Some m' \<Longrightarrow> async_manager_step m m'"
| am_step_send: "coordinator_send m = Some m' \<Longrightarrow> async_manager_step m m'"
| am_step_await: "coordinator_await m = Some m' \<Longrightarrow> async_manager_step m m'"
| am_step_complete: "coordinator_complete m = Some m' \<Longrightarrow> async_manager_step m m'"
| am_step_monitor: "monitor_failed m = Some m' \<Longrightarrow> async_manager_step m m'"
| am_step_worker_recv: "worker_recv (am_senders_alive m) (am_queue m) = Some q \<Longrightarrow>
    async_manager_step m (m\<lparr>am_queue := q\<rparr>)"
| am_step_worker_release: "worker_release (am_queue m) = Some q \<Longrightarrow>
    async_manager_step m (m\<lparr>am_queue := q\<rparr>)"
| am_step_worker_dies:
    "async_manager_step m (m\<lparr>am_queue := worker_dies (am_queue m), am_crashed := True\<rparr>)"

inductive_cases async_manager_stepE: "async_manager_step m m'"

inductive async_manager_reach :: "async_manager \<Rightarrow> bool" where
  am_reach_new: "async_manager_reach async_manager_new"
| am_reach_step: "async_manager_reach m \<Longrightarrow> async_manager_step m m' \<Longrightarrow> async_manager_reach m'"

subsection \<open>The invariant\<close>

definition am_barrier_done :: "async_manager \<Rightarrow> bool" where
  "am_barrier_done m \<longleftrightarrow> prefix (am_closed_at m) (rq_released (am_queue m))"

fun coordinator_ok :: "coordinator_pc \<Rightarrow> async_manager \<Rightarrow> bool" where
  "coordinator_ok No_Coordinator m =
     (am_admission m \<and> (am_shutdown m = Open \<or> am_shutdown m = Failed) \<and>
      (\<forall>c. am_calls m c = Async_Not_Called) \<and> barrier_fresh 0 (am_queue m))"
| "coordinator_ok Coord_Sending m =
     (\<not> am_admission m \<and> (am_shutdown m = Closing \<or> am_shutdown m = Failed) \<and>
      barrier_fresh 0 (am_queue m))"
| "coordinator_ok Coord_Awaiting m =
     (\<not> am_admission m \<and> (am_shutdown m = Closing \<or> am_shutdown m = Failed) \<and>
      (\<exists>before. barrier_ok 0 before (am_queue m) \<and> prefix (am_closed_at m) before))"
| "coordinator_ok (Coord_Completing b) m =
     (\<not> am_admission m \<and> (am_shutdown m = Closing \<or> am_shutdown m = Failed) \<and>
      (b \<longrightarrow> am_barrier_done m))"
| "coordinator_ok Coord_Done m =
     (\<not> am_admission m \<and> (am_shutdown m = Completed \<and> am_barrier_done m \<or> am_shutdown m = Failed))"

fun async_verdict_ok :: "shutdown_state \<Rightarrow> async_call_pc \<Rightarrow> bool" where
  "async_verdict_ok st Async_Returned = (st = Completed)"
| "async_verdict_ok st Async_Panicked = (st = Failed)"
| "async_verdict_ok st pc = True"

definition async_manager_ok :: "async_manager \<Rightarrow> bool" where
  "async_manager_ok m \<longleftrightarrow>
     queue_ok (am_queue m) \<and> coordinator_ok (am_coordinator m) m \<and>
     (\<forall>c. async_verdict_ok (am_shutdown m) (am_calls m c)) \<and>
     (\<not> am_admission m \<longrightarrow> prefix (am_closed_at m) (rq_enqueued (am_queue m)))"

lemma async_manager_new_ok: "async_manager_ok async_manager_new"
  by (simp add: async_manager_ok_def async_manager_new_def queue_new_ok barrier_fresh_new)

lemma async_verdict_running:
  "async_verdict_ok st pc \<Longrightarrow> st = Open \<or> st = Closing \<Longrightarrow> async_verdict_ok st' pc"
  by (cases pc) auto

lemma am_queue_ok:
  assumes "async_manager_ok m" and "\<And>b. queue_step b (am_queue m) q"
  shows "async_manager_ok (m\<lparr>am_queue := q\<rparr>)"
proof -
  have grow: "prefix (rq_enqueued (am_queue m)) (rq_enqueued q)"
    "prefix (rq_released (am_queue m)) (rq_released q)"
    using queue_step_grows [OF assms(2)] by auto
  have "am_barrier_done m \<Longrightarrow> am_barrier_done (m\<lparr>am_queue := q\<rparr>)"
    using grow(2) by (auto simp: am_barrier_done_def intro: prefix_order.trans)
  moreover have "queue_ok q" using assms queue_step_ok by (auto simp: async_manager_ok_def)
  ultimately show ?thesis
    using assms(1) grow(1) queue_step_fresh [OF assms(2)] queue_step_barrier [OF assms(2)]
    by (cases "am_coordinator m") (auto simp: async_manager_ok_def intro: prefix_order.trans)
qed

lemma am_silent_ok:
  "async_manager_ok m \<Longrightarrow> async_manager_ok (m\<lparr>am_holders := n\<rparr>)"
  "async_manager_ok m \<Longrightarrow> async_manager_ok (m\<lparr>am_crashed := b\<rparr>)"
  by (cases "am_coordinator m"; auto simp: async_manager_ok_def am_barrier_done_def)+

lemma am_release_ok: "async_manager_ok m \<Longrightarrow> am_try_release r m = Some (res, m') \<Longrightarrow> async_manager_ok m'"
  by (auto simp: am_try_release_def intro: am_queue_ok try_release_step split: if_splits prod.splits)

lemma am_admit_ok: "async_manager_ok m \<Longrightarrow> am_admit m = (r, m') \<Longrightarrow> async_manager_ok m'"
  by (auto simp: am_admit_def am_silent_ok split: if_splits)

lemma am_drop_ok: "async_manager_ok m \<Longrightarrow> am_drop_sender m = Some m' \<Longrightarrow> async_manager_ok m'"
  by (auto simp: am_drop_sender_def am_silent_ok split: if_splits)

lemma async_shutdown_ok: "async_manager_ok m \<Longrightarrow> async_shutdown c m = Some m' \<Longrightarrow> async_manager_ok m'"
  by (cases "am_coordinator m")
    (auto simp: async_manager_ok_def async_shutdown_def am_barrier_done_def split: if_splits)

lemma async_wait_ok: "async_manager_ok m \<Longrightarrow> async_shutdown_wait c m = Some m' \<Longrightarrow> async_manager_ok m'"
  by (cases "am_coordinator m")
    (auto simp: async_manager_ok_def async_shutdown_wait_def am_barrier_done_def
      split: if_splits shutdown_state.splits)

lemma coordinator_send_ok:
  assumes "async_manager_ok m" and "coordinator_send m = Some m'"
  shows "async_manager_ok m'"
proof -
  have pc: "am_coordinator m = Coord_Sending" using assms(2) by (simp add: coordinator_send_def split: if_splits)
  obtain r where r: "queue_send (Barrier 0) (am_queue m) = Some r"
    using assms(2) pc by (auto simp: coordinator_send_def split: option.splits)
  then show ?thesis
  proof (cases rule: queue_send_cases)
    case 1
    then have "m' = m\<lparr>am_coordinator := Coord_Completing False\<rparr>"
      using assms(2) pc r by (simp add: coordinator_send_def)
    with assms(1) pc show ?thesis by (auto simp: async_manager_ok_def)
  next
    case (2 q)
    then have m': "m' = m\<lparr>am_queue := q, am_coordinator := Coord_Awaiting\<rparr>"
      using assms(2) pc r by (simp add: coordinator_send_def)
    have ok: "queue_ok (am_queue m)" "prefix (am_closed_at m) (rq_enqueued (am_queue m))"
      "barrier_fresh 0 (am_queue m)"
      using assms(1) pc by (auto simp: async_manager_ok_def)
    have "barrier_ok 0 (rq_enqueued (am_queue m)) q" by (rule rq.send_tracked [OF 2(2) ok(1,3)])
    moreover have "queue_ok q" by (rule rq.send_inv [OF 2(2) ok(1)])
    moreover have "rq_enqueued q = rq_enqueued (am_queue m)"
      using try_send_okD [OF 2(2)] by (simp add: queue_push_def)
    ultimately show ?thesis
      using assms(1) pc ok(2) unfolding m' by (auto simp: async_manager_ok_def)
  qed
qed

lemma coordinator_await_ok:
  assumes "async_manager_ok m" and "coordinator_await m = Some m'"
  shows "async_manager_ok m'"
proof -
  have pc: "am_coordinator m = Coord_Awaiting" using assms(2) by (simp add: coordinator_await_def split: if_splits)
  then obtain before where b: "barrier_ok 0 before (am_queue m)" "prefix (am_closed_at m) before"
    using assms(1) by (auto simp: async_manager_ok_def)
  obtain d where d: "queue_await_ack 0 (am_queue m) = Some d" "m' = m\<lparr>am_coordinator := Coord_Completing d\<rparr>"
    using assms(2) pc by (auto simp: coordinator_await_def)
  have "am_barrier_done m" if d
    using that d(1) b rq.acked_tracked [OF b(1)]
    by (auto simp: queue_await_ack_def am_barrier_done_def intro: prefix_order.trans split: if_splits)
  with assms(1) pc d show ?thesis by (auto simp: async_manager_ok_def am_barrier_done_def)
qed

lemma coordinator_complete_ok:
  assumes "async_manager_ok m" and "coordinator_complete m = Some m'"
  shows "async_manager_ok m'"
proof -
  obtain b where pc: "am_coordinator m = Coord_Completing b"
    "m' = m\<lparr>am_coordinator := Coord_Done,
        am_shutdown := (if am_shutdown m = Failed then Failed else if b then Completed else Failed)\<rparr>"
    using assms(2) by (auto simp: coordinator_complete_def split: coordinator_pc.splits)
  have "async_verdict_ok st (am_calls m c)" if "am_shutdown m = Closing" for c st
    using assms(1) that async_verdict_running [of Closing "am_calls m c"] by (auto simp: async_manager_ok_def)
  with assms(1) pc show ?thesis by (auto simp: async_manager_ok_def am_barrier_done_def)
qed

lemma monitor_ok:
  assumes "async_manager_ok m" and "monitor_failed m = Some m'"
  shows "async_manager_ok m'"
proof -
  have "async_verdict_ok Failed (am_calls m c)" if "am_shutdown m \<noteq> Completed" for c
    using assms(1) that by (cases "am_calls m c"; cases "am_shutdown m")
      (auto simp: async_manager_ok_def dest: spec [of _ c])
  with assms show ?thesis
    by (cases "am_coordinator m")
      (auto simp: async_manager_ok_def monitor_failed_def am_barrier_done_def split: if_splits)
qed

lemma am_dies_ok: "async_manager_ok m \<Longrightarrow>
    async_manager_ok (m\<lparr>am_queue := worker_dies (am_queue m), am_crashed := True\<rparr>)"
  using am_silent_ok(2) [OF am_queue_ok [OF _ step_dies], of m True] by simp

lemma async_manager_step_ok: "async_manager_step m m' \<Longrightarrow> async_manager_ok m \<Longrightarrow> async_manager_ok m'"
  by (erule async_manager_stepE)
    (auto intro: am_admit_ok am_release_ok am_drop_ok async_shutdown_ok async_wait_ok coordinator_send_ok
      coordinator_await_ok coordinator_complete_ok monitor_ok am_queue_ok step_recv step_released am_dies_ok)

lemma async_manager_reach_ok: "async_manager_reach m \<Longrightarrow> async_manager_ok m"
  by (induction rule: async_manager_reach.induct) (auto simp: async_manager_new_ok async_manager_step_ok)

lemma async_manager_path_ok:
  "async_manager_step\<^sup>*\<^sup>* m m' \<Longrightarrow> async_manager_ok m \<Longrightarrow> async_manager_ok m'"
  by (induction rule: rtranclp_induct) (auto intro: async_manager_step_ok)

subsection \<open>After the close\<close>

lemma am_closed_stays_closed:
  "async_manager_step m m' \<Longrightarrow> \<not> am_admission m \<Longrightarrow>
     \<not> am_admission m' \<and> am_closed_at m' = am_closed_at m"
  by (erule async_manager_stepE)
    (auto simp: am_admit_def am_try_release_def am_drop_sender_def async_shutdown_def
      async_shutdown_wait_def coordinator_send_def coordinator_await_def coordinator_complete_def
      monitor_failed_def
      split: if_splits prod.splits option.splits sum.splits shutdown_state.splits coordinator_pc.splits)

lemma am_closed_path:
  "async_manager_step\<^sup>*\<^sup>* m m' \<Longrightarrow> \<not> am_admission m \<Longrightarrow>
     \<not> am_admission m' \<and> am_closed_at m' = am_closed_at m"
  by (induction rule: rtranclp_induct) (auto dest: am_closed_stays_closed)

lemma async_returned_done:
  assumes "async_manager_ok m" and "am_calls m c = Async_Returned"
  shows "am_barrier_done m"
proof -
  have "async_verdict_ok (am_shutdown m) (am_calls m c)" using assms(1) by (simp add: async_manager_ok_def)
  then have "am_shutdown m = Completed" using assms(2) by simp
  then show ?thesis using assms(1) by (cases "am_coordinator m") (auto simp: async_manager_ok_def)
qed

text \<open>The order in which the shutdown state moves.\<close>

fun shutdown_rank :: "shutdown_state \<Rightarrow> nat" where
  "shutdown_rank Open = 0"
| "shutdown_rank Closing = 1"
| "shutdown_rank Completed = 2"
| "shutdown_rank Failed = 2"

definition shutdown_advances :: "shutdown_state \<Rightarrow> shutdown_state \<Rightarrow> bool" where
  "shutdown_advances a b \<longleftrightarrow> a = b \<or> shutdown_rank a < shutdown_rank b"

lemma shutdown_advances_trans:
  "shutdown_advances a b \<Longrightarrow> shutdown_advances b c \<Longrightarrow> shutdown_advances a c"
  by (auto simp: shutdown_advances_def)

lemma async_step_advances:
  assumes "async_manager_step m m'" and "async_manager_ok m"
  shows "shutdown_advances (am_shutdown m) (am_shutdown m')"
  using assms(1)
proof cases
  case am_step_complete
  with assms(2) show ?thesis
    by (auto simp: coordinator_complete_def async_manager_ok_def shutdown_advances_def
        split: coordinator_pc.splits if_splits)
next
  case am_step_monitor
  then show ?thesis
    by (cases "am_shutdown m") (auto simp: monitor_failed_def shutdown_advances_def split: if_splits)
qed (auto simp: am_admit_def am_try_release_def am_drop_sender_def async_shutdown_def
    async_shutdown_wait_def coordinator_send_def coordinator_await_def shutdown_advances_def
    split: if_splits prod.splits option.splits sum.splits shutdown_state.splits)

lemma async_path_advances:
  "async_manager_step\<^sup>*\<^sup>* m m' \<Longrightarrow> async_manager_ok m \<Longrightarrow>
     shutdown_advances (am_shutdown m) (am_shutdown m')"
proof (induction rule: rtranclp_induct)
  case base
  then show ?case by (simp add: shutdown_advances_def)
next
  case (step y z)
  then show ?case
    using async_step_advances [OF step.hyps(2) async_manager_path_ok [OF step.hyps(1)]]
    by (blast intro: shutdown_advances_trans)
qed

definition coordinator_enabled :: "async_manager \<Rightarrow> bool" where
  "coordinator_enabled m \<longleftrightarrow>
     coordinator_send m \<noteq> None \<or> coordinator_await m \<noteq> None \<or> coordinator_complete m \<noteq> None"

definition worker_enabled_am :: "async_manager \<Rightarrow> bool" where
  "worker_enabled_am m \<longleftrightarrow>
     worker_recv (am_senders_alive m) (am_queue m) \<noteq> None \<or> worker_release (am_queue m) \<noteq> None"

lemma async_waits:
  assumes "async_manager_ok m" and "am_calls m c = Async_Waiting"
  shows "async_shutdown_wait c m \<noteq> None \<or> coordinator_enabled m \<or> rq_items (am_queue m) \<noteq> []"
proof -
  have ok: "coordinator_ok (am_coordinator m) m" using assms(1) by (simp add: async_manager_ok_def)
  show ?thesis
  proof (cases "am_coordinator m")
    case No_Coordinator
    then have "am_calls m c = Async_Not_Called" using ok by simp
    with assms(2) show ?thesis by simp
  next
    case Coord_Sending
    show ?thesis
    proof (cases "queue_send (Barrier 0) (am_queue m)")
      case None
      then show ?thesis by (auto simp: queue_send_blocks RECYCLE_CHANNEL_BUFFER_def)
    next
      case (Some r)
      with Coord_Sending show ?thesis
        by (auto simp: coordinator_enabled_def coordinator_send_def split: prod.splits sum.splits)
    qed
  next
    case Coord_Awaiting
    show ?thesis
    proof (cases "queue_await_ack 0 (am_queue m)")
      case None
      then show ?thesis by (auto simp: await_ack_blocks)
    next
      case (Some b)
      with Coord_Awaiting show ?thesis by (auto simp: coordinator_enabled_def coordinator_await_def)
    qed
  next
    case (Coord_Completing b)
    then show ?thesis by (simp add: coordinator_enabled_def coordinator_complete_def)
  next
    case Coord_Done
    with ok assms(2) show ?thesis by (auto simp: async_shutdown_wait_def)
  qed
qed

lemma async_progress:
  assumes "async_manager_ok m" and "am_calls m c = Async_Waiting"
  shows "async_shutdown_wait c m \<noteq> None \<or> coordinator_enabled m \<or> worker_enabled_am m"
proof -
  have "queue_ok (am_queue m)" using assms(1) by (simp add: async_manager_ok_def)
  then show ?thesis
    using async_waits [OF assms] worker_enabled [of "am_queue m" "am_senders_alive m"]
    by (auto simp: worker_enabled_am_def)
qed

subsection \<open>Computed runs\<close>

datatype am_event =
    A_Admit | A_Release lock_request | A_Drop | A_Shutdown nat | A_Wait nat
  | A_Send | A_Await | A_Complete | A_Monitor | A_Worker_Recv | A_Worker_Release | A_Worker_Dies

fun am_apply :: "am_event \<Rightarrow> async_manager \<Rightarrow> async_manager option" where
  "am_apply A_Admit m = (case am_admit m of (Inr _, m') \<Rightarrow> Some m' | _ \<Rightarrow> None)"
| "am_apply (A_Release r) m = map_option snd (am_try_release r m)"
| "am_apply A_Drop m = am_drop_sender m"
| "am_apply (A_Shutdown c) m = async_shutdown c m"
| "am_apply (A_Wait c) m = async_shutdown_wait c m"
| "am_apply A_Send m = coordinator_send m"
| "am_apply A_Await m = coordinator_await m"
| "am_apply A_Complete m = coordinator_complete m"
| "am_apply A_Monitor m = monitor_failed m"
| "am_apply A_Worker_Recv m =
     map_option (\<lambda>q. m\<lparr>am_queue := q\<rparr>) (worker_recv (am_senders_alive m) (am_queue m))"
| "am_apply A_Worker_Release m = map_option (\<lambda>q. m\<lparr>am_queue := q\<rparr>) (worker_release (am_queue m))"
| "am_apply A_Worker_Dies m = Some (m\<lparr>am_queue := worker_dies (am_queue m), am_crashed := True\<rparr>)"

fun am_exec :: "am_event list \<Rightarrow> async_manager \<Rightarrow> async_manager option" where
  "am_exec [] m = Some m"
| "am_exec (e # es) m = (case am_apply e m of None \<Rightarrow> None | Some m' \<Rightarrow> am_exec es m')"

lemma am_apply_step: "am_apply e m = Some m' \<Longrightarrow> async_manager_step m m'"
  by (cases e) (auto intro: async_manager_step.intros split: prod.splits sum.splits)

lemma am_exec_path: "am_exec es m = Some m' \<Longrightarrow> async_manager_step\<^sup>*\<^sup>* m m'"
  by (induction es arbitrary: m)
    (auto split: option.splits dest: am_apply_step intro: converse_rtranclp_into_rtranclp)

lemma am_path_reach: "async_manager_step\<^sup>*\<^sup>* m m' \<Longrightarrow> async_manager_reach m \<Longrightarrow> async_manager_reach m'"
  by (induction rule: rtranclp_induct) (auto intro: am_reach_step)

lemma am_exec_reach: "am_exec es async_manager_new = Some m \<Longrightarrow> async_manager_reach m"
  using am_exec_path am_path_reach am_reach_new by blast

lemmas am_run_defs =
  am_admit_def am_try_release_def async_shutdown_def async_shutdown_wait_def coordinator_send_def
  coordinator_await_def coordinator_complete_def am_senders_alive_def
  queue_send_def queue_try_send_def queue_push_def queue_await_ack_def worker_recv_def
  worker_release_def worker_dies_def RECYCLE_CHANNEL_BUFFER_def async_manager_new_def
  release_queue_new_def monitor_failed_def

definition am_queued :: async_manager where
  "am_queued = the (am_exec [A_Admit, A_Release \<lparr>lr_target = Read ''k'', lr_uuid = ''u''\<rparr>] async_manager_new)"

definition am_called :: async_manager where
  "am_called = the (am_exec [A_Shutdown 7] am_queued)"

definition am_ended :: async_manager where
  "am_ended = the (am_exec [A_Send, A_Worker_Recv, A_Worker_Release, A_Worker_Recv, A_Await,
     A_Complete, A_Worker_Dies, A_Monitor, A_Wait 7] am_called)"

lemma am_queued_run:
  "am_exec [A_Admit, A_Release \<lparr>lr_target = Read ''k'', lr_uuid = ''u''\<rparr>] async_manager_new = Some am_queued"
  by (simp add: am_queued_def am_run_defs)

lemma am_called_run: "am_exec [A_Shutdown 7] am_queued = Some am_called"
  by (simp add: am_called_def am_queued_def am_run_defs)

lemma am_ended_run: "am_exec [A_Send, A_Worker_Recv, A_Worker_Release, A_Worker_Recv, A_Await,
     A_Complete, A_Worker_Dies, A_Monitor, A_Wait 7] am_called = Some am_ended"
  by (simp add: am_ended_def am_called_def am_queued_def am_run_defs)

lemma am_queued_reach: "async_manager_reach am_queued"
  by (rule am_exec_reach [OF am_queued_run])

lemma am_called_reach: "async_manager_reach am_called"
  using am_exec_path [OF am_called_run] am_queued_reach by (rule am_path_reach)

lemma am_example_facts:
  "am_admission am_queued" "async_shutdown 7 am_queued = Some am_called"
  "am_calls am_ended 7 = Async_Returned" "am_calls am_called 7 = Async_Waiting"
  "am_shutdown am_called = Closing"
  "rq_enqueued (am_queue am_queued) = [\<lparr>lr_target = Read ''k'', lr_uuid = ''u''\<rparr>]"
  by (simp_all add: am_ended_def am_called_def am_queued_def am_run_defs)

subsection \<open>Properties\<close>

text \<open>
  The async \<open>shutdown\<close> waits for the queue. If admissions were open when a call of \<open>shutdown\<close>
  closed them, then whenever a call returns normally, every release request that had entered the
  queue before the close has been sent to Redis, even if the worker fails after the barrier.
\<close>

theorem async_shutdown_waits_for_queue:
  assumes "async_manager_reach m" and "am_admission m" and "async_shutdown t m = Some m1"
    and "async_manager_step\<^sup>*\<^sup>* m1 m2" and "am_calls m2 c = Async_Returned"
  shows "prefix (rq_enqueued (am_queue m)) (rq_released (am_queue m2))"
proof -
  have m1: "\<not> am_admission m1 \<and> am_closed_at m1 = rq_enqueued (am_queue m)"
    using assms(2,3) by (auto simp: async_shutdown_def split: if_splits)
  have "async_manager_ok m1" using async_shutdown_ok assms(1,3) async_manager_reach_ok by blast
  then have "am_barrier_done m2"
    using assms(4,5) by (blast intro: async_returned_done async_manager_path_ok)
  then show ?thesis using am_closed_path [OF assms(4)] m1 by (simp add: am_barrier_done_def)
qed

theorem async_shutdown_waits_for_queue_witness:
  "prefix [\<lparr>lr_target = Read ''k'', lr_uuid = ''u''\<rparr>] (rq_released (am_queue am_ended))"
  using async_shutdown_waits_for_queue [OF am_queued_reach am_example_facts(1,2)
      am_exec_path [OF am_ended_run] am_example_facts(3)]
  by (simp add: am_example_facts)

lemma am_called_waits: "async_shutdown_wait 7 am_called = None"
  by (simp add: am_called_def am_queued_def async_shutdown_wait_def async_shutdown_def am_try_release_def
      am_admit_def async_manager_new_def queue_try_send_def queue_push_def release_queue_new_def
      RECYCLE_CHANNEL_BUFFER_def)

text \<open>
  The async \<open>shutdown\<close> cannot get stuck: while a call waits, the call itself, the coordinator or the
  worker can take a step in every reachable state.
\<close>

theorem async_shutdown_never_stuck:
  assumes "async_manager_reach m" and "am_calls m c = Async_Waiting"
  shows "async_shutdown_wait c m \<noteq> None \<or> coordinator_enabled m \<or> worker_enabled_am m"
  by (rule async_progress [OF async_manager_reach_ok [OF assms(1)] assms(2)])

theorem async_shutdown_never_stuck_witness:
  "coordinator_enabled am_called \<or> worker_enabled_am am_called"
  using async_shutdown_never_stuck [OF am_called_reach am_example_facts(4)] am_called_waits by blast

end
