(* ===== verification/Manager_Setup.thy ===== *)
theory Manager_Setup
  imports Sync_Manager Async_Manager Pool
begin

text \<open>
  The constructors of the managers in \<open>src/sync_lock/manager.rs\<close> and \<open>src/async_lock/manager.rs\<close>. Parsing a
  URL and connecting belong to the redis client: \<open>open_client\<close> stands for \<open>Client::open\<close>, and
  \<open>get_connection_manager\<close> for the function of that name, each with its result. \<open>spawned\<close> is the result of
  spawning the release thread.
\<close>

subsection \<open>The sync manager\<close>

definition with_client :: "('c, 's) client \<Rightarrow> pool_options \<Rightarrow> (string, unit) result \<Rightarrow> 's \<Rightarrow>
    (string, sync_manager) result \<times> 'c pool \<times> 's" where
  "with_client client opts spawned s =
     try_then (pool_checkout client (pool_new opts, s))
       (\<lambda>conn ps.
          let ps' = pooled_drop client (Some conn) ps in
          case spawned of
            Inl e \<Rightarrow> (Inl e, ps')
          | Inr _ \<Rightarrow> (Inr sync_manager_new, ps'))"

definition new_with_pool_options :: "(string, ('c, 's) client) result \<Rightarrow> pool_options \<Rightarrow>
    (string, unit) result \<Rightarrow> 's \<Rightarrow> (string, sync_manager) result \<times> 'c pool \<times> 's" where
  "new_with_pool_options open_client opts spawned s =
     (case open_client of
        Inl e \<Rightarrow> (Inl e, pool_new opts, s)
      | Inr client \<Rightarrow> with_client client opts spawned s)"

definition sync_new :: "(string, ('c, 's) client) result \<Rightarrow> (string, unit) result \<Rightarrow> 's \<Rightarrow>
    (string, sync_manager) result \<times> 'c pool \<times> 's" where
  "sync_new open_client spawned s = new_with_pool_options open_client pool_options_new spawned s"

text \<open>
  A manager that was set up is in its first state, and its pool respects the options: the connection
  that was opened to see whether the server can be reached is kept for reuse if it may be.
\<close>

lemma with_client_ok:
  assumes "with_client client opts spawned s = (Inr m, p, s')"
  shows "sync_manager_reach m" and "pool_ok p"
proof -
  have "p_idle (pool_new opts) = []" by (simp add: pool_new_def)
  then obtain conn s1 where "pool_connect client opts s = (Inr conn, s1)"
    and "m = sync_manager_new" and "(p, s') = pooled_drop client (Some conn) (pool_new opts, s1)"
    using assms
    by (auto simp: with_client_def pool_checkout_def try_then_def pool_new_def Let_def
        split: prod.splits sum.splits)
  with pooled_drop_ok [OF pool_new_ok, of client "Some conn" opts s1] show "sync_manager_reach m" "pool_ok p"
    by (auto intro: sm_reach_new) (metis fst_conv)
qed

subsection \<open>The async manager\<close>

definition with_connection_manager :: "'c \<Rightarrow> (string, 'c \<times> async_manager) result" where
  "with_connection_manager connection = Inr (connection, async_manager_new)"

definition async_new :: "(string, 'client) result \<Rightarrow> ('client \<Rightarrow> (string, 'c) result) \<Rightarrow>
    (string, 'c \<times> async_manager) result" where
  "async_new open_client get_connection_manager =
     (case open_client of
        Inl e \<Rightarrow> Inl e
      | Inr client \<Rightarrow>
          (case get_connection_manager client of
             Inl e \<Rightarrow> Inl e
           | Inr connection \<Rightarrow> with_connection_manager connection))"

lemma async_new_reach:
  "async_new open_client get_connection_manager = Inr (connection, m) \<Longrightarrow> async_manager_reach m"
  by (auto simp: async_new_def with_connection_manager_def intro: am_reach_new split: sum.splits)

end
