(* ===== verification/Retry_Wait.thy ===== *)
theory Retry_Wait
  imports Prelude
begin

text \<open>
  The wait between two attempts of a sync acquisition: \<open>wait_retry\<close>, \<open>cancel_acquisition\<close> and the
  notification at the start of \<open>shutdown\<close> in \<open>src/sync_lock/manager.rs\<close>. They share the mutex
  \<open>retry_lock\<close> and the condition variable \<open>retry_wake\<close>. \<open>shutdown\<close> stores its flag before it takes the
  mutex; a cancellation stores its flag under the mutex. The state machine has one step per access
  to the mutex, the condition variable or a flag, so that a flag can change between the check of a
  waiter and its wait.
\<close>

subsection \<open>State\<close>

datatype waiter_pc = W_Idle | W_Blocked | W_Checking | W_Parking | W_Parked | W_Done

datatype notifier_pc = N_Idle | N_Flagged | N_Locked | N_Done

datatype canceler_pc = C_Idle | C_Locked | C_Flagged | C_Done

datatype lock_owner = Nobody | By_Waiter nat | By_Notifier nat | By_Canceler nat

record retry_state =
  rt_owner :: lock_owner
  rt_is_shutdown :: bool
  rt_canceled :: "nat \<Rightarrow> bool"
  rt_waiters :: "nat \<Rightarrow> waiter_pc"
  rt_notifiers :: "nat \<Rightarrow> notifier_pc"
  rt_cancelers :: "nat \<Rightarrow> canceler_pc"

definition retry_new :: retry_state where
  "retry_new =
     \<lparr>rt_owner = Nobody, rt_is_shutdown = False, rt_canceled = (\<lambda>i. False),
      rt_waiters = (\<lambda>i. W_Idle), rt_notifiers = (\<lambda>n. N_Idle), rt_cancelers = (\<lambda>i. C_Idle)\<rparr>"

definition waiter_goto :: "nat \<Rightarrow> waiter_pc \<Rightarrow> retry_state \<Rightarrow> retry_state" where
  "waiter_goto i pc s = s\<lparr>rt_waiters := (rt_waiters s)(i := pc)\<rparr>"

text \<open>\<open>notify_all\<close>: every parked waiter wakes up and tries to take the mutex again.\<close>

definition wake_parked :: "(nat \<Rightarrow> waiter_pc) \<Rightarrow> nat \<Rightarrow> waiter_pc" where
  "wake_parked pcs i = (if pcs i = W_Parked then W_Blocked else pcs i)"

definition notify_all :: "retry_state \<Rightarrow> retry_state" where
  "notify_all s = s\<lparr>rt_waiters := wake_parked (rt_waiters s)\<rparr>"

subsection \<open>\<open>wait_retry\<close>\<close>

definition waiter_lock :: "nat \<Rightarrow> retry_state \<Rightarrow> retry_state option" where
  "waiter_lock i s =
     (if (rt_waiters s i = W_Idle \<or> rt_waiters s i = W_Blocked) \<and> rt_owner s = Nobody
      then Some (waiter_goto i W_Checking (s\<lparr>rt_owner := By_Waiter i\<rparr>)) else None)"

text \<open>\<open>wait_timeout_while\<close> checks its condition and the remaining time while it holds the mutex.\<close>

definition waiter_check :: "nat \<Rightarrow> bool \<Rightarrow> retry_state \<Rightarrow> retry_state option" where
  "waiter_check i expired s =
     (if rt_waiters s i = W_Checking
      then Some (if (\<not> rt_is_shutdown s \<and> \<not> rt_canceled s i) \<and> \<not> expired
                 then waiter_goto i W_Parking s
                 else waiter_goto i W_Done (s\<lparr>rt_owner := Nobody\<rparr>))
      else None)"

definition waiter_park :: "nat \<Rightarrow> retry_state \<Rightarrow> retry_state option" where
  "waiter_park i s =
     (if rt_waiters s i = W_Parking
      then Some (waiter_goto i W_Parked (s\<lparr>rt_owner := Nobody\<rparr>)) else None)"

text \<open>The timeout, or a spurious wakeup.\<close>

definition waiter_wakes :: "nat \<Rightarrow> retry_state \<Rightarrow> retry_state option" where
  "waiter_wakes i s =
     (if rt_waiters s i = W_Parked then Some (waiter_goto i W_Blocked s) else None)"

subsection \<open>\<open>shutdown\<close> and \<open>cancel_acquisition\<close>\<close>

definition notifier_flag :: "nat \<Rightarrow> retry_state \<Rightarrow> retry_state option" where
  "notifier_flag n s =
     (if rt_notifiers s n = N_Idle
      then Some (s\<lparr>rt_is_shutdown := True, rt_notifiers := (rt_notifiers s)(n := N_Flagged)\<rparr>) else None)"

definition notifier_lock :: "nat \<Rightarrow> retry_state \<Rightarrow> retry_state option" where
  "notifier_lock n s =
     (if rt_notifiers s n = N_Flagged \<and> rt_owner s = Nobody
      then Some (s\<lparr>rt_owner := By_Notifier n, rt_notifiers := (rt_notifiers s)(n := N_Locked)\<rparr>)
      else None)"

definition notifier_notify :: "nat \<Rightarrow> retry_state \<Rightarrow> retry_state option" where
  "notifier_notify n s =
     (if rt_notifiers s n = N_Locked
      then Some (notify_all (s\<lparr>rt_owner := Nobody, rt_notifiers := (rt_notifiers s)(n := N_Done)\<rparr>))
      else None)"

definition canceler_lock :: "nat \<Rightarrow> retry_state \<Rightarrow> retry_state option" where
  "canceler_lock i s =
     (if rt_cancelers s i = C_Idle \<and> rt_owner s = Nobody
      then Some (s\<lparr>rt_owner := By_Canceler i, rt_cancelers := (rt_cancelers s)(i := C_Locked)\<rparr>)
      else None)"

definition canceler_flag :: "nat \<Rightarrow> retry_state \<Rightarrow> retry_state option" where
  "canceler_flag i s =
     (if rt_cancelers s i = C_Locked
      then Some (s\<lparr>rt_canceled := (rt_canceled s)(i := True),
                   rt_cancelers := (rt_cancelers s)(i := C_Flagged)\<rparr>)
      else None)"

definition canceler_notify :: "nat \<Rightarrow> retry_state \<Rightarrow> retry_state option" where
  "canceler_notify i s =
     (if rt_cancelers s i = C_Flagged
      then Some (notify_all (s\<lparr>rt_owner := Nobody, rt_cancelers := (rt_cancelers s)(i := C_Done)\<rparr>))
      else None)"

datatype retry_event =
    R_Lock nat | R_Check nat bool | R_Park nat | R_Wake nat
  | R_Flag nat | R_Notifier_Lock nat | R_Notify nat
  | R_Cancel_Lock nat | R_Cancel_Flag nat | R_Cancel_Notify nat

fun retry_apply :: "retry_event \<Rightarrow> retry_state \<Rightarrow> retry_state option" where
  "retry_apply (R_Lock i) s = waiter_lock i s"
| "retry_apply (R_Check i expired) s = waiter_check i expired s"
| "retry_apply (R_Park i) s = waiter_park i s"
| "retry_apply (R_Wake i) s = waiter_wakes i s"
| "retry_apply (R_Flag n) s = notifier_flag n s"
| "retry_apply (R_Notifier_Lock n) s = notifier_lock n s"
| "retry_apply (R_Notify n) s = notifier_notify n s"
| "retry_apply (R_Cancel_Lock i) s = canceler_lock i s"
| "retry_apply (R_Cancel_Flag i) s = canceler_flag i s"
| "retry_apply (R_Cancel_Notify i) s = canceler_notify i s"

fun retry_exec :: "retry_event list \<Rightarrow> retry_state \<Rightarrow> retry_state option" where
  "retry_exec [] s = Some s"
| "retry_exec (e # es) s = (case retry_apply e s of None \<Rightarrow> None | Some s' \<Rightarrow> retry_exec es s')"

lemmas retry_defs =
  waiter_lock_def waiter_check_def waiter_park_def waiter_wakes_def notifier_flag_def
  notifier_lock_def notifier_notify_def canceler_lock_def canceler_flag_def canceler_notify_def
  waiter_goto_def notify_all_def

subsection \<open>The invariant\<close>

text \<open>Who holds the mutex, by the program counters of the threads.\<close>

fun w_holds :: "waiter_pc \<Rightarrow> bool" where
  "w_holds W_Checking = True" | "w_holds W_Parking = True"
| "w_holds W_Idle = False" | "w_holds W_Blocked = False" | "w_holds W_Parked = False" | "w_holds W_Done = False"

fun n_holds :: "notifier_pc \<Rightarrow> bool" where
  "n_holds N_Locked = True" | "n_holds N_Idle = False" | "n_holds N_Flagged = False" | "n_holds N_Done = False"

fun c_holds :: "canceler_pc \<Rightarrow> bool" where
  "c_holds C_Locked = True" | "c_holds C_Flagged = True" | "c_holds C_Idle = False" | "c_holds C_Done = False"

definition owns :: "('pc \<Rightarrow> bool) \<Rightarrow> (nat \<Rightarrow> lock_owner) \<Rightarrow> (nat \<Rightarrow> 'pc) \<Rightarrow> lock_owner \<Rightarrow> bool" where
  "owns holding by pcs owner \<longleftrightarrow> (\<forall>j. holding (pcs j) \<longleftrightarrow> owner = by j)"

definition mutex_ok :: "retry_state \<Rightarrow> bool" where
  "mutex_ok s \<longleftrightarrow>
     owns w_holds By_Waiter (rt_waiters s) (rt_owner s) \<and>
     owns n_holds By_Notifier (rt_notifiers s) (rt_owner s) \<and>
     owns c_holds By_Canceler (rt_cancelers s) (rt_owner s)"

lemma owns_acquire:
  "owns h by f Nobody \<Longrightarrow> h pc \<Longrightarrow> (\<And>j. Nobody \<noteq> by j) \<Longrightarrow> inj by \<Longrightarrow> owns h by (f(i := pc)) (by i)"
  by (auto simp: owns_def inj_def)

lemma owns_release:
  "owns h by f ow \<Longrightarrow> h (f i) \<Longrightarrow> \<not> h pc \<Longrightarrow> (\<And>j. Nobody \<noteq> by j) \<Longrightarrow> inj by \<Longrightarrow> owns h by (f(i := pc)) Nobody"
  by (auto simp: owns_def inj_def)

lemma owns_stay: "owns h by f ow \<Longrightarrow> h pc = h (f i) \<Longrightarrow> owns h by (f(i := pc)) ow"
  by (auto simp: owns_def)

lemma owns_other: "owns h by f ow \<Longrightarrow> (\<And>j. ow \<noteq> by j) \<Longrightarrow> (\<And>j. ow' \<noteq> by j) \<Longrightarrow> owns h by f ow'"
  by (auto simp: owns_def)

lemma owns_holder: "owns h by f ow \<Longrightarrow> h (f i) \<Longrightarrow> ow = by i"
  by (auto simp: owns_def)

lemma owns_notified:
  "owns w_holds by f ow \<Longrightarrow> owns w_holds by (wake_parked f) ow"
  unfolding owns_def wake_parked_def by (metis w_holds.simps(4,5))

lemma owns_notified_other:
  "owns w_holds By_Waiter f ow \<Longrightarrow> (\<And>j. ow \<noteq> By_Waiter j) \<Longrightarrow> owns w_holds By_Waiter (wake_parked f) Nobody"
  by (auto intro: owns_notified owns_other [of _ _ _ ow])

lemma owner_injs [simp]: "inj By_Waiter" "inj By_Notifier" "inj By_Canceler"
  by (auto simp: inj_def)

lemma mutex_okD:
  assumes "mutex_ok s"
  shows "owns w_holds By_Waiter (rt_waiters s) (rt_owner s)"
    and "owns n_holds By_Notifier (rt_notifiers s) (rt_owner s)"
    and "owns c_holds By_Canceler (rt_cancelers s) (rt_owner s)"
  using assms by (simp_all add: mutex_ok_def)

lemma parking_owns:
  "mutex_ok s \<Longrightarrow> rt_waiters s i = W_Parking \<or> rt_waiters s i = W_Checking \<Longrightarrow> rt_owner s = By_Waiter i"
  by (rule owns_holder [OF mutex_okD(1)]) auto

lemma notifier_owns: "mutex_ok s \<Longrightarrow> rt_notifiers s n = N_Locked \<Longrightarrow> rt_owner s = By_Notifier n"
  by (rule owns_holder [OF mutex_okD(2)]) auto

lemma canceler_owns:
  "mutex_ok s \<Longrightarrow> rt_cancelers s i = C_Locked \<or> rt_cancelers s i = C_Flagged \<Longrightarrow>
     rt_owner s = By_Canceler i"
  by (rule owns_holder [OF mutex_okD(3)]) auto

text \<open>A thread takes the free mutex, gives back its own, or goes on without it.\<close>

lemma mutex_ok_waiter:
  assumes "mutex_ok s"
  shows "waiter_lock i s = Some s' \<Longrightarrow> mutex_ok s'" and "waiter_check i expired s = Some s' \<Longrightarrow> mutex_ok s'"
    and "waiter_park i s = Some s' \<Longrightarrow> mutex_ok s'" and "waiter_wakes i s = Some s' \<Longrightarrow> mutex_ok s'"
proof -
  note ow = mutex_okD [OF assms]
  show "waiter_lock i s = Some s' \<Longrightarrow> mutex_ok s'"
    using ow by (auto simp: waiter_lock_def mutex_ok_def waiter_goto_def owns_acquire
        owns_other [of _ _ _ Nobody] split: if_splits)
  show "waiter_check i expired s = Some s' \<Longrightarrow> mutex_ok s'"
    using ow parking_owns [OF assms, of i] owns_stay [OF ow(1), of W_Parking i] owns_release [OF ow(1), of i W_Done]
    by (auto simp: waiter_check_def mutex_ok_def waiter_goto_def intro: owns_other [of _ _ _ "By_Waiter i"]
        split: if_splits)
  show "waiter_park i s = Some s' \<Longrightarrow> mutex_ok s'"
    using ow parking_owns [OF assms, of i] owns_release [OF ow(1), of i W_Parked]
    by (auto simp: waiter_park_def mutex_ok_def waiter_goto_def intro: owns_other [of _ _ _ "By_Waiter i"]
        split: if_splits)
  show "waiter_wakes i s = Some s' \<Longrightarrow> mutex_ok s'"
    using ow owns_stay [OF ow(1), of W_Blocked i]
    by (auto simp: mutex_ok_def waiter_wakes_def waiter_goto_def split: if_splits)
qed

lemma mutex_ok_notifier:
  assumes "mutex_ok s"
  shows "notifier_flag n s = Some s' \<Longrightarrow> mutex_ok s'" and "notifier_lock n s = Some s' \<Longrightarrow> mutex_ok s'"
    and "notifier_notify n s = Some s' \<Longrightarrow> mutex_ok s'"
proof -
  note ow = mutex_okD [OF assms]
  show "notifier_flag n s = Some s' \<Longrightarrow> mutex_ok s'"
    using ow owns_stay [OF ow(2), of N_Flagged n] by (auto simp: mutex_ok_def notifier_flag_def split: if_splits)
  show "notifier_lock n s = Some s' \<Longrightarrow> mutex_ok s'"
    using ow by (auto simp: notifier_lock_def mutex_ok_def owns_acquire owns_other [of _ _ _ Nobody] split: if_splits)
  show "notifier_notify n s = Some s' \<Longrightarrow> mutex_ok s'"
    using ow notifier_owns [OF assms, of n] owns_release [OF ow(2), of n N_Done]
    by (auto simp: notifier_notify_def mutex_ok_def notify_all_def
        intro: owns_notified_other owns_other [of _ _ _ "By_Notifier n" Nobody] split: if_splits)
qed

lemma mutex_ok_canceler:
  assumes "mutex_ok s"
  shows "canceler_lock i s = Some s' \<Longrightarrow> mutex_ok s'" and "canceler_flag i s = Some s' \<Longrightarrow> mutex_ok s'"
    and "canceler_notify i s = Some s' \<Longrightarrow> mutex_ok s'"
proof -
  note ow = mutex_okD [OF assms]
  show "canceler_lock i s = Some s' \<Longrightarrow> mutex_ok s'"
    using ow by (auto simp: canceler_lock_def mutex_ok_def owns_acquire owns_other [of _ _ _ Nobody] split: if_splits)
  show "canceler_flag i s = Some s' \<Longrightarrow> mutex_ok s'"
    using ow owns_stay [OF ow(3), of C_Flagged i] by (auto simp: mutex_ok_def canceler_flag_def split: if_splits)
  show "canceler_notify i s = Some s' \<Longrightarrow> mutex_ok s'"
    using ow canceler_owns [OF assms, of i] owns_release [OF ow(3), of i C_Done]
    by (auto simp: canceler_notify_def mutex_ok_def notify_all_def
        intro: owns_notified_other owns_other [of _ _ _ "By_Canceler i" Nobody] split: if_splits)
qed

lemma mutex_ok_step: "mutex_ok s \<Longrightarrow> retry_apply e s = Some s' \<Longrightarrow> mutex_ok s'"
  by (cases e) (auto intro: mutex_ok_waiter mutex_ok_notifier mutex_ok_canceler)

text \<open>A waiter that sleeps or is about to, and the notifier that will still come.\<close>

definition asleep :: "waiter_pc \<Rightarrow> bool" where
  "asleep pc \<longleftrightarrow> pc = W_Parked \<or> pc = W_Parking"

definition shutdown_pending :: "retry_state \<Rightarrow> bool" where
  "shutdown_pending s \<longleftrightarrow> (\<exists>n. rt_notifiers s n = N_Flagged \<or> rt_notifiers s n = N_Locked)"

definition retry_ok :: "retry_state \<Rightarrow> bool" where
  "retry_ok s \<longleftrightarrow>
     mutex_ok s \<and>
     (\<forall>i. rt_is_shutdown s \<longrightarrow> asleep (rt_waiters s i) \<longrightarrow> shutdown_pending s) \<and>
     (\<forall>i. rt_canceled s i \<longrightarrow> asleep (rt_waiters s i) \<longrightarrow> rt_cancelers s i = C_Flagged)"

lemma retry_new_ok: "retry_ok retry_new"
  by (simp add: retry_ok_def retry_new_def mutex_ok_def owns_def asleep_def)

lemma retry_step_told:
  assumes ok: "retry_ok s" and step: "retry_apply e s = Some s'"
  shows "(rt_is_shutdown s' \<longrightarrow> asleep (rt_waiters s' i) \<longrightarrow> shutdown_pending s') \<and>
    (rt_canceled s' i \<longrightarrow> asleep (rt_waiters s' i) \<longrightarrow> rt_cancelers s' i = C_Flagged)"
proof -
  have m: "mutex_ok s"
    and told: "rt_is_shutdown s \<Longrightarrow> asleep (rt_waiters s j) \<Longrightarrow> shutdown_pending s"
    and ctold: "rt_canceled s j \<Longrightarrow> asleep (rt_waiters s j) \<Longrightarrow> rt_cancelers s j = C_Flagged" for j
    using ok by (auto simp: retry_ok_def)
  show ?thesis
  proof (cases e)
    case (R_Notify k)
    then have pc: "rt_notifiers s k = N_Locked"
      and s': "s' = notify_all (s\<lparr>rt_owner := Nobody, rt_notifiers := (rt_notifiers s)(k := N_Done)\<rparr>)"
      using step by (auto simp: notifier_notify_def split: if_splits)
    have "\<not> asleep (rt_waiters s' i)"
      using notifier_owns [OF m pc] parking_owns [OF m, of i] unfolding s' by (auto simp: asleep_def notify_all_def wake_parked_def)
    then show ?thesis by simp
  next
    case (R_Cancel_Notify k)
    then have pc: "rt_cancelers s k = C_Flagged"
      and s': "s' = notify_all (s\<lparr>rt_owner := Nobody, rt_cancelers := (rt_cancelers s)(k := C_Done)\<rparr>)"
      using step by (auto simp: canceler_notify_def split: if_splits)
    have "\<not> asleep (rt_waiters s' i)"
      using canceler_owns [OF m, of k] pc parking_owns [OF m, of i] unfolding s'
      by (auto simp: asleep_def notify_all_def wake_parked_def)
    then show ?thesis by simp
  next
    case (R_Notifier_Lock k)
    with step told [of i] ctold [of i] show ?thesis
      by (auto simp: notifier_lock_def shutdown_pending_def split: if_splits)
  next
    case (R_Flag k)
    with step ctold [of i] show ?thesis
      by (auto simp: notifier_flag_def shutdown_pending_def split: if_splits)
  next
    case (R_Cancel_Flag k)
    with step told [of i] ctold [of i] canceler_owns [OF m, of k] parking_owns [OF m, of i] show ?thesis
      by (auto simp: canceler_flag_def shutdown_pending_def split: if_splits)
  next
    case (R_Cancel_Lock k)
    with step told [of i] ctold [of i] show ?thesis
      by (auto simp: canceler_lock_def shutdown_pending_def split: if_splits)
  next
    case (R_Check k expired)
    with step told [of i] ctold [of i] show ?thesis
      by (auto simp: waiter_check_def waiter_goto_def asleep_def shutdown_pending_def split: if_splits)
  qed (use step told [of i] ctold [of i] in
    \<open>auto simp: waiter_lock_def waiter_park_def waiter_wakes_def waiter_goto_def asleep_def
       shutdown_pending_def split: if_splits\<close>)
qed

lemma retry_apply_ok:
  assumes "retry_ok s" and "retry_apply e s = Some s'"
  shows "retry_ok s'"
proof -
  have "mutex_ok s'" by (rule mutex_ok_step [OF _ assms(2)]) (use assms(1) in \<open>simp add: retry_ok_def\<close>)
  with retry_step_told [OF assms] show ?thesis unfolding retry_ok_def by blast
qed

lemma retry_exec_ok: "retry_exec es s = Some s' \<Longrightarrow> retry_ok s \<Longrightarrow> retry_ok s'"
  by (induction es arbitrary: s) (auto split: option.splits intro: retry_apply_ok)

subsection \<open>Property\<close>

text \<open>
  C24: No wakeup is lost. In every interleaving of waiters, shutdowns and cancellations, a waiter that
  sleeps although the manager shut down or its acquisition was canceled is still going to be
  notified: a \<open>shutdown\<close> that stored the flag has not notified yet, or the cancellation holds the
  mutex and notifies before it gives it back.
\<close>

theorem no_lost_wakeup:
  assumes "retry_exec es retry_new = Some s" and "rt_waiters s i = W_Parked"
  shows "(rt_is_shutdown s \<longrightarrow> shutdown_pending s) \<and>
    (rt_canceled s i \<longrightarrow> rt_cancelers s i = C_Flagged \<and> rt_owner s = By_Canceler i)"
proof -
  have ok: "retry_ok s" by (rule retry_exec_ok [OF assms(1) retry_new_ok])
  then have "asleep (rt_waiters s i)" using assms(2) by (simp add: asleep_def)
  with ok canceler_owns [of s i] show ?thesis by (auto simp: retry_ok_def)
qed

definition retry_example :: "retry_event list" where
  "retry_example = [R_Lock 0, R_Check 0 False, R_Flag 3, R_Park 0, R_Cancel_Lock 0, R_Cancel_Flag 0]"

theorem no_lost_wakeup_witness:
  "shutdown_pending (the (retry_exec retry_example retry_new)) \<and>
   rt_owner (the (retry_exec retry_example retry_new)) = By_Canceler 0"
proof -
  have run: "retry_exec retry_example retry_new = Some (the (retry_exec retry_example retry_new))"
    and facts: "rt_waiters (the (retry_exec retry_example retry_new)) 0 = W_Parked"
      "rt_is_shutdown (the (retry_exec retry_example retry_new))"
      "rt_canceled (the (retry_exec retry_example retry_new)) 0"
    by (simp_all add: retry_example_def retry_new_def retry_defs)
  show ?thesis using no_lost_wakeup [OF run facts(1)] facts by simp
qed

end
