(* ===== verification/Guard_Events.thy ===== *)
theory Guard_Events
  imports Release_Queue
begin

text \<open>
  What acquisitions and guards do to the outside, as a list of events in which both variants write down
  their commands, queued releases, spawned renewals and waits, each with its outcome; and what a list of
  events leaves behind in Redis.
\<close>

text \<open>
  A release that fails, and a \<open>try_send\<close> that finds the queue full or closed, are only logged: the lock then
  stays until its TTL is over.
\<close>

datatype guard_event =
    Sent_Acquire lock_request "(string, bool) result"
  | Sent_Renew lock_request "(string, bool) result"
  | Sent_Release lock_request "(string, bool) result"
  | Queue_Release lock_request "(send_error, unit) result"  \<comment> \<open>\<open>try_send\<close> of a release command\<close>
  | Spawn_Renewal lock_request
  | Waited duration

subsection \<open>What is left behind\<close>

text \<open>
  \<open>held_after is_io b evs\<close>: after the events Redis may hold a lock of the request that no confirmed release and
  no queued release gives back, if \<open>b\<close> says so for the time before. An acquisition that failed with an I/O error
  may have been applied. \<open>pending_after\<close> is the same without a look at the outcomes of the releases: nobody has
  even tried to give the lock back.
\<close>

fun may_hold :: "(string \<Rightarrow> bool) \<Rightarrow> (string, bool) result \<Rightarrow> bool" where
  "may_hold is_io (Inl error) = is_io error"
| "may_hold is_io (Inr acquired) = acquired"

fun held_after :: "(string \<Rightarrow> bool) \<Rightarrow> bool \<Rightarrow> guard_event list \<Rightarrow> bool" where
  "held_after is_io b [] = b"
| "held_after is_io b (Sent_Acquire r reply # evs) = held_after is_io (b \<or> may_hold is_io reply) evs"
| "held_after is_io b (Sent_Release r reply # evs) = held_after is_io (b \<and> isl reply) evs"
| "held_after is_io b (Queue_Release r queued # evs) = held_after is_io (b \<and> isl queued) evs"
| "held_after is_io b (ev # evs) = held_after is_io b evs"

fun pending_after :: "(string \<Rightarrow> bool) \<Rightarrow> bool \<Rightarrow> guard_event list \<Rightarrow> bool" where
  "pending_after is_io b [] = b"
| "pending_after is_io b (Sent_Acquire r reply # evs) = pending_after is_io (b \<or> may_hold is_io reply) evs"
| "pending_after is_io b (Sent_Release r reply # evs) = pending_after is_io False evs"
| "pending_after is_io b (Queue_Release r queued # evs) = pending_after is_io False evs"
| "pending_after is_io b (ev # evs) = pending_after is_io b evs"

fun release_failed :: "guard_event \<Rightarrow> bool" where
  "release_failed (Sent_Release r reply) = isl reply"
| "release_failed (Queue_Release r queued) = isl queued"
| "release_failed _ = False"

lemma pending_after_append [simp]:
  "pending_after is_io b (xs @ ys) = pending_after is_io (pending_after is_io b xs) ys"
  by (induction is_io b xs rule: pending_after.induct) auto

lemma pending_is_held: "pending_after is_io b evs \<Longrightarrow> (b \<longrightarrow> b') \<Longrightarrow> held_after is_io b' evs"
  by (induction is_io b evs arbitrary: b' rule: pending_after.induct) auto

lemma held_is_pending: "\<not> list_ex release_failed evs \<Longrightarrow> held_after is_io b evs = pending_after is_io b evs"
  by (induction is_io b evs rule: pending_after.induct) auto

text \<open>Where everything is given back, only a failed release leaves a lock.\<close>

lemma held_iff_pending:
  assumes "pending_after is_io False evs = got"
  shows "(got \<longrightarrow> held_after is_io False evs) \<and>
    (held_after is_io False evs \<longrightarrow> got \<or> list_ex release_failed evs)"
  using pending_is_held [of is_io False evs False] held_is_pending [of evs is_io False] assms by blast

subsection \<open>Workers that stop\<close>

text \<open>
  How the worker thread or the task of an acquisition ended: by itself, or in a panic (or with its runtime) after
  so many of its events, where the guard it had by then, if any, was dropped.
\<close>

datatype worker_end = Ran_To_End | Stopped_After nat "(send_error, unit) result option"

fun until_end :: "worker_end \<Rightarrow> lock_request \<Rightarrow> guard_event list \<Rightarrow> guard_event list" where
  "until_end Ran_To_End request evs = evs"
| "until_end (Stopped_After n unwound) request evs =
     take n evs @ (case unwound of None \<Rightarrow> [] | Some queued \<Rightarrow> [Queue_Release request queued])"

subsection \<open>The commands among the events\<close>

text \<open>The acquisition and renewal commands among the events.\<close>

fun is_acquire :: "guard_event \<Rightarrow> bool" where
  "is_acquire (Sent_Acquire r reply) = True"
| "is_acquire _ = False"

fun is_renewal :: "guard_event \<Rightarrow> bool" where
  "is_renewal (Sent_Renew r reply) = True"
| "is_renewal _ = False"

lemma until_end_acquires: "length (filter is_acquire (until_end w request evs)) \<le> length (filter is_acquire evs)"
proof (cases w)
  case (Stopped_After n unwound)
  have "length (filter is_acquire (take n evs)) \<le> length (filter is_acquire evs)"
    by (metis append_take_drop_id filter_append length_append le_add1)
  with Stopped_After show ?thesis by (simp split: option.splits)
qed simp

text \<open>A command that was sent: the instant read before it, and the reply.\<close>

type_synonym sent_command = "instant \<times> (string, bool) result"

text \<open>
  \<open>acquires_sent cs evs\<close>: the acquisition commands of a loop whose passes would send \<open>cs\<close>: a pass sends its
  command, or the loop ends in it. \<open>confirmed_at t cs\<close>: the last command was sent at \<open>t\<close> and succeeded;
  \<open>acquired_at cs\<close> is the instant of the last command.
\<close>

definition acquires_sent :: "sent_command list \<Rightarrow> guard_event list \<Rightarrow> sent_command list" where
  "acquires_sent cs evs = take (length (filter is_acquire evs)) cs"

definition confirmed_at :: "instant \<Rightarrow> sent_command list \<Rightarrow> bool" where
  "confirmed_at t cs \<longleftrightarrow> cs \<noteq> [] \<and> last cs = (t, Inr True)"

definition acquired_at :: "sent_command list \<Rightarrow> instant" where
  "acquired_at cs = fst (last cs)"

lemma acquired_at_confirmed: "confirmed_at t cs \<Longrightarrow> acquired_at cs = t"
  by (simp add: confirmed_at_def acquired_at_def)

lemma acquires_sent_simps [simp]:
  "acquires_sent cs [] = []"
  "acquires_sent (c # cs) (Sent_Acquire r reply # evs) = c # acquires_sent cs evs"
  "acquires_sent cs (Waited d # evs) = acquires_sent cs evs"
  by (simp_all add: acquires_sent_def)

lemma acquires_sent_silent [simp]:
  "filter is_acquire evs' = [] \<Longrightarrow> acquires_sent cs (evs @ evs') = acquires_sent cs evs"
  "filter is_acquire evs' = [] \<Longrightarrow> acquires_sent cs evs' = []"
  by (simp_all add: acquires_sent_def)

lemma confirmed_at_simps [simp]:
  "confirmed_at t [c] \<longleftrightarrow> c = (t, Inr True)"
  "confirmed_at t cs \<Longrightarrow> confirmed_at t (c # cs)"
  by (simp_all add: confirmed_at_def)

end
