(* ===== verification/Renewal.thy ===== *)
theory Renewal
  imports Guard_Events Lease
begin

text \<open>
  The part of the automatic renewal that the sync and the async variant share: the check of the lease, one
  renewal command, and what its reply does to the lease. The other tasks that share the lease act on it
  between these steps. Then what a punctual pass does.
\<close>

subsection \<open>One renewal\<close>

text \<open>
  The readings of one pass: the clock in \<open>lease.state()\<close>, the instant of the attempt, the reply of
  Redis, what the other tasks do to the lease until then, the clock in \<open>lease.renew\<close>, and on an error
  the clock in \<open>Instant::now()\<close> and in \<open>lease.remaining()\<close>.
\<close>

record renew_pass =
  rp_state_now :: instant
  rp_attempt :: instant
  rp_reply :: "(string, bool) result"
  rp_during :: "lease_op list"
  rp_renew_now1 :: instant
  rp_renew_now2 :: instant
  rp_error_now :: instant
  rp_left_now1 :: instant
  rp_left_now2 :: instant

datatype renewal_end = Stop_Signal | Inactive_Lease | Lease_Given_Up

text \<open>The result is the end of the loop, or the start and the length of its next wait.\<close>

definition renew_once :: "lock_request \<Rightarrow> duration \<Rightarrow> duration \<Rightarrow> duration \<Rightarrow> 'x renew_pass_scheme \<Rightarrow> lease \<Rightarrow>
    (renewal_end + instant \<times> duration) \<times> lease \<times> guard_event list" where
  "renew_once request interval retry_interval ttl e l =
     (case lease_get_state (rp_state_now e) l of (st, l1) \<Rightarrow>
       if st \<noteq> Active then (Inl Inactive_Lease, l1, [])
       else
         (let l2 = lease_run (rp_during e) l1; evs = [Sent_Renew request (rp_reply e)] in
          (case rp_reply e of
             Inl error \<Rightarrow>
               (case lease_remaining (rp_left_now1 e) (rp_left_now2 e) l2 of (left, l3) \<Rightarrow>
                 (Inr (rp_error_now e, min retry_interval (left div 2)), l3, evs))
           | Inr True \<Rightarrow>
               (case lease_renew (rp_renew_now1 e) (rp_renew_now2 e) (rp_attempt e) ttl l2 of
                  (renewed, l3) \<Rightarrow>
                    if renewed then (Inr (rp_attempt e, interval), l3, evs)
                    else (Inl Lease_Given_Up, lease_lose l3, evs))
           | Inr False \<Rightarrow> (Inl Lease_Given_Up, lease_lose l2, evs))))"

text \<open>
  \<open>acquired_lease ttl cs ops l\<close>: the last acquisition of \<open>cs\<close> succeeded, and \<open>l\<close> is the lease that starts at
  the instant before it, after the operations \<open>ops\<close>.
\<close>

definition acquired_lease :: "duration \<Rightarrow> sent_command list \<Rightarrow> lease_op list \<Rightarrow> lease \<Rightarrow> bool" where
  "acquired_lease ttl cs ops l \<longleftrightarrow>
     confirmed_at (acquired_at cs) cs \<and> l = lease_run ops (lease_new (acquired_at cs) ttl)"

lemma acquired_lease_one: "acquired_lease ttl [(t, Inr True)] [] (lease_new t ttl)"
  by (simp add: acquired_lease_def acquired_at_def)

lemma acquired_lease_Cons: "acquired_lease ttl cs ops l \<Longrightarrow> acquired_lease ttl (c # cs) ops l"
  by (auto simp: acquired_lease_def acquired_at_def confirmed_at_def)

lemma acquired_lease_more:
  "acquired_lease ttl cs ops l \<Longrightarrow> acquired_lease ttl cs (ops @ ops') (lease_run ops' l)"
  by (simp add: acquired_lease_def lease_run_append)

text \<open>
  The renewals that a loop sent: a pass sends one command, or the loop ends in it.
\<close>

definition renewals_sent :: "'x renew_pass_scheme list \<Rightarrow> guard_event list \<Rightarrow> sent_command list" where
  "renewals_sent es evs =
     List.map (\<lambda>e. (rp_attempt e, rp_reply e)) (take (length (filter is_renewal evs)) es)"

text \<open>
  The periods a lease can have after a loop that sent the commands \<open>cs\<close>: the one it had, or the full TTL
  from the instant before a command that Redis confirmed.
\<close>

definition honest_period :: "duration \<Rightarrow> sent_command list \<Rightarrow> lease \<Rightarrow> lease \<Rightarrow> bool" where
  "honest_period ttl cs l l' \<longleftrightarrow>
     l_start l' = l_start l \<and> l_ttl l' = l_ttl l \<or>
     (l_start l', Inr True) \<in> set cs \<and> l_ttl l' = ttl"

subsection \<open>Facts\<close>

text \<open>Only the renewal itself renews a lease.\<close>

fun is_renew :: "lease_op \<Rightarrow> bool" where
  "is_renew (Op_Renew now1 now2 start ttl) = True"
| "is_renew op = False"

lemma lease_apply_period:
  "\<not> is_renew op \<Longrightarrow> l_start (lease_apply op l) = l_start l \<and> l_ttl (lease_apply op l) = l_ttl l"
  by (cases op) (auto simp: lease_simps)

lemma lease_run_period:
  "\<not> list_ex is_renew ops \<Longrightarrow> l_start (lease_run ops l) = l_start l \<and> l_ttl (lease_run ops l) = l_ttl l"
  by (induction ops arbitrary: l) (auto simp: lease_apply_period)

lemma lease_get_state_facts:
  assumes "lease_get_state now l = (st, l')"
  shows "l_start l' = l_start l" and "l_ttl l' = l_ttl l" and "st = l_state l'"
    and "st = Active \<Longrightarrow> l' = l \<and> l_state l = Active \<and> now - l_start l < l_ttl l"
  using assms by (auto simp: lease_simps split: if_splits)

lemma lease_remaining_facts:
  assumes "lease_remaining now1 now2 l = (d, l')"
  shows "l_start l' = l_start l" and "l_ttl l' = l_ttl l"
    and "l_state l' = Active \<Longrightarrow> l_state l = Active \<and> d = l_ttl l - (now2 - l_start l)"
    and "l_state l' \<noteq> Active \<Longrightarrow> d = 0"
  using assms by (auto simp: lease_simps split: if_splits)

lemma lease_lose_facts [simp]:
  "l_start (lease_lose l) = l_start l" "l_ttl (lease_lose l) = l_ttl l"
  "l_state (lease_lose l) = Active \<longleftrightarrow> False"
  by (simp_all add: lease_simps)

text \<open>The ways a pass can go.\<close>

lemma renew_once_cases:
  assumes "renew_once request interval retry_interval ttl e l = (r, l', evs)"
  obtains
    (inactive) "\<not> (l_state l = Active \<and> rp_state_now e - l_start l < l_ttl l)" "r = Inl Inactive_Lease"
      "l' = lease_refresh (rp_state_now e) l" "l_state l' \<noteq> Active" "evs = []"
  | (confirmed) "l_state l = Active" "rp_state_now e - l_start l < l_ttl l" "rp_reply e = Inr True"
      "fst (lease_renew (rp_renew_now1 e) (rp_renew_now2 e) (rp_attempt e) ttl (lease_run (rp_during e) l))"
      "l' = snd (lease_renew (rp_renew_now1 e) (rp_renew_now2 e) (rp_attempt e) ttl (lease_run (rp_during e) l))"
      "r = Inr (rp_attempt e, interval)" "evs = [Sent_Renew request (rp_reply e)]"
  | (refused) "l_state l = Active" "rp_state_now e - l_start l < l_ttl l" "rp_reply e = Inr True"
      "\<not> fst (lease_renew (rp_renew_now1 e) (rp_renew_now2 e) (rp_attempt e) ttl (lease_run (rp_during e) l))"
      "l' = lease_lose
         (snd (lease_renew (rp_renew_now1 e) (rp_renew_now2 e) (rp_attempt e) ttl (lease_run (rp_during e) l)))"
      "r = Inl Lease_Given_Up" "evs = [Sent_Renew request (rp_reply e)]"
  | (lost) "l_state l = Active" "rp_state_now e - l_start l < l_ttl l" "rp_reply e = Inr False"
      "l' = lease_lose (lease_run (rp_during e) l)"
      "r = Inl Lease_Given_Up" "evs = [Sent_Renew request (rp_reply e)]"
  | (failed) error where "l_state l = Active" "rp_state_now e - l_start l < l_ttl l" "rp_reply e = Inl error"
      "l' = snd (lease_remaining (rp_left_now1 e) (rp_left_now2 e) (lease_run (rp_during e) l))"
      "r = Inr (rp_error_now e, min retry_interval
         (fst (lease_remaining (rp_left_now1 e) (rp_left_now2 e) (lease_run (rp_during e) l)) div 2))"
      "evs = [Sent_Renew request (rp_reply e)]"
proof (cases "l_state (lease_refresh (rp_state_now e) l) = Active")
  case False
  with assms inactive show ?thesis
    by (auto simp: renew_once_def lease_get_state_def Let_def lease_refresh_active_iff)
next
  case True
  then have active: "l_state l = Active" "rp_state_now e - l_start l < l_ttl l"
    by (simp_all add: lease_refresh_active_iff)
  then have l1: "lease_get_state (rp_state_now e) l = (Active, l)"
    by (simp add: lease_get_state_def lease_refresh_def elapsed_def)
  show ?thesis
  proof (cases "rp_reply e")
    case (Inl error)
    show ?thesis
      by (rule failed [OF active Inl]) (use assms l1 Inl in \<open>auto simp: renew_once_def Let_def split: prod.splits\<close>)
  next
    case (Inr b)
    show ?thesis
    proof (cases b)
      case False
      with Inr have "rp_reply e = Inr False" by simp
      then show ?thesis using assms l1 lost [OF active] by (simp add: renew_once_def Let_def)
    next
      case True
      with Inr have reply: "rp_reply e = Inr True" by simp
      then show ?thesis
        using assms l1 confirmed [OF active reply] refused [OF active reply]
        by (simp add: renew_once_def Let_def split: prod.splits if_splits)
    qed
  qed
qed

lemma renew_once_end:
  assumes "renew_once request interval retry_interval ttl e l = (Inl end_reason, l', evs)"
  shows "l_state l' \<noteq> Active" and "end_reason \<noteq> Stop_Signal"
  using assms by (cases rule: renew_once_cases; simp)+

text \<open>A command is only sent while the lease is active, and it is the renewal of the request.\<close>

lemma renew_once_sends:
  assumes "renew_once request interval retry_interval ttl e l = (r, l', evs)"
  shows "evs = (if l_state l = Active \<and> rp_state_now e - l_start l < l_ttl l
      then [Sent_Renew request (rp_reply e)] else [])"
  using assms by (cases rule: renew_once_cases) auto

lemma renew_once_monotone:
  assumes "renew_once request interval retry_interval ttl e l = (r, l', evs)"
  shows "l_state l \<le> l_state l'"
  using assms
proof (cases rule: renew_once_cases)
  case inactive
  then show ?thesis by (simp add: lease_monotone)
qed simp_all

lemma lease_remaining_data [simp]:
  "l_start (snd (lease_remaining now1 now2 l)) = l_start l" "l_ttl (snd (lease_remaining now1 now2 l)) = l_ttl l"
  by (simp_all add: lease_remaining_def Let_def)

lemma lease_renew_data:
  "l_start (snd (lease_renew now1 now2 start ttl l)) =
     (if fst (lease_renew now1 now2 start ttl l) then start else l_start l)"
  "l_ttl (snd (lease_renew now1 now2 start ttl l)) =
     (if fst (lease_renew now1 now2 start ttl l) then ttl else l_ttl l)"
  by (simp_all add: lease_renew_def lease_notify_def Let_def)

lemma renew_once_period:
  assumes "renew_once request interval retry_interval ttl e l = (r, l', evs)"
    and "\<not> list_ex is_renew (rp_during e)"
  shows "honest_period ttl (renewals_sent (e # es) evs) l l'"
  using assms(1) lease_run_period [OF assms(2), of l]
  by (cases rule: renew_once_cases) (simp_all add: honest_period_def renewals_sent_def lease_renew_data)

text \<open>A pass after which the loop goes on sends a command, and the next ones add theirs.\<close>

lemma renew_once_goes_on:
  assumes "renew_once request interval retry_interval ttl e l = (Inr w, l', evs1)"
  shows "renewals_sent (e # es) (evs1 @ evs2) = (rp_attempt e, rp_reply e) # renewals_sent es evs2"
    and "renewals_sent (e # es) evs1 = [(rp_attempt e, rp_reply e)]"
  using assms by (cases rule: renew_once_cases; simp add: renewals_sent_def)+

lemma honest_period_trans:
  assumes "honest_period ttl cs l l'" and "honest_period ttl cs' l' l''"
  shows "honest_period ttl (cs @ cs') l l''"
  using assms by (auto simp: honest_period_def)

lemma honest_period_same: "l_start l' = l_start l \<Longrightarrow> l_ttl l' = l_ttl l \<Longrightarrow> honest_period ttl cs l l'"
  by (simp add: honest_period_def)

lemma honest_period_from:
  assumes "honest_period ttl cs l1 l'" and "l_start l1 = l_start l \<and> l_ttl l1 = l_ttl l"
  shows "honest_period ttl cs l l'"
  using assms by (simp add: honest_period_def)

text \<open>The wait after an error ends before the lease does.\<close>

lemma renew_once_retry:
  assumes "renew_once request interval retry_interval ttl e l = (Inr (from, wait), l', evs)"
    and "rp_reply e = Inl error"
  shows "from = rp_error_now e" and "wait \<le> retry_interval"
    and "2 * wait \<le> fst (lease_remaining (rp_left_now1 e) (rp_left_now2 e) l')"
proof -
  have idem: "lease_refresh now (lease_refresh now x) = lease_refresh now x" for now and x :: lease
    by (simp add: lease_refresh_def lease_notify_def)
  have "from = rp_error_now e \<and> wait \<le> retry_interval \<and>
      2 * wait \<le> fst (lease_remaining (rp_left_now1 e) (rp_left_now2 e) l')"
    using assms(1)
  proof (cases rule: renew_once_cases)
    case (failed err)
    then show ?thesis by (simp add: lease_remaining_def Let_def idem)
  qed (use assms(2) in simp_all)
  then show "from = rp_error_now e" "wait \<le> retry_interval"
    "2 * wait \<le> fst (lease_remaining (rp_left_now1 e) (rp_left_now2 e) l')" by blast+
qed

subsection \<open>Punctual renewals\<close>

fun reads_until :: "instant \<Rightarrow> lease_op \<Rightarrow> bool" where
  "reads_until t (Op_State now) = (now \<le> t)"
| "reads_until t (Op_Remaining now1 now2) = (now1 \<le> t)"
| "reads_until t op = False"

text \<open>An active lease with the period from \<open>start\<close>.\<close>

definition runs_from :: "instant \<Rightarrow> duration \<Rightarrow> lease \<Rightarrow> bool" where
  "runs_from start ttl l \<longleftrightarrow> l_state l = Active \<and> l_start l = start \<and> l_ttl l = ttl \<and> 0 < ttl"

lemma runs_from_refresh:
  "runs_from start ttl l \<Longrightarrow> now < start + ttl \<Longrightarrow> lease_refresh now l = l"
  by (auto simp: runs_from_def lease_simps)

lemma runs_from_reads:
  "runs_from start ttl l \<Longrightarrow> t < start + ttl \<Longrightarrow> list_all (reads_until t) ops \<Longrightarrow> lease_run ops l = l"
proof (induction ops)
  case (Cons op ops)
  then have "lease_apply op l = l"
    by (cases op) (simp_all add: lease_get_state_def lease_remaining_def Let_def runs_from_refresh)
  with Cons show ?case by simp
qed simp

text \<open>
  \<open>prompt lag e\<close>: the pass takes at most \<open>lag\<close> from the check of the lease to its update after the reply,
  and nobody touches the lease except by reading it. \<open>paced lag interval start es\<close>: every pass is prompt
  and starts in time after the attempt before it.
\<close>

definition prompt :: "duration \<Rightarrow> 'x renew_pass_scheme \<Rightarrow> bool" where
  "prompt lag e \<longleftrightarrow>
     rp_state_now e \<le> rp_attempt e \<and> rp_attempt e \<le> rp_renew_now1 e \<and>
     rp_renew_now1 e \<le> rp_renew_now2 e \<and> rp_renew_now2 e \<le> rp_state_now e + lag \<and>
     list_all (reads_until (rp_renew_now1 e)) (rp_during e)"

fun paced :: "duration \<Rightarrow> duration \<Rightarrow> instant \<Rightarrow> 'x renew_pass_scheme list \<Rightarrow> bool" where
  "paced lag interval start [] = True"
| "paced lag interval start (e # es) =
     (prompt lag e \<and> rp_state_now e \<le> start + interval + 2 * lag \<and> paced lag interval (rp_attempt e) es)"

lemma prompt_renew_once:
  assumes "runs_from start ttl l" and "prompt lag e" and "rp_state_now e + lag < start + ttl"
    and "rp_reply e = Inr True" and "lag < ttl"
  shows "\<exists>l'. renew_once request interval retry_interval ttl e l =
      (Inr (rp_attempt e, interval), l', [Sent_Renew request (Inr True)]) \<and> runs_from (rp_attempt e) ttl l'"
proof -
  have bounds: "rp_renew_now1 e < start + ttl" "rp_state_now e < start + ttl"
    "rp_renew_now2 e - rp_attempt e < ttl"
    using assms(2,3,5) by (auto simp: prompt_def)
  have during: "lease_run (rp_during e) l = l"
    using assms(2) runs_from_reads [OF assms(1) bounds(1)] by (simp add: prompt_def)
  have checked: "lease_get_state (rp_state_now e) l = (Active, l)"
    using assms(1) runs_from_refresh [OF assms(1) bounds(2)]
    by (simp add: lease_get_state_def Let_def) (simp add: runs_from_def)
  have renewed: "lease_renew (rp_renew_now1 e) (rp_renew_now2 e) (rp_attempt e) ttl l =
      (True, lease_notify (l\<lparr>l_start := rp_attempt e, l_ttl := ttl\<rparr>))"
    using assms(1) runs_from_refresh [OF assms(1) bounds(1)] bounds(3)
    by (simp add: lease_renew_def Let_def elapsed_def) (simp add: runs_from_def)
  show ?thesis
    using assms(1,4) by (simp add: renew_once_def during checked renewed)
      (simp add: runs_from_def lease_notify_def)
qed

end
