(* ===== verification/Sync_Guard.thy ===== *)
theory Sync_Guard
  imports Renewal Options Keys Errors
begin

text \<open>
  Sync acquisition, renewal and release, \<open>src/sync_lock/guard.rs\<close>. The functions run against an
  environment that is given as data: one record per pass of a loop holds what the pass reads from
  the clock, the flags and Redis, in the order of the code, and a loop runs over the list of its
  passes. An exhausted list means that the loop is still running. What a function does to the
  outside is its list of events.

  \<open>is_io\<close> stands for \<open>RedisError::is_io_error\<close>. The uuid of a request is an argument.
\<close>

subsection \<open>Guards\<close>

record guard_data =
  g_request :: lock_request
  g_release_tx :: bool
  g_is_released :: bool
  g_lease :: lease
  g_stop_tx :: bool

subsection \<open>Dropping and releasing a guard\<close>

text \<open>\<open>queued\<close> is what \<open>try_send\<close> returns: an error, if the queue is full or closed, is only logged.\<close>

definition guard_drop :: "(send_error, unit) result \<Rightarrow> guard_data \<Rightarrow> guard_data \<times> guard_event list" where
  "guard_drop queued g =
     (g\<lparr>g_lease := lease_release (g_lease g), g_stop_tx := False,
        g_release_tx := g_is_released g \<and> g_release_tx g\<rparr>,
      if \<not> g_is_released g \<and> g_release_tx g then [Queue_Release (g_request g) queued] else [])"

text \<open>\<open>reply\<close> is what \<open>release_lock\<close> returns; its \<open>bool\<close> is not looked at.\<close>

definition guard_release :: "(string, bool) result \<Rightarrow> guard_data \<Rightarrow>
    (release_failure, unit) result \<times> guard_data \<times> guard_event list" where
  "guard_release reply g =
     (if g_is_released g then (Inr (), g, [])
      else
        (let g' = g\<lparr>g_lease := lease_lose (g_lease g), g_stop_tx := False\<rparr> in
         (case reply of
            Inl e \<Rightarrow> (Inl (ReleaseRedisError e), g', [Sent_Release (g_request g) reply])
          | Inr _ \<Rightarrow>
              (Inr (),
               g'\<lparr>g_is_released := True, g_lease := lease_release (g_lease g'), g_release_tx := False\<rparr>,
               [Sent_Release (g_request g) reply]))))"

text \<open>
  \<open>GuardData::new\<close>: \<open>spawned\<close> is the result of spawning the renewal thread. An error drops the guard, with
  \<open>queued\<close> from its \<open>try_send\<close>.
\<close>

definition guard_new :: "lock_request \<Rightarrow> lease \<Rightarrow> acquire_options \<Rightarrow> (string, unit) result \<Rightarrow>
    (send_error, unit) result \<Rightarrow> (acquire_failure, guard_data) result \<times> guard_event list" where
  "guard_new request lease options spawned queued =
     (let guard = \<lparr>g_request = request, g_release_tx = True, g_is_released = False,
                   g_lease = lease, g_stop_tx = False\<rparr>
      in
        (case effective_renew_interval options of
           None \<Rightarrow> (Inr guard, [])
         | Some interval \<Rightarrow>
             (case spawned of
                Inl e \<Rightarrow> (Inl (AcquireWorkerError e), snd (guard_drop queued (guard\<lparr>g_stop_tx := True\<rparr>)))
              | Inr _ \<Rightarrow> (Inr (guard\<lparr>g_stop_tx := True\<rparr>), [Spawn_Renewal request]))))"

subsection \<open>The acquisition loop\<close>

text \<open>
  \<open>at_release\<close> is the reply to the release of a late acquisition, \<open>at_queued\<close> what \<open>try_send\<close> returns for the
  cleanup after an I/O error, or for the drop of a guard whose renewal thread could not be spawned.
\<close>

record attempt_env =
  at_canceled1 :: bool
  at_now1 :: instant
  at_shutdown1 :: bool
  at_attempt :: instant
  at_checkout :: "(string, unit) result"
  at_reply :: "(string, bool) result"
  at_shutdown2 :: bool
  at_canceled2 :: bool
  at_now2 :: instant
  at_lease_now :: instant
  at_spawned :: "(string, unit) result"
  at_release :: "(string, bool) result"
  at_queued :: "(send_error, unit) result"
  at_shutdown3 :: bool
  at_now3 :: instant
  at_now4 :: instant

text \<open>\<open>options.lock_timeout().is_some_and(|timeout| start.elapsed() >= timeout)\<close>\<close>

definition timed_out :: "acquire_options \<Rightarrow> instant \<Rightarrow> instant \<Rightarrow> bool" where
  "timed_out options start now =
     (case ao_lock_timeout options of None \<Rightarrow> False | Some timeout \<Rightarrow> timeout \<le> elapsed now start)"

definition retry_wait :: "acquire_options \<Rightarrow> instant \<Rightarrow> instant \<Rightarrow> duration" where
  "retry_wait options start now =
     (case ao_lock_timeout options of
        None \<Rightarrow> ao_retry_interval options
      | Some timeout \<Rightarrow> min (ao_retry_interval options) (timeout - elapsed now start))"

text \<open>Why a lock that was just acquired is given back.\<close>

definition late_failure :: "acquire_options \<Rightarrow> instant \<Rightarrow> attempt_env \<Rightarrow> acquire_failure option" where
  "late_failure options start e =
     (if at_shutdown2 e then Some Shutdown
      else if at_canceled2 e \<or> timed_out options start (at_now2 e) then Some LockTimeout
      else if fst (lease_get_state (at_lease_now e)
                     (lease_new (at_attempt e) (effective_ttl options))) \<noteq> Active
      then Some LeaseExpired
      else None)"

type_synonym acquire_outcome = "(acquire_failure, guard_data option) result \<times> guard_event list"

definition acquired_outcome :: "lock_request \<Rightarrow> acquire_options \<Rightarrow> instant \<Rightarrow> attempt_env \<Rightarrow> acquire_outcome" where
  "acquired_outcome request options start e =
     (case late_failure options start e of
        Some error \<Rightarrow> (Inl error, [Sent_Release request (at_release e)])
      | None \<Rightarrow>
          (case guard_new request
                  (snd (lease_get_state (at_lease_now e) (lease_new (at_attempt e) (effective_ttl options))))
                  options (at_spawned e) (at_queued e) of
             (Inl error, evs) \<Rightarrow> (Inl error, evs)
           | (Inr guard, evs) \<Rightarrow> (Inr (Some guard), evs)))"

definition more_events :: "guard_event list \<Rightarrow> acquire_outcome \<Rightarrow> acquire_outcome" where
  "more_events evs r = (fst r, evs @ snd r)"

fun acquire_loop :: "(string \<Rightarrow> bool) \<Rightarrow> lock_request \<Rightarrow> acquire_options \<Rightarrow> bool \<Rightarrow> instant \<Rightarrow>
    attempt_env list \<Rightarrow> acquire_outcome option" where
  "acquire_loop is_io request options once start [] = None"
| "acquire_loop is_io request options once start (e # es) =
     (if at_canceled1 e \<or> timed_out options start (at_now1 e) then Some (Inl LockTimeout, [])
      else if at_shutdown1 e then Some (Inl Shutdown, [])
      else
        (case at_checkout e of
           Inl error \<Rightarrow> Some (Inl (acquire_error_from error), [])
         | Inr _ \<Rightarrow>
             (case at_reply e of
                Inl error \<Rightarrow>
                  Some (Inl (acquire_error_from error),
                    Sent_Acquire request (at_reply e) # (if is_io error then [Queue_Release request (at_queued e)] else []))
              | Inr acquired \<Rightarrow>
                  (if acquired
                   then Some (more_events [Sent_Acquire request (at_reply e)]
                                (acquired_outcome request options start e))
                   else if at_shutdown3 e then Some (Inl Shutdown, [Sent_Acquire request (at_reply e)])
                   else if timed_out options start (at_now3 e)
                   then Some (Inl LockTimeout, [Sent_Acquire request (at_reply e)])
                   else if once then Some (Inr None, [Sent_Acquire request (at_reply e)])
                   else map_option
                          (more_events [Sent_Acquire request (at_reply e),
                                        Waited (retry_wait options start (at_now4 e))])
                          (acquire_loop is_io request options once start es)))))"

subsection \<open>The rendezvous with the worker\<close>

text \<open>
  With a lock timeout the loop runs on a worker thread. What the caller gets from the result channel
  until its timeout, the clock and flags it then reads, what the renewal thread of the guard, which
  is already running, did to the shared lease until then, and what \<open>try_send\<close> returns if it drops the guard:
\<close>

datatype 'a received = Got 'a | Recv_Timeout | Recv_Disconnected

record caller_env =
  ce_now :: instant
  ce_shutdown :: bool
  ce_renewals :: "lease_op list"
  ce_lease_now :: instant
  ce_queued :: "(send_error, unit) result"

definition guard_after :: "lease_op list \<Rightarrow> guard_data \<Rightarrow> guard_data" where
  "guard_after ops g = g\<lparr>g_lease := lease_run ops (g_lease g)\<rparr>"

definition lease_inactive :: "instant \<Rightarrow> guard_data \<Rightarrow> bool" where
  "lease_inactive now g \<longleftrightarrow> fst (lease_get_state now (g_lease g)) \<noteq> Active"

definition dropped_events :: "(send_error, unit) result \<Rightarrow> (acquire_failure, guard_data option) result \<Rightarrow>
    guard_event list" where
  "dropped_events queued r = (case r of Inr (Some g) \<Rightarrow> snd (guard_drop queued g) | _ \<Rightarrow> [])"

text \<open>The caller: its result, its events, and whether it accepted the acquisition.\<close>

definition receive_result :: "acquire_options \<Rightarrow> instant \<Rightarrow> caller_env \<Rightarrow>
    (acquire_failure, guard_data option) result received \<Rightarrow>
    (acquire_failure, guard_data option) result \<times> guard_event list \<times> bool" where
  "receive_result options start e msg =
     (case msg of
        Recv_Timeout \<Rightarrow> (Inl LockTimeout, [], False)
      | Recv_Disconnected \<Rightarrow>
          (Inl (AcquireWorkerError ''the lock worker stopped before returning a result''), [], False)
      | Got result \<Rightarrow>
          (if timed_out options start (ce_now e) then (Inl LockTimeout, dropped_events (ce_queued e) result, False)
           else if ce_shutdown e then (Inl Shutdown, dropped_events (ce_queued e) result, False)
           else
             (case result of
                Inr (Some g) \<Rightarrow>
                  (if lease_inactive (ce_lease_now e) (guard_after (ce_renewals e) g)
                   then (Inl LeaseExpired, dropped_events (ce_queued e) result, False)
                   else (Inr (Some (guard_after (ce_renewals e) g)), [], True))
              | _ \<Rightarrow> (result, [], False))))"

text \<open>
  The worker after its loop: an acquisition that did not reach the caller, or that the caller did not
  accept, is released. If the caller was gone before the result was sent, or never took it out of
  the channel, the guard is dropped with it. \<open>queued\<close> and \<open>reply\<close> are the outcomes; a failed release is only
  logged.
\<close>

definition worker_finish ::
    "bool \<Rightarrow> bool \<Rightarrow> (send_error, unit) result \<Rightarrow> (string, bool) result \<Rightarrow> lock_request \<Rightarrow>
     (acquire_failure, guard_data option) result \<Rightarrow> guard_event list" where
  "worker_finish taken_out accepted queued reply request result =
     (case result of
        Inr (Some g) \<Rightarrow>
          (if taken_out then [] else snd (guard_drop queued g)) @
          (if accepted then [] else [Sent_Release request reply])
      | _ \<Rightarrow> [])"

text \<open>The last check, with and without a worker.\<close>

definition final_check :: "lease_op list \<Rightarrow> instant \<Rightarrow> (send_error, unit) result \<Rightarrow>
    (acquire_failure, guard_data option) result \<Rightarrow>
    (acquire_failure, guard_data option) result \<times> guard_event list" where
  "final_check renewals now queued result =
     (case result of
        Inr (Some g) \<Rightarrow>
          (if lease_inactive now (guard_after renewals g) then (Inl LeaseExpired, snd (guard_drop queued g))
           else (Inr (Some (guard_after renewals g)), []))
      | _ \<Rightarrow> (result, []))"

text \<open>
  \<open>acquire_internal\<close> after the debug assertion on the keys (\<open>debug_assert_lock_keys\<close>). \<open>ie_received\<close>
  says whether the caller got the result of the worker in time; \<open>None\<close> is an acquisition whose loop
  has not ended yet. The caller returns on a timeout without waiting for the worker; the events are
  those of both threads when both are done. A worker that panicked, as \<open>ie_worker\<close> says, or as the caller learns
  from the disconnected channel, leaves a part of the events of its loop. \<open>ie_unclaimed\<close> is what \<open>try_send\<close>
  returns for a guard that the caller did not take out of the channel, \<open>ie_cleanup\<close> the reply to the release by
  the worker, \<open>ie_queued\<close> the result of \<open>try_send\<close> after the last check.
\<close>

record internal_env =
  ie_admitted :: "(acquire_failure, unit) result"
  ie_worker_spawned :: "(string, unit) result"
  ie_attempts :: "attempt_env list"
  ie_received :: "unit received"
  ie_caller :: caller_env
  ie_worker :: worker_end
  ie_unclaimed :: "(send_error, unit) result"
  ie_cleanup :: "(string, bool) result"
  ie_renewals :: "lease_op list"
  ie_final_now :: instant
  ie_queued :: "(send_error, unit) result"

fun received_map :: "'a \<Rightarrow> unit received \<Rightarrow> 'a received" where
  "received_map a (Got _) = Got a"
| "received_map a Recv_Timeout = Recv_Timeout"
| "received_map a Recv_Disconnected = Recv_Disconnected"

definition worker_panicked :: "acquire_options \<Rightarrow> internal_env \<Rightarrow> bool" where
  "worker_panicked options e \<longleftrightarrow> ao_lock_timeout options \<noteq> None \<and>
     (ie_received e = Recv_Disconnected \<or> ie_received e = Recv_Timeout \<and> ie_worker e \<noteq> Ran_To_End)"

definition last_check :: "internal_env \<Rightarrow> (acquire_failure, guard_data option) result \<Rightarrow>
    (acquire_failure, guard_data option) result \<times> guard_event list" where
  "last_check e = final_check (ie_renewals e) (ie_final_now e) (ie_queued e)"

definition acquire_timed :: "(string \<Rightarrow> bool) \<Rightarrow> lock_request \<Rightarrow> acquire_options \<Rightarrow> bool \<Rightarrow> instant \<Rightarrow>
    internal_env \<Rightarrow> acquire_outcome option" where
  "acquire_timed is_io request options once start e =
     (case acquire_loop is_io request options once start (ie_attempts e) of
        None \<Rightarrow> None
      | Some (result, evs) \<Rightarrow>
          (case receive_result options start (ie_caller e) (received_map result (ie_received e)) of
             (r, caller_evs, accepted) \<Rightarrow>
               if worker_panicked options e then Some (r, until_end (ie_worker e) request evs)
               else Some (fst (last_check e r),
                 evs @ caller_evs @
                 worker_finish (ie_received e = Got ()) accepted (ie_unclaimed e) (ie_cleanup e) request result @
                 snd (last_check e r))))"

definition acquire_internal :: "(string \<Rightarrow> bool) \<Rightarrow> uuid \<Rightarrow> lock_target \<Rightarrow> acquire_options \<Rightarrow> bool \<Rightarrow>
    instant \<Rightarrow> internal_env \<Rightarrow> acquire_outcome option" where
  "acquire_internal is_io uuid target options once start e =
     (if ao_lock_timeout options = Some 0 then Some (Inl LockTimeout, [])
      else
        (case ie_admitted e of
           Inl error \<Rightarrow> Some (Inl error, [])
         | Inr _ \<Rightarrow>
             (let request = \<lparr>lr_target = target, lr_uuid = uuid\<rparr> in
              (case ao_lock_timeout options of
                 Some timeout \<Rightarrow>
                   (case ie_worker_spawned e of
                      Inl error \<Rightarrow> Some (Inl (AcquireWorkerError error), [])
                    | Inr _ \<Rightarrow> acquire_timed is_io request options once start e)
               | None \<Rightarrow>
                   map_option
                     (\<lambda>(r, evs). (fst (last_check e r), evs @ snd (last_check e r)))
                     (acquire_loop is_io request options once start (ie_attempts e))))))"

subsection \<open>What an acquisition leaves behind\<close>

text \<open>A guard that owns its lock and will give it back when it is dropped.\<close>

definition guard_fresh :: "lock_request \<Rightarrow> acquire_options \<Rightarrow> guard_data \<Rightarrow> bool" where
  "guard_fresh request options g \<longleftrightarrow>
     g_request g = request \<and> g_release_tx g \<and> \<not> g_is_released g \<and>
     g_stop_tx g = (effective_renew_interval options \<noteq> None)"

lemma guard_drop_held [simp]:
  "guard_fresh request options g \<Longrightarrow> pending_after is_io b (snd (guard_drop queued g)) = False"
  by (simp add: guard_fresh_def guard_drop_def)

definition got_guard :: "(acquire_failure, guard_data option) result \<Rightarrow> bool" where
  "got_guard r \<longleftrightarrow> (\<exists>g. r = Inr (Some g))"

lemma acquired_outcome_held:
  "pending_after is_io True (snd (acquired_outcome request options start e)) =
     got_guard (fst (acquired_outcome request options start e))"
  by (auto simp: acquired_outcome_def got_guard_def guard_new_def guard_drop_def Let_def
      split: option.splits sum.splits prod.splits if_splits)

lemma acquired_outcome_guard:
  assumes "fst (acquired_outcome request options start e) = Inr (Some g)"
  shows "guard_fresh request options g" and "g_lease g = lease_new (at_attempt e) (effective_ttl options)"
proof -
  have ok: "late_failure options start e = None"
    using assms by (auto simp: acquired_outcome_def split: option.splits)
  then have "fst (lease_get_state (at_lease_now e) (lease_new (at_attempt e) (effective_ttl options))) = Active"
    by (auto simp: late_failure_def split: if_splits)
  then have l: "snd (lease_get_state (at_lease_now e) (lease_new (at_attempt e) (effective_ttl options))) =
      lease_new (at_attempt e) (effective_ttl options)"
    using lease_get_state_active by blast
  show "guard_fresh request options g" "g_lease g = lease_new (at_attempt e) (effective_ttl options)"
    using assms ok l
    by (auto simp: acquired_outcome_def guard_new_def guard_fresh_def Let_def
        split: option.splits sum.splits prod.splits if_splits)
qed

lemma acquired_outcome_not_none: "fst (acquired_outcome request options start e) \<noteq> Inr None"
  by (auto simp: acquired_outcome_def split: option.splits sum.splits prod.splits)

lemma more_events_simps [simp]:
  "fst (more_events evs r) = fst r" "snd (more_events evs r) = evs @ snd r"
  by (simp_all add: more_events_def)

text \<open>Only the loop sends acquisitions.\<close>

lemma acquired_outcome_sends_no_acquire:
  "filter is_acquire (snd (acquired_outcome request options start e)) = []"
  by (auto simp: acquired_outcome_def guard_new_def guard_drop_def Let_def
      split: option.splits sum.splits prod.splits if_splits)

lemma guard_drop_sends_no_acquire [simp]: "filter is_acquire (snd (guard_drop queued g)) = []"
  by (simp add: guard_drop_def)

lemma final_check_sends_no_acquire [simp]: "filter is_acquire (snd (last_check e r)) = []"
  by (auto simp: last_check_def final_check_def split: sum.splits option.splits)

lemma receive_sends_no_acquire:
  "receive_result options start e msg = (r, evs, accepted) \<Longrightarrow> filter is_acquire evs = []"
  by (auto simp: receive_result_def dropped_events_def split: received.splits sum.splits option.splits if_splits)

lemma worker_finish_sends_no_acquire [simp]:
  "filter is_acquire (worker_finish taken accepted queued reply request r) = []"
  by (auto simp: worker_finish_def split: sum.splits option.splits)

text \<open>The acquisitions that were sent.\<close>

definition attempts_sent :: "attempt_env list \<Rightarrow> guard_event list \<Rightarrow> sent_command list" where
  "attempts_sent es evs = acquires_sent (List.map (\<lambda>e. (at_attempt e, at_reply e)) es) evs"

lemma attempts_sent_simps [simp]:
  "attempts_sent es [] = []"
  "attempts_sent (e # es) (Sent_Acquire r reply # evs) = (at_attempt e, at_reply e) # attempts_sent es evs"
  "attempts_sent es (Waited d # evs) = attempts_sent es evs"
  "filter is_acquire evs' = [] \<Longrightarrow> attempts_sent es (evs @ evs') = attempts_sent es evs"
  "filter is_acquire evs' = [] \<Longrightarrow> attempts_sent es evs' = []"
  by (simp_all add: attempts_sent_def)

text \<open>What a loop that ended returned, and what its events leave behind.\<close>

lemma acquire_loop_facts:
  assumes "acquire_loop is_io request options once start es = Some (r, evs)"
  shows "pending_after is_io False evs = got_guard r"
    and "r = Inr (Some g) \<Longrightarrow> guard_fresh request options g \<and>
      acquired_lease (effective_ttl options) (attempts_sent es evs) [] (g_lease g)"
    and "r = Inr None \<Longrightarrow> once"
proof -
  have "pending_after is_io False evs = got_guard r \<and>
    (r = Inr (Some g) \<longrightarrow> guard_fresh request options g \<and>
      acquired_lease (effective_ttl options) (attempts_sent es evs) [] (g_lease g)) \<and>
    (r = Inr None \<longrightarrow> once)"
    using assms
  proof (induction es arbitrary: evs)
    case Nil
    then show ?case by simp
  next
    case (Cons e es)
    show ?case
    proof (cases "at_checkout e = Inr () \<and> at_reply e = Inr True \<and> \<not> at_canceled1 e \<and>
        \<not> timed_out options start (at_now1 e) \<and> \<not> at_shutdown1 e")
      case True
      then have "r = fst (acquired_outcome request options start e)"
        "evs = Sent_Acquire request (Inr True) # snd (acquired_outcome request options start e)"
        using Cons.prems by (auto simp: more_events_def)
      with True acquired_outcome_held [of is_io request options start e]
        acquired_outcome_guard [of request options start e] acquired_outcome_not_none [of request options start e]
        acquired_outcome_sends_no_acquire [of request options start e] acquired_lease_one
      show ?thesis by auto
    next
      case False
      then show ?thesis
        using Cons.prems Cons.IH
        by (auto simp: got_guard_def more_events_def acquire_error_from_def intro: acquired_lease_Cons
            split: if_splits sum.splits)
    qed
  qed
  then show "pending_after is_io False evs = got_guard r"
    and "r = Inr (Some g) \<Longrightarrow> guard_fresh request options g \<and>
      acquired_lease (effective_ttl options) (attempts_sent es evs) [] (g_lease g)"
    and "r = Inr None \<Longrightarrow> once"
    by blast+
qed

text \<open>The checks after the loop keep what is held in step with what is returned.\<close>

lemma guard_after_simps [simp]:
  "guard_fresh request options (guard_after ops g) = guard_fresh request options g"
  "g_lease (guard_after ops g) = lease_run ops (g_lease g)"
  by (simp_all add: guard_after_def guard_fresh_def)

lemma last_check_facts:
  assumes "got_guard r = b" and "\<And>g. r = Inr (Some g) \<Longrightarrow> guard_fresh request options g"
  shows "pending_after is_io b (snd (last_check e r)) = got_guard (fst (last_check e r))"
    and "fst (last_check e r) = Inr (Some g) \<Longrightarrow>
      \<exists>h. r = Inr (Some h) \<and> g = guard_after (ie_renewals e) h \<and> \<not> lease_inactive (ie_final_now e) g"
    and "fst (last_check e r) = Inr None \<Longrightarrow> r = Inr None"
  using assms by (auto simp: last_check_def final_check_def got_guard_def split: sum.splits option.splits if_splits)

lemma receive_finish_facts:
  assumes "\<And>g. result = Inr (Some g) \<Longrightarrow> guard_fresh request options g" and "m \<noteq> Recv_Disconnected"
    and "receive_result options start e (received_map result m) = (r, evs, accepted)"
  shows "pending_after is_io (got_guard result) (evs @ worker_finish (m = Got ()) accepted queued reply request result) = got_guard r"
    and "r = Inr (Some g) \<Longrightarrow> \<exists>h. result = Inr (Some h) \<and> g = guard_after (ce_renewals e) h"
    and "r = Inr None \<Longrightarrow> result = Inr None"
proof -
  have "pending_after is_io (got_guard result) (evs @ worker_finish (m = Got ()) accepted queued reply request result) = got_guard r \<and>
    (r = Inr (Some g) \<longrightarrow> (\<exists>h. result = Inr (Some h) \<and> g = guard_after (ce_renewals e) h)) \<and>
    (r = Inr None \<longrightarrow> result = Inr None)"
  proof (cases m)
    case (Got u)
    show ?thesis
    proof (cases "\<exists>h. result = Inr (Some h)")
      case True
      then obtain h where h: "result = Inr (Some h)" by blast
      have "pending_after is_io b (snd (guard_drop queued h)) = False" for b queued
        using guard_drop_held [OF assms(1) [OF h]] .
      then show ?thesis
        using assms(3) Got h
        by (auto simp: receive_result_def worker_finish_def dropped_events_def got_guard_def split: if_splits)
    next
      case False
      with assms(3) Got show ?thesis
        by (auto simp: receive_result_def worker_finish_def dropped_events_def got_guard_def
            split: if_splits sum.splits option.splits)
    qed
  next
    case Recv_Timeout
    with assms(3) show ?thesis
      by (auto simp: receive_result_def worker_finish_def got_guard_def split: sum.splits option.splits)
  qed (use assms(2) in simp)
  then show "pending_after is_io (got_guard result) (evs @ worker_finish (m = Got ()) accepted queued reply request result) = got_guard r"
    and "r = Inr (Some g) \<Longrightarrow> \<exists>h. result = Inr (Some h) \<and> g = guard_after (ce_renewals e) h"
    and "r = Inr None \<Longrightarrow> result = Inr None"
    by blast+
qed

text \<open>What the renewal thread did to the lease of a new guard before the caller got it.\<close>

definition handover :: "acquire_options \<Rightarrow> internal_env \<Rightarrow> lease_op list" where
  "handover options e =
     (if ao_lock_timeout options = None then [] else ce_renewals (ie_caller e)) @ ie_renewals e"

text \<open>What the caller of a worker that panicked gets is an error.\<close>

lemma panicked_result:
  assumes "worker_panicked options e"
    and "receive_result options start c (received_map result (ie_received e)) = (r, evs, accepted)"
  shows "\<exists>error. r = Inl error"
  using assms by (cases "ie_received e") (auto simp: worker_panicked_def receive_result_def)

lemma acquire_timed_facts:
  assumes "acquire_timed is_io request options once start e = Some (r, evs)" and "ao_lock_timeout options \<noteq> None"
  shows "(\<not> worker_panicked options e \<longrightarrow> pending_after is_io False evs = got_guard r) \<and>
    (worker_panicked options e \<longrightarrow> \<not> got_guard r) \<and>
    (r = Inr (Some g) \<longrightarrow> guard_fresh request options g \<and> \<not> lease_inactive (ie_final_now e) g \<and>
      acquired_lease (effective_ttl options) (attempts_sent (ie_attempts e) evs) (handover options e) (g_lease g)) \<and>
    (r = Inr None \<longrightarrow> once)"
proof -
  obtain result evs1 where loop: "acquire_loop is_io request options once start (ie_attempts e) = Some (result, evs1)"
    using assms(1) by (auto simp: acquire_timed_def split: option.splits)
  obtain r1 evs2 accepted where recv:
    "receive_result options start (ie_caller e) (received_map result (ie_received e)) = (r1, evs2, accepted)"
    by (cases "receive_result options start (ie_caller e) (received_map result (ie_received e))") auto
  show ?thesis
  proof (cases "worker_panicked options e")
    case True
    with assms(1) loop recv have "r = r1" by (simp add: acquire_timed_def)
    with panicked_result [OF True recv] True show ?thesis by (auto simp: got_guard_def)
  next
    case False
    then have m: "ie_received e \<noteq> Recv_Disconnected" using assms(2) by (simp add: worker_panicked_def)
    have r: "r = fst (last_check e r1)"
      "evs = evs1 @ (evs2 @ worker_finish (ie_received e = Got ()) accepted (ie_unclaimed e) (ie_cleanup e)
         request result) @ snd (last_check e r1)"
      using assms(1) False loop recv by (auto simp: acquire_timed_def)
    note fresh = acquire_loop_facts(2) [OF loop, THEN conjunct1]
    note fin = receive_finish_facts [OF fresh m recv]
    have fresh1: "guard_fresh request options g" if "r1 = Inr (Some g)" for g
      using fin(2) [OF _ that] fresh by auto
    have "pending_after is_io False evs = got_guard r"
      using fin(1) acquire_loop_facts(1) [OF loop] last_check_facts(1) [OF refl fresh1] by (simp add: r)
    moreover have "guard_fresh request options g \<and> \<not> lease_inactive (ie_final_now e) g \<and>
        acquired_lease (effective_ttl options) (attempts_sent (ie_attempts e) evs) (handover options e) (g_lease g)"
      if got: "r = Inr (Some g)" for g
    proof -
      obtain h where h: "r1 = Inr (Some h)" "g = guard_after (ie_renewals e) h" "\<not> lease_inactive (ie_final_now e) g"
        using last_check_facts(2) [OF refl fresh1 got [unfolded r(1)]] by blast
      then obtain h' where h': "result = Inr (Some h')" "h = guard_after (ce_renewals (ie_caller e)) h'"
        using fin(2) by blast
      have "acquired_lease (effective_ttl options) (attempts_sent (ie_attempts e) evs) [] (g_lease h')"
        using acquire_loop_facts(2) [OF loop h'(1)] by (simp add: r receive_sends_no_acquire [OF recv])
      from acquired_lease_more [OF acquired_lease_more [OF this]] fresh1 h h' assms(2) show ?thesis
        by (auto simp: handover_def)
    qed
    moreover have "once" if "r = Inr None"
      using last_check_facts(3) [OF refl fresh1, of r1 e] that fin(3) acquire_loop_facts(3) [OF loop] by (simp add: r)
    ultimately show ?thesis using False by blast
  qed
qed

lemma acquire_internal_facts:
  assumes "acquire_internal is_io uuid target options once start e = Some (r, evs)"
  shows "(\<not> worker_panicked options e \<longrightarrow> pending_after is_io False evs = got_guard r) \<and>
    (worker_panicked options e \<longrightarrow> \<not> got_guard r) \<and>
    (r = Inr (Some g) \<longrightarrow> guard_fresh \<lparr>lr_target = target, lr_uuid = uuid\<rparr> options g \<and>
      \<not> lease_inactive (ie_final_now e) g \<and>
      acquired_lease (effective_ttl options) (attempts_sent (ie_attempts e) evs) (handover options e) (g_lease g)) \<and>
    (r = Inr None \<longrightarrow> once)"
proof -
  let ?request = "\<lparr>lr_target = target, lr_uuid = uuid\<rparr>"
  consider error where "r = Inl error" "evs = []"
    | "acquire_timed is_io ?request options once start e = Some (r, evs)" "ao_lock_timeout options \<noteq> None"
    | r1 evs1 where "acquire_loop is_io ?request options once start (ie_attempts e) = Some (r1, evs1)"
      "r = fst (last_check e r1)" "evs = evs1 @ snd (last_check e r1)" "ao_lock_timeout options = None"
    using assms
    by (auto simp: acquire_internal_def Let_def split: if_splits sum.splits option.splits)
  then show ?thesis
  proof cases
    case 1
    then show ?thesis by (simp add: got_guard_def)
  next
    case 2
    then show ?thesis by (rule acquire_timed_facts)
  next
    case (3 r1 evs1)
    note fresh = acquire_loop_facts(2) [OF 3(1), THEN conjunct1]
    have "pending_after is_io False evs = got_guard r"
      using acquire_loop_facts(1) [OF 3(1)] last_check_facts(1) [OF refl fresh] by (simp add: 3)
    moreover have "guard_fresh ?request options g \<and> \<not> lease_inactive (ie_final_now e) g \<and>
        acquired_lease (effective_ttl options) (attempts_sent (ie_attempts e) evs) (handover options e) (g_lease g)"
      if got: "r = Inr (Some g)" for g
    proof -
      obtain h where h: "r1 = Inr (Some h)" "g = guard_after (ie_renewals e) h" "\<not> lease_inactive (ie_final_now e) g"
        using last_check_facts(2) [OF refl fresh got [unfolded 3(2)]] by blast
      have "acquired_lease (effective_ttl options) (attempts_sent (ie_attempts e) evs) [] (g_lease h)"
        using acquire_loop_facts(2) [OF 3(1) h(1)] by (simp add: 3)
      from acquired_lease_more [OF this] fresh h 3(4) show ?thesis by (auto simp: handover_def)
    qed
    moreover have "once" if "r = Inr None"
      using last_check_facts(3) [OF refl fresh, of r1 e] that acquire_loop_facts(3) [OF 3(1)] by (simp add: 3)
    moreover have "\<not> worker_panicked options e" using 3(4) by (simp add: worker_panicked_def)
    ultimately show ?thesis by blast
  qed
qed

subsection \<open>The loop ends\<close>

text \<open>
  The passes of a loop whose clock does not run backwards and whose waits last as long as asked, or
  end because the acquisition was canceled or the manager shut down.
\<close>

fun waits_served :: "acquire_options \<Rightarrow> instant \<Rightarrow> attempt_env list \<Rightarrow> bool" where
  "waits_served options start (e # e' # es) =
     (at_now1 e \<le> at_now4 e \<and>
      (at_now4 e + retry_wait options start (at_now4 e) \<le> at_now1 e' \<or> at_canceled1 e' \<or> at_shutdown1 e') \<and>
      waits_served options start (e' # es))"
| "waits_served options start es = True"

definition loop_ends :: "(string \<Rightarrow> bool) \<Rightarrow> lock_request \<Rightarrow> acquire_options \<Rightarrow> bool \<Rightarrow> instant \<Rightarrow>
    attempt_env list \<Rightarrow> bool" where
  "loop_ends is_io request options once start es \<longleftrightarrow>
     acquire_loop is_io request options once start es \<noteq> None"

text \<open>A pass ends the loop, or the loop goes on with the next pass.\<close>

lemma loop_ends_step:
  "loop_ends is_io request options once start (e # es) \<or>
   loop_ends is_io request options once start (e # es) = loop_ends is_io request options once start es"
  by (auto simp: loop_ends_def split: sum.splits)

lemma loop_ends_at_once:
  "timed_out options start (at_now1 e) \<or> at_canceled1 e \<or> at_shutdown1 e \<Longrightarrow>
     loop_ends is_io request options once start (e # es)"
  by (auto simp: loop_ends_def)

lemma retry_wait_full:
  assumes "ao_lock_timeout options = Some timeout" and "start \<le> now"
    and "now + retry_wait options start now < start + timeout"
  shows "retry_wait options start now = ao_retry_interval options"
proof (rule ccontr)
  assume "retry_wait options start now \<noteq> ao_retry_interval options"
  then have "retry_wait options start now = timeout - (now - start)"
    by (auto simp: retry_wait_def assms(1) elapsed_def min_def split: if_splits)
  with assms(2,3) show False by simp
qed

lemma acquire_loop_ends:
  assumes "ao_lock_timeout options = Some timeout" and "waits_served options start es"
    and "start \<le> at_now1 (hd es)"
    and "start + timeout \<le> at_now1 (hd es) + n * ao_retry_interval options" and "n < length es"
  shows "loop_ends is_io request options once start es"
  using assms(2-)
proof (induction n arbitrary: es)
  case 0
  then obtain e es' where es: "es = e # es'" by (cases es) auto
  with 0 have "timed_out options start (at_now1 e)" by (simp add: timed_out_def assms(1) elapsed_def)
  then show ?case unfolding es by (intro loop_ends_at_once) simp
next
  case (Suc n)
  then obtain e e' es' where es: "es = e # e' # es'" by (cases es; cases "tl es") auto
  have "loop_ends is_io request options once start (e' # es')"
  proof (cases "at_canceled1 e' \<or> at_shutdown1 e' \<or> timed_out options start (at_now1 e')")
    case True
    then show ?thesis by (intro loop_ends_at_once) auto
  next
    case False
    then have "at_now1 e' < start + timeout" "at_now4 e + retry_wait options start (at_now4 e) \<le> at_now1 e'"
      "at_now1 e \<le> at_now4 e" "waits_served options start (e' # es')"
      using Suc.prems by (auto simp: es timed_out_def assms(1) elapsed_def)
    moreover have "start \<le> at_now1 e" using Suc.prems(2) by (simp add: es)
    moreover have "retry_wait options start (at_now4 e) = ao_retry_interval options"
      using calculation by (intro retry_wait_full [OF assms(1)]) auto
    ultimately show ?thesis
      using Suc.prems by (intro Suc.IH) (auto simp: es)
  qed
  with loop_ends_step show ?case unfolding es by blast
qed

text \<open>A single attempt.\<close>

lemma acquire_loop_once:
  "acquire_loop is_io request options True start es = Some (r, evs) \<Longrightarrow>
     length (filter is_acquire evs) \<le> 1"
  by (cases es) (auto simp: more_events_def acquired_outcome_sends_no_acquire split: if_splits sum.splits)

lemma acquire_timed_once:
  assumes "acquire_timed is_io request options True start e = Some (r, evs)"
  shows "length (filter is_acquire evs) \<le> 1"
proof -
  obtain result evs1 where loop: "acquire_loop is_io request options True start (ie_attempts e) = Some (result, evs1)"
    using assms by (auto simp: acquire_timed_def split: option.splits)
  from acquire_loop_once [OF this] until_end_acquires [of "ie_worker e" request evs1] loop assms show ?thesis
    by (auto simp: acquire_timed_def receive_sends_no_acquire split: prod.splits if_splits)
qed

lemma acquire_internal_once:
  "acquire_internal is_io uuid target options True start e = Some (r, evs) \<Longrightarrow>
     length (filter is_acquire evs) \<le> 1"
  using acquire_timed_once [of is_io "\<lparr>lr_target = target, lr_uuid = uuid\<rparr>" options start e r evs]
    acquire_loop_once [of is_io "\<lparr>lr_target = target, lr_uuid = uuid\<rparr>" options start "ie_attempts e"]
  by (auto simp: acquire_internal_def Let_def split: if_splits sum.splits option.splits)

subsection \<open>Properties\<close>

text \<open>
  C5: An acquisition never leaks a lock, whichever error, timeout, cancellation, shutdown or race with
  the worker thread it meets. After everything that both threads send, a lock of the request can be in Redis for
  which no release was confirmed or queued, if the caller got a guard for it; otherwise only if a release
  failed or found the queue full or closed, or the worker panicked, and then the lock is over after its TTL (C7).
  A command whose reply was lost in an I/O error counts as applied.
\<close>

theorem sync_acquire_leaks_nothing:
  assumes "acquire_internal is_io uuid target options once start e = Some (r, evs)"
  shows "(got_guard r \<longrightarrow> held_after is_io False evs) \<and>
    (held_after is_io False evs \<longrightarrow>
      got_guard r \<or> list_ex release_failed evs \<or> worker_panicked options e)"
  using acquire_internal_facts [OF assms] held_iff_pending [of is_io evs "got_guard r"] by blast

text \<open>
  C18: A guard that an acquisition returns is for the requested lock, is not released, will give the
  lock back when it is dropped, has a renewal thread exactly if a renewal interval is in effect, and its
  lease is active at the last check. The last acquisition that was sent is the one that Redis answered
  with success; the lease starts at the instant read before it with the full TTL, and only the renewal
  thread has touched it since. A single attempt sends at most one
  acquisition, and only a single attempt reports that the lock is taken: the \<open>expect\<close> calls of the
  blocking operations cannot panic.
\<close>

theorem sync_acquired_guard:
  "acquire_internal is_io uuid target options once start e = Some (r, evs) \<Longrightarrow>
     (r = Inr (Some g) \<longrightarrow> guard_fresh \<lparr>lr_target = target, lr_uuid = uuid\<rparr> options g \<and>
       \<not> lease_inactive (ie_final_now e) g \<and>
       acquired_lease (effective_ttl options) (attempts_sent (ie_attempts e) evs) (handover options e) (g_lease g)) \<and>
     (once \<longrightarrow> length (filter is_acquire evs) \<le> 1) \<and> (r = Inr None \<longrightarrow> once)"
  using acquire_internal_facts [of is_io uuid target options once start e r evs g]
    acquire_internal_once [of is_io uuid target options start e r evs] by (cases once) simp_all

text \<open>
  C28: With a lock timeout an acquisition returns: if the clock does not run backwards and the waits last
  as asked (or are cut short by a cancellation or the shutdown), \<open>n + 1\<close> passes are enough when \<open>n\<close>
  retry intervals fill the timeout. Nothing is sent for a timeout of zero.
\<close>

theorem sync_acquire_ends:
  assumes "ao_lock_timeout options = Some timeout"
    and "waits_served options start (ie_attempts e)" and "start \<le> at_now1 (hd (ie_attempts e))"
    and "timeout \<le> n * ao_retry_interval options" and "n < length (ie_attempts e)"
  shows "\<exists>r evs. acquire_internal is_io uuid target options once start e = Some (r, evs) \<and>
    (timeout = 0 \<longrightarrow> r = Inl LockTimeout \<and> evs = [])"
proof -
  have "acquire_timed is_io request options once start e \<noteq> None" for request
  proof -
    have "loop_ends is_io request options once start (ie_attempts e)"
      using assms by (intro acquire_loop_ends [where n = n]) auto
    then obtain r evs where "acquire_loop is_io request options once start (ie_attempts e) = Some (r, evs)"
      by (auto simp: loop_ends_def)
    then show ?thesis by (simp add: acquire_timed_def split: prod.splits)
  qed
  then show ?thesis
    using assms(1) by (auto simp: acquire_internal_def Let_def split: sum.splits)
qed

subsection \<open>Examples\<close>

definition example_options :: acquire_options where
  "example_options =
     \<lparr>ao_retry_interval = from_millis 100, ao_lock_timeout = Some (from_millis 200),
      ao_ttl = from_millis 30000, ao_renew_interval = Some (Some (from_millis 1000))\<rparr>"

text \<open>A pass that starts at \<open>now\<close> and whose command is answered with \<open>reply\<close>.\<close>

definition example_attempt :: "instant \<Rightarrow> (string, bool) result \<Rightarrow> attempt_env" where
  "example_attempt now reply =
     \<lparr>at_canceled1 = False, at_now1 = now, at_shutdown1 = False, at_attempt = now + 1,
      at_checkout = Inr (), at_reply = reply, at_shutdown2 = False, at_canceled2 = False,
      at_now2 = now + 2, at_lease_now = now + 3, at_spawned = Inr (), at_release = Inr True,
      at_queued = Inr (), at_shutdown3 = False,
      at_now3 = now + 3, at_now4 = now + 4\<rparr>"

definition example_internal :: "attempt_env list \<Rightarrow> internal_env" where
  "example_internal attempts =
     \<lparr>ie_admitted = Inr (), ie_worker_spawned = Inr (), ie_attempts = attempts, ie_received = Got (),
      ie_caller = \<lparr>ce_now = from_millis 150, ce_shutdown = False, ce_renewals = [], ce_lease_now = from_millis 150 + 1,
        ce_queued = Inr ()\<rparr>,
      ie_worker = Ran_To_End, ie_unclaimed = Inr (), ie_cleanup = Inr True,
      ie_renewals = [], ie_final_now = from_millis 150 + 2, ie_queued = Inr ()\<rparr>"

lemmas example_defs =
  example_options_def example_attempt_def example_internal_def acquire_internal_def acquire_timed_def
  worker_panicked_def receive_result_def last_check_def final_check_def worker_finish_def acquired_outcome_def late_failure_def
  guard_new_def timed_out_def retry_wait_def lease_inactive_def guard_after_def lease_new_def more_events_def
  effective_ttl_def effective_renew_interval_def as_u64_def from_millis_def nanos_per_milli_def
  as_millis_def lease_simps

text \<open>The lock is taken at first and free after one retry interval.\<close>

definition example_guard :: guard_data where
  "example_guard =
     \<lparr>g_request = \<lparr>lr_target = Single ''job'', lr_uuid = ''u''\<rparr>, g_release_tx = True,
      g_is_released = False, g_lease = lease_new (from_millis 110 + 1) (from_millis 30000),
      g_stop_tx = True\<rparr>"

definition example_events :: "guard_event list" where
  "example_events =
     [Sent_Acquire (g_request example_guard) (Inr False), Waited (from_millis 100),
      Sent_Acquire (g_request example_guard) (Inr True), Spawn_Renewal (g_request example_guard)]"

lemma example_acquire:
  "acquire_internal (\<lambda>_. True) ''u'' (Single ''job'') example_options False 0
     (example_internal [example_attempt 0 (Inr False), example_attempt (from_millis 110) (Inr True)]) =
   Some (Inr (Some example_guard), example_events)"
  by (simp add: example_defs example_guard_def example_events_def)

text \<open>An acquisition with a guard; and one whose command got no reply while the queue was full.\<close>

theorem sync_acquire_leaks_nothing_witness:
  "held_after (\<lambda>_. True) False example_events \<and>
   list_ex release_failed
     [Sent_Acquire (g_request example_guard) (Inl ''reset''), Queue_Release (g_request example_guard) (Inl Queue_Full)]"
proof
  show "held_after (\<lambda>_. True) False example_events"
    using sync_acquire_leaks_nothing [OF example_acquire] by (simp add: got_guard_def)
  let ?e = "example_internal [(example_attempt 0 (Inl ''reset''))\<lparr>at_queued := Inl Queue_Full\<rparr>]"
  have "acquire_internal (\<lambda>_. True) ''u'' (Single ''job'') example_options False 0 ?e =
    Some (Inl (acquire_error_from ''reset''),
      [Sent_Acquire (g_request example_guard) (Inl ''reset''), Queue_Release (g_request example_guard) (Inl Queue_Full)])"
    by (simp add: example_defs example_guard_def)
  from sync_acquire_leaks_nothing [OF this] show "list_ex release_failed
     [Sent_Acquire (g_request example_guard) (Inl ''reset''), Queue_Release (g_request example_guard) (Inl Queue_Full)]"
    by (auto simp: got_guard_def example_defs)
qed

theorem sync_acquired_guard_witness:
  "guard_fresh (g_request example_guard) example_options example_guard"
  using sync_acquired_guard [OF example_acquire] by (simp add: example_guard_def)

definition example_taken :: "attempt_env list" where
  "example_taken =
     [example_attempt 0 (Inr False), example_attempt (from_millis 110) (Inr False),
      example_attempt (from_millis 220) (Inr False)]"

theorem sync_acquire_ends_witness:
  "\<exists>r evs. acquire_internal (\<lambda>_. True) ''u'' (Single ''job'') example_options False 0
     (example_internal example_taken) = Some (r, evs)"
proof -
  have "waits_served example_options 0 (ie_attempts (example_internal example_taken))"
    by (simp add: example_defs example_taken_def)
  moreover have "ao_lock_timeout example_options = Some (from_millis 200)"
    "0 \<le> at_now1 (hd (ie_attempts (example_internal example_taken)))"
    "from_millis 200 \<le> 2 * ao_retry_interval example_options"
    "2 < length (ie_attempts (example_internal example_taken))"
    by (simp_all add: example_defs example_taken_def)
  ultimately show ?thesis using sync_acquire_ends by blast
qed

end
