(* ===== verification/Sync_Renewal.thy ===== *)
theory Sync_Renewal
  imports Sync_Guard
begin

text \<open>
  The renewal thread that \<open>GuardData::new\<close> of \<open>src/sync_lock/guard.rs\<close> spawns: it sleeps on the stop
  channel until the next renewal is due, but never past the end of the lease, and then renews. The loop
  runs over the list of its passes; an exhausted list means that it is still running. Then what calls
  of \<open>release\<close> and the drop of a guard send.
\<close>

subsection \<open>The loop\<close>

text \<open>
  The readings before the renewal of a pass: the clock in \<open>wait_start.elapsed()\<close> and in
  \<open>lease.remaining()\<close>, what the other threads do to the lease during the sleep, and whether the sleep
  ends with a message or the end of the stop channel.
\<close>

record sync_renew_pass = renew_pass +
  rp_wait_now :: instant
  rp_sleep_now1 :: instant
  rp_sleep_now2 :: instant
  rp_waiting :: "lease_op list"
  rp_stop :: bool

definition sync_sleep :: "instant \<Rightarrow> duration \<Rightarrow> sync_renew_pass \<Rightarrow> lease \<Rightarrow> duration" where
  "sync_sleep wait_start wait e l =
     min (wait - elapsed (rp_wait_now e) wait_start)
         (fst (lease_remaining (rp_sleep_now1 e) (rp_sleep_now2 e) l))"

definition sync_slept :: "sync_renew_pass \<Rightarrow> lease \<Rightarrow> lease" where
  "sync_slept e l =
     lease_run (rp_waiting e) (snd (lease_remaining (rp_sleep_now1 e) (rp_sleep_now2 e) l))"

fun sync_renewal :: "lock_request \<Rightarrow> duration \<Rightarrow> duration \<Rightarrow> duration \<Rightarrow> instant \<Rightarrow> duration \<Rightarrow>
    sync_renew_pass list \<Rightarrow> lease \<Rightarrow> renewal_end option \<times> lease \<times> guard_event list" where
  "sync_renewal request interval retry_interval ttl wait_start wait [] l = (None, l, [])"
| "sync_renewal request interval retry_interval ttl wait_start wait (e # es) l =
     (let sleep = Waited (sync_sleep wait_start wait e l); l1 = sync_slept e l in
      if rp_stop e then (Some Stop_Signal, l1, [sleep])
      else
        (case renew_once request interval retry_interval ttl e l1 of
           (Inl end_reason, l2, evs) \<Rightarrow> (Some end_reason, l2, sleep # evs)
         | (Inr (wait_start', wait'), l2, evs) \<Rightarrow>
             (case sync_renewal request interval retry_interval ttl wait_start' wait' es l2 of
                (r, l3, evs') \<Rightarrow> (r, l3, sleep # evs @ evs'))))"

text \<open>The thread of a guard whose lock was acquired by a command sent at \<open>start\<close>.\<close>

definition sync_renewal_thread :: "lock_request \<Rightarrow> acquire_options \<Rightarrow> instant \<Rightarrow> duration \<Rightarrow>
    sync_renew_pass list \<Rightarrow> lease \<Rightarrow> renewal_end option \<times> lease \<times> guard_event list" where
  "sync_renewal_thread request options start interval es l =
     sync_renewal request interval (ao_retry_interval options) (effective_ttl options) start interval es l"

subsection \<open>What the thread does to the lease\<close>

text \<open>The other threads only read the lease, lose it or release it.\<close>

definition no_other_renewals :: "sync_renew_pass list \<Rightarrow> bool" where
  "no_other_renewals es \<longleftrightarrow> list_all (\<lambda>e. \<not> list_ex is_renew (rp_during e) \<and> \<not> list_ex is_renew (rp_waiting e)) es"

lemma sync_slept_period:
  "\<not> list_ex is_renew (rp_waiting e) \<Longrightarrow>
     l_start (sync_slept e l) = l_start l \<and> l_ttl (sync_slept e l) = l_ttl l"
  by (simp add: sync_slept_def lease_run_period)

lemma sync_slept_monotone: "l_state l \<le> l_state (sync_slept e l)"
  unfolding sync_slept_def by (rule order_trans [OF lease_monotone(3) lease_run_monotone])

text \<open>The ways a pass of the loop can go.\<close>

lemma sync_renewal_cases:
  assumes "sync_renewal request interval retry_interval ttl wait_start wait (e # es) l = (r, l', evs)"
  obtains
    (stopped) "rp_stop e" "r = Some Stop_Signal" "l' = sync_slept e l"
      "evs = [Waited (sync_sleep wait_start wait e l)]"
  | (ended) end_reason evs1 where "\<not> rp_stop e" "r = Some end_reason"
      "renew_once request interval retry_interval ttl e (sync_slept e l) = (Inl end_reason, l', evs1)"
      "evs = Waited (sync_sleep wait_start wait e l) # evs1"
  | (goes_on) wait_start' wait' l1 evs1 evs2 where "\<not> rp_stop e"
      "renew_once request interval retry_interval ttl e (sync_slept e l) = (Inr (wait_start', wait'), l1, evs1)"
      "sync_renewal request interval retry_interval ttl wait_start' wait' es l1 = (r, l', evs2)"
      "evs = Waited (sync_sleep wait_start wait e l) # evs1 @ evs2"
proof (cases "rp_stop e")
  case True
  with assms stopped show ?thesis by (simp add: Let_def)
next
  case False
  obtain r1 l1 evs1 where once: "renew_once request interval retry_interval ttl e (sync_slept e l) = (r1, l1, evs1)"
    by (metis prod_cases3)
  show ?thesis
  proof (cases r1)
    case (Inl end_reason)
    with assms False once ended show ?thesis by (auto simp: Let_def)
  next
    case (Inr w)
    obtain wait_start' wait' where w: "w = (wait_start', wait')" by (cases w)
    obtain r2 l2 evs2 where rest: "sync_renewal request interval retry_interval ttl wait_start' wait' es l1 = (r2, l2, evs2)"
      by (metis prod_cases3)
    with assms False once Inr w have "r2 = r" "l2 = l'"
      "evs = Waited (sync_sleep wait_start wait e l) # evs1 @ evs2"
      by (simp_all add: Let_def)
    with goes_on [OF False] once rest Inr w show ?thesis by simp
  qed
qed

lemma renewals_sent_waited [simp]: "renewals_sent es (Waited d # evs) = renewals_sent es evs"
  by (simp add: renewals_sent_def)

lemma sync_renewal_period:
  assumes "sync_renewal request interval retry_interval ttl wait_start wait es l = (r, l', evs)"
    and "no_other_renewals es"
  shows "honest_period ttl (renewals_sent es evs) l l'"
  using assms
proof (induction es arbitrary: wait_start wait l evs)
  case Nil
  then show ?case by (simp add: honest_period_def)
next
  case (Cons e es)
  have others: "\<not> list_ex is_renew (rp_during e)" "\<not> list_ex is_renew (rp_waiting e)" "no_other_renewals es"
    using Cons.prems(2) by (simp_all add: no_other_renewals_def)
  note slept = sync_slept_period [OF others(2), of l]
  from Cons.prems(1) show ?case
  proof (cases rule: sync_renewal_cases)
    case stopped
    with slept show ?thesis by (simp add: honest_period_same)
  next
    case (ended end_reason evs1)
    from honest_period_from [OF renew_once_period [OF ended(3) others(1)] slept] show ?thesis
      by (simp add: ended(4))
  next
    case (goes_on wait_start' wait' l1 evs1 evs2)
    note sent = renew_once_goes_on [OF goes_on(2)]
    from honest_period_from [OF honest_period_trans [OF renew_once_period [OF goes_on(2) others(1)]
        Cons.IH [OF goes_on(3) others(3)]] slept]
    show ?thesis by (simp add: goes_on(4) sent)
  qed
qed

text \<open>The loop gives up only an inactive lease.\<close>

lemma sync_renewal_end:
  assumes "sync_renewal request interval retry_interval ttl wait_start wait es l = (Some end_reason, l', evs)"
  shows "end_reason = Stop_Signal \<or> l_state l' \<noteq> Active"
  using assms
proof (induction es arbitrary: wait_start wait l evs)
  case (Cons e es)
  from Cons.prems show ?case
    by (cases rule: sync_renewal_cases) (auto dest: renew_once_end Cons.IH)
qed simp

lemma sync_renewal_monotone:
  "sync_renewal request interval retry_interval ttl wait_start wait es l = (r, l', evs) \<Longrightarrow>
     l_state l \<le> l_state l'"
proof (induction es arbitrary: wait_start wait l evs)
  case (Cons e es)
  note slept = sync_slept_monotone [of l e]
  from Cons.prems show ?case
  proof (cases rule: sync_renewal_cases)
    case (ended end_reason evs1)
    with slept renew_once_monotone show ?thesis by (blast intro: order_trans)
  next
    case (goes_on wait_start' wait' l1 evs1 evs2)
    with slept renew_once_monotone Cons.IH show ?thesis by (blast intro: order_trans)
  qed (use slept in simp)
qed simp

text \<open>An inactive lease is never renewed.\<close>

lemma sync_renewal_silent:
  assumes "l_state l \<noteq> Active"
    and "sync_renewal request interval retry_interval ttl wait_start wait (e # es) l = (r, l', evs)"
  shows "r \<noteq> None" and "evs = [Waited 0]"
proof -
  have inactive: "l_state (sync_slept e l) \<noteq> Active"
    using sync_slept_monotone [of l e] assms(1) by (cases "l_state l") auto
  have sleep: "sync_sleep wait_start wait e l = 0"
    using assms(1) by (simp add: sync_sleep_def lease_remaining_def lease_refresh_inactive Let_def)
  show "r \<noteq> None" "evs = [Waited 0]"
    using assms(2) inactive sleep
    by (auto simp: Let_def renew_once_def lease_get_state_def lease_refresh_inactive split: if_splits)
qed

subsection \<open>A punctual thread keeps the lock\<close>

text \<open>
  \<open>punctual lag interval ttl start es\<close>: nobody stops the thread or touches the lease except by reading
  it, and at most \<open>lag\<close> passes between an attempt and the next sleep, between the end of a sleep and the
  check of the lease, and between this check and the update of the lease after the reply.
\<close>

fun punctual :: "duration \<Rightarrow> duration \<Rightarrow> duration \<Rightarrow> instant \<Rightarrow> sync_renew_pass list \<Rightarrow> bool" where
  "punctual lag interval ttl start [] = True"
| "punctual lag interval ttl start (e # es) =
     (\<not> rp_stop e \<and>
      start \<le> rp_wait_now e \<and> rp_wait_now e \<le> rp_sleep_now1 e \<and> rp_sleep_now1 e \<le> rp_sleep_now2 e \<and>
      rp_sleep_now2 e \<le> start + lag \<and>
      rp_state_now e \<le> rp_sleep_now2 e + sync_sleep start interval e (lease_new start ttl) + lag \<and>
      list_all (reads_until (rp_state_now e)) (rp_waiting e) \<and> prompt lag e \<and>
      punctual lag interval ttl (rp_attempt e) es)"

lemma punctual_paced: "punctual lag interval ttl start es \<Longrightarrow> paced lag interval start es"
proof (induction es arbitrary: start)
  case (Cons e es)
  have "sync_sleep start interval e (lease_new start ttl) \<le> interval" by (simp add: sync_sleep_def)
  with Cons show ?case by auto
qed simp

lemma punctual_slept:
  assumes "runs_from start ttl l" and "punctual lag interval ttl start (e # es)" and "interval + 3 * lag < ttl"
  shows "sync_slept e l = l"
proof -
  have "rp_state_now e < start + ttl" "rp_sleep_now1 e < start + ttl"
    using punctual_paced [OF assms(2)] assms(2,3) by auto
  with runs_from_reads [OF assms(1)] runs_from_refresh [OF assms(1)] assms(2) show ?thesis
    by (simp add: sync_slept_def lease_remaining_def Let_def)
qed

lemma sync_renewal_keeps:
  assumes "runs_from start ttl l" and "punctual lag interval ttl start es" and "interval + 3 * lag < ttl"
    and "list_all (\<lambda>e. rp_reply e = Inr True) es"
  shows "\<exists>l' evs. sync_renewal request interval retry_interval ttl start interval es l = (None, l', evs) \<and>
    runs_from (last (start # List.map rp_attempt es)) ttl l'"
  using assms(1,2,4)
proof (induction es arbitrary: start l)
  case (Cons e es)
  have pace: "prompt lag e" "rp_state_now e + lag < start + ttl"
    using punctual_paced [OF Cons.prems(2)] assms(3) by auto
  have slept: "sync_slept e l = l" using punctual_slept [OF Cons.prems(1,2) assms(3)] .
  have reply: "rp_reply e = Inr True" "lag < ttl" using Cons.prems(3) assms(3) by simp_all
  obtain l1 where once: "renew_once request interval retry_interval ttl e l =
      (Inr (rp_attempt e, interval), l1, [Sent_Renew request (Inr True)])" "runs_from (rp_attempt e) ttl l1"
    using prompt_renew_once [OF Cons.prems(1) pace reply] by blast
  from Cons.IH [OF this(2)] Cons.prems(2,3) once(1) slept show ?case by auto
qed simp

subsection \<open>Releasing and dropping a guard\<close>

text \<open>The calls of \<open>release\<close> on a guard, one per reply, and then its drop, with the result of its \<open>try_send\<close>.\<close>

fun release_calls :: "(string, bool) result list \<Rightarrow> (send_error, unit) result \<Rightarrow> guard_data \<Rightarrow> guard_data \<times> guard_event list" where
  "release_calls [] queued g = guard_drop queued g"
| "release_calls (reply # replies) queued g =
     (case guard_release reply g of (r, g', evs) \<Rightarrow>
        (case release_calls replies queued g' of (g'', evs') \<Rightarrow> (g'', evs @ evs')))"

text \<open>The calls up to the first one that succeeds.\<close>

definition calls_sent :: "(string, bool) result list \<Rightarrow> (string, bool) result list" where
  "calls_sent replies = upto_first (\<lambda>reply. \<not> isl reply) replies"

lemma release_calls_released:
  "g_is_released g \<Longrightarrow> \<not> g_release_tx g \<Longrightarrow> snd (release_calls replies queued g) = [] \<and>
     l_state (g_lease (fst (release_calls replies queued g))) = Released"
  by (induction replies arbitrary: g)
    (auto simp: guard_release_def guard_drop_def lease_simps split: prod.splits)

lemma release_calls_sends:
  "\<not> g_is_released g \<Longrightarrow> g_release_tx g \<Longrightarrow>
     snd (release_calls replies queued g) =
       List.map (Sent_Release (g_request g)) (calls_sent replies) @
       (if list_all isl replies then [Queue_Release (g_request g) queued] else []) \<and>
     l_state (g_lease (fst (release_calls replies queued g))) = Released"
proof (induction replies arbitrary: g)
  case Nil
  then show ?case by (simp add: guard_drop_def calls_sent_def lease_simps)
next
  case (Cons reply replies)
  show ?case
  proof (cases reply)
    case (Inl e)
    let ?g = "g\<lparr>g_lease := lease_lose (g_lease g), g_stop_tx := False\<rparr>"
    have "release_calls (reply # replies) queued g =
        (fst (release_calls replies queued ?g), Sent_Release (g_request g) reply # snd (release_calls replies queued ?g))"
      using Cons.prems Inl by (simp add: guard_release_def Let_def split: prod.splits)
    with Cons.IH [of ?g] Cons.prems Inl show ?thesis by (simp add: calls_sent_def)
  next
    case (Inr b)
    let ?g = "g\<lparr>g_stop_tx := False, g_is_released := True,
      g_lease := lease_release (lease_lose (g_lease g)), g_release_tx := False\<rparr>"
    have "release_calls (reply # replies) queued g =
        (fst (release_calls replies queued ?g), Sent_Release (g_request g) reply # snd (release_calls replies queued ?g))"
      using Cons.prems Inr by (simp add: guard_release_def Let_def split: prod.splits)
    with release_calls_released [of ?g replies queued] Inr show ?thesis by (auto simp: calls_sent_def)
  qed
qed

subsection \<open>Properties\<close>

text \<open>
  C14: The renewal thread never claims more time than Redis granted, through any replies, errors, late
  wake-ups and interference: the lease keeps its period, or has the full TTL from the instant before a
  renewal was sent that Redis confirmed. Its state only moves on, the thread gives up only an inactive
  lease, and once the lease is inactive the thread ends without a further command.
\<close>

theorem sync_renewal_honest:
  assumes "sync_renewal_thread request options start interval es l = (r, l', evs)"
    and "no_other_renewals es"
  shows "honest_period (effective_ttl options) (renewals_sent es evs) l l' \<and> l_state l \<le> l_state l' \<and>
    (\<forall>end_reason. r = Some end_reason \<longrightarrow> end_reason = Stop_Signal \<or> l_state l' \<noteq> Active) \<and>
    (es \<noteq> [] \<and> l_state l \<noteq> Active \<longrightarrow> r \<noteq> None \<and> evs = [Waited 0])"
proof -
  note run = assms(1) [unfolded sync_renewal_thread_def]
  have "r \<noteq> None \<and> evs = [Waited 0]" if "es \<noteq> []" "l_state l \<noteq> Active"
    using that run sync_renewal_silent [OF that(2)] by (cases es) auto
  then show ?thesis
    using sync_renewal_period [OF run assms(2)] sync_renewal_monotone [OF run] sync_renewal_end run by blast
qed

text \<open>
  C22: A guard gives its lock back exactly once. However many times \<open>release\<close> is called, it sends a
  release per call until the first that succeeds and nothing after it; the drop puts a release into the queue
  exactly if none succeeded (and if the queue takes it, \<open>queued\<close>). In the end the lease is released.
\<close>

theorem sync_guard_gives_back:
  assumes "guard_fresh request options g"
  shows "snd (release_calls replies queued g) =
      List.map (Sent_Release request) (calls_sent replies) @
      (if list_all isl replies then [Queue_Release request queued] else []) \<and>
    l_state (g_lease (fst (release_calls replies queued g))) = Released"
  using release_calls_sends [of g replies queued] assms by (auto simp: guard_fresh_def)

subsection \<open>Examples\<close>

text \<open>A pass with a renewal that is sent at \<open>t + 500\<close> and answered with \<open>reply\<close>.\<close>

definition example_pass :: "instant \<Rightarrow> (string, bool) result \<Rightarrow> sync_renew_pass" where
  "example_pass t reply =
     \<lparr>rp_state_now = t + 500, rp_attempt = t + 500, rp_reply = reply, rp_during = [Op_State (t + 501)],
      rp_renew_now1 = t + 501, rp_renew_now2 = t + 502, rp_error_now = t + 502, rp_left_now1 = t + 502,
      rp_left_now2 = t + 503, rp_wait_now = t + 1, rp_sleep_now1 = t + 1, rp_sleep_now2 = t + 1,
      rp_waiting = [], rp_stop = False\<rparr>"

definition example_renewed :: acquire_options where
  "example_renewed =
     \<lparr>ao_retry_interval = from_millis 100, ao_lock_timeout = None,
      ao_ttl = from_millis 1, ao_renew_interval = Some (Some 500)\<rparr>"

lemma example_renewed_ttl: "effective_ttl example_renewed = 1000000"
  by (simp add: effective_ttl_def example_renewed_def as_u64_def)
    (simp add: from_millis_def nanos_per_milli_def)

lemma example_renewal:
  "sync_renewal_thread (g_request example_guard) example_renewed 0 500
     [example_pass 0 (Inr True), example_pass 500 (Inr False)] (lease_new 0 1000000) =
   (Some Lease_Given_Up,
    \<lparr>l_state = Lost, l_start = 500, l_ttl = 1000000, l_changed = 2\<rparr>,
    [Waited 499, Sent_Renew (g_request example_guard) (Inr True),
     Waited 499, Sent_Renew (g_request example_guard) (Inr False)])"
  by (simp add: sync_renewal_thread_def example_renewed_ttl)
    (simp add: example_pass_def renew_once_def sync_slept_def sync_sleep_def lease_new_def lease_simps)

theorem sync_renewal_honest_witness:
  "honest_period 1000000 [(500, Inr True), (1000, Inr False)] (lease_new 0 1000000)
     \<lparr>l_state = Lost, l_start = 500, l_ttl = 1000000, l_changed = 2\<rparr>"
  using sync_renewal_honest [OF example_renewal]
  by (simp add: example_renewed_ttl no_other_renewals_def example_pass_def renewals_sent_def)

theorem sync_guard_gives_back_witness:
  "snd (release_calls [Inl ''timeout'', Inr True, Inr True] (Inr ()) example_guard) =
     [Sent_Release (g_request example_guard) (Inl ''timeout''), Sent_Release (g_request example_guard) (Inr True)] \<and>
   snd (release_calls [Inl ''timeout''] (Inl Queue_Full) example_guard) =
     [Sent_Release (g_request example_guard) (Inl ''timeout''), Queue_Release (g_request example_guard) (Inl Queue_Full)]"
proof -
  have "guard_fresh (g_request example_guard) example_options example_guard"
    by (simp add: guard_fresh_def example_guard_def example_defs)
  from sync_guard_gives_back [OF this, of "[Inl ''timeout'', Inr True, Inr True]" "Inr ()"]
    sync_guard_gives_back [OF this, of "[Inl ''timeout'']" "Inl Queue_Full"] show ?thesis
    by (simp del: release_calls.simps add: calls_sent_def)
qed

end
