(* ===== verification/Api_Calls.thy ===== *)
theory Api_Calls
  imports Guard_Events Errors Options Keys
begin

text \<open>
  What the public acquisition functions of both variants share: how a call ends, the two ways in which a
  function turns the result of \<open>acquire_internal\<close> into its own (\<open>expect\<close> for a blocking acquisition, \<open>map\<close>
  for a single attempt), and the contract of \<open>acquire_internal\<close> on which they rely, as a locale that both
  variants interpret.
\<close>

subsection \<open>How a call ends\<close>

text \<open>
  A call completes with a value, panics with a message, or is a future that its caller drops. Around it,
  \<open>None\<close> is a call that has not ended.
\<close>

datatype 'a call_end = Completes 'a | Panics string | Is_Dropped

type_synonym 'a call = "('a call_end \<times> guard_event list) option"

definition map_call :: "('a \<Rightarrow> 'b call_end) \<Rightarrow> 'a call \<Rightarrow> 'b call" where
  "map_call f =
     map_option (\<lambda>(r, evs). (case r of Completes a \<Rightarrow> f a | Panics m \<Rightarrow> Panics m | Is_Dropped \<Rightarrow> Is_Dropped, evs))"

text \<open>\<open>debug_assert_lock_keys\<close> at the start of \<open>acquire_internal\<close>.\<close>

definition assert_keys :: "bool \<Rightarrow> redis_key list \<Rightarrow> 'a call \<Rightarrow> 'a call" where
  "assert_keys debug keys body =
     (case debug_assert_lock_keys debug keys of Inl message \<Rightarrow> Some (Panics message, []) | Inr _ \<Rightarrow> body)"

text \<open>The \<open>?\<close>, the \<open>expect\<close> and the guard of a blocking acquisition.\<close>

definition expect_guard :: "('d \<Rightarrow> 'g) \<Rightarrow> (acquire_failure, 'd option) result call \<Rightarrow>
    (acquire_failure, 'g) result call" where
  "expect_guard guard =
     map_call (\<lambda>result.
       case result of
         Inl error \<Rightarrow> Completes (Inl error)
       | Inr None \<Rightarrow> Panics ''retrying acquisition returns a guard''
       | Inr (Some inner) \<Rightarrow> Completes (Inr (guard inner)))"

text \<open>The result of a single attempt.\<close>

definition maybe_guard :: "('d \<Rightarrow> 'g) \<Rightarrow> (acquire_failure, 'd option) result call \<Rightarrow>
    (acquire_failure, 'g option) result call" where
  "maybe_guard guard =
     map_call (\<lambda>result.
       case result of
         Inl error \<Rightarrow> Completes (Inl error)
       | Inr inner \<Rightarrow> Completes (Inr (map_option guard inner)))"

lemma map_call_cases:
  assumes "map_call f x = Some (r, evs)"
  obtains (completes) a where "x = Some (Completes a, evs)" "r = f a"
  | (panics) m where "x = Some (Panics m, evs)" "r = Panics m"
  | (dropped) "x = Some (Is_Dropped, evs)" "r = Is_Dropped"
proof -
  obtain r0 where "x = Some (r0, evs)"
    "r = (case r0 of Completes a \<Rightarrow> f a | Panics m \<Rightarrow> Panics m | Is_Dropped \<Rightarrow> Is_Dropped)"
    using assms by (auto simp: map_call_def)
  then show ?thesis using that by (cases r0) simp_all
qed

lemma expect_guard_got:
  "expect_guard guard x = Some (Completes (Inr g), evs) \<Longrightarrow>
     \<exists>d. x = Some (Completes (Inr (Some d)), evs) \<and> g = guard d"
  unfolding expect_guard_def
  by (erule map_call_cases) (auto split: sum.splits option.splits)

lemma expect_guard_panics:
  "expect_guard guard x = Some (Panics m, evs) \<Longrightarrow>
     x = Some (Panics m, evs) \<or> x = Some (Completes (Inr None), evs)"
  unfolding expect_guard_def
  by (erule map_call_cases) (auto split: sum.splits option.splits)

lemma maybe_guard_got:
  "maybe_guard guard x = Some (Completes (Inr (Some g)), evs) \<Longrightarrow>
     \<exists>d. x = Some (Completes (Inr (Some d)), evs) \<and> g = guard d"
  unfolding maybe_guard_def
  by (erule map_call_cases) (auto simp: map_option_case split: sum.splits option.splits)

lemma maybe_guard_panics:
  "maybe_guard guard x = Some (Panics m, evs) \<Longrightarrow> x = Some (Panics m, evs)"
  unfolding maybe_guard_def
  by (erule map_call_cases) (auto split: sum.splits)

lemma assert_keys_valid:
  "validate keys = Inr () \<Longrightarrow> assert_keys debug keys body = body"
  by (simp add: assert_keys_def debug_assert_lock_keys_def)

lemma assert_keys_ends:
  "assert_keys debug keys body = Some (Completes r, evs) \<Longrightarrow> body = Some (Completes r, evs)"
  by (auto simp: assert_keys_def split: sum.splits)

lemma assert_keys_panics:
  "assert_keys debug keys body = Some (Panics m, evs) \<Longrightarrow>
     body = Some (Panics m, evs) \<or> debug \<and> validate keys \<noteq> Inr () \<and> evs = []"
  by (auto simp: assert_keys_def debug_assert_lock_keys_def split: sum.splits if_splits)

lemma validate_single [simp]: "validate [key] = Inr ()"
  by (simp add: validate_def)

text \<open>A call does not panic, and a guard that it returns owns its lock.\<close>

definition sound_call :: "('d \<Rightarrow> 'g) \<Rightarrow> ('d \<Rightarrow> bool) \<Rightarrow> (acquire_failure, 'g) result call \<Rightarrow> bool" where
  "sound_call guard owned x \<longleftrightarrow>
     (\<forall>m evs. x \<noteq> Some (Panics m, evs)) \<and>
     (\<forall>g evs. x = Some (Completes (Inr g), evs) \<longrightarrow> (\<exists>d. g = guard d \<and> owned d))"

definition sound_attempt :: "('d \<Rightarrow> 'g) \<Rightarrow> ('d \<Rightarrow> bool) \<Rightarrow> (acquire_failure, 'g option) result call \<Rightarrow> bool" where
  "sound_attempt guard owned x \<longleftrightarrow>
     (\<forall>m evs. x \<noteq> Some (Panics m, evs)) \<and>
     (\<forall>g evs. x = Some (Completes (Inr (Some g)), evs) \<longrightarrow> (\<exists>d. g = guard d \<and> owned d))"

subsection \<open>The contract of \<open>acquire_internal\<close>\<close>

locale acquisition =
  fixes acquire :: "lock_target \<Rightarrow> acquire_options \<Rightarrow> bool \<Rightarrow> (acquire_failure, 'd option) result call"
    and owns :: "lock_target \<Rightarrow> acquire_options \<Rightarrow> 'd \<Rightarrow> bool"
    and debug :: bool
  assumes taken_is_once: "acquire target options once = Some (Completes (Inr None), evs) \<Longrightarrow> once"
    and got_owned: "acquire target options once = Some (Completes (Inr (Some d)), evs) \<Longrightarrow> owns target options d"
    and panic_is_invalid: "acquire target options once = Some (Panics m, evs) \<Longrightarrow>
      debug \<and> validate (target_keys target) \<noteq> Inr () \<and> evs = []"
begin

lemma expect_owned:
  assumes "expect_guard guard (acquire target options False) = Some (Completes (Inr g), evs)"
  shows "\<exists>d. g = guard d \<and> owns target options d"
  using expect_guard_got [OF assms] got_owned by blast

text \<open>The \<open>expect\<close> of a blocking acquisition cannot fail.\<close>

lemma expect_panics:
  assumes "expect_guard guard (acquire target options False) = Some (Panics m, evs)"
  shows "debug \<and> validate (target_keys target) \<noteq> Inr () \<and> evs = []"
  using expect_guard_panics [OF assms] taken_is_once panic_is_invalid by blast

lemma maybe_owned:
  assumes "maybe_guard guard (acquire target options True) = Some (Completes (Inr (Some g)), evs)"
  shows "\<exists>d. g = guard d \<and> owns target options d"
  using maybe_guard_got [OF assms] got_owned by blast

lemma maybe_panics:
  assumes "maybe_guard guard (acquire target options True) = Some (Panics m, evs)"
  shows "debug \<and> validate (target_keys target) \<noteq> Inr () \<and> evs = []"
  using maybe_guard_panics [OF assms] panic_is_invalid by blast

lemma blocking_sound:
  "validate (target_keys target) = Inr () \<Longrightarrow>
     sound_call guard (owns target options) (expect_guard guard (acquire target options False))"
  using expect_owned expect_panics by (fastforce simp: sound_call_def)

lemma attempt_sound:
  "validate (target_keys target) = Inr () \<Longrightarrow>
     sound_attempt guard (owns target options) (maybe_guard guard (acquire target options True))"
  using maybe_owned maybe_panics by (fastforce simp: sound_attempt_def)

end

end
