(* ===== verification/Sync_Api.thy ===== *)
theory Sync_Api
  imports Sync_Guard Api_Calls
begin

text \<open>
  The locks of the sync variant, \<open>src/sync_lock/lock.rs\<close>, \<open>rw_lock.rs\<close>, \<open>multi_key_lock.rs\<close> and
  \<open>multi_key_rw_lock.rs\<close>: six kinds of guards around \<open>GuardData\<close>, each with four functions that acquire
  it. A \<open>sync_call\<close> is what a call finds: whether it is a debug build, its uuid, its start and its
  environment.
\<close>

record sync_call =
  sc_debug :: bool
  sc_is_io :: "string \<Rightarrow> bool"
  sc_uuid :: uuid
  sc_start :: instant
  sc_env :: internal_env

text \<open>\<open>acquire_internal\<close> with its debug assertion.\<close>

definition sync_acquire :: "sync_call \<Rightarrow> lock_target \<Rightarrow> acquire_options \<Rightarrow> bool \<Rightarrow>
    (acquire_failure, guard_data option) result call" where
  "sync_acquire c target options once =
     assert_keys (sc_debug c) (target_keys target)
       (map_option (\<lambda>(r, evs). (Completes r, evs))
          (acquire_internal (sc_is_io c) (sc_uuid c) target options once (sc_start c) (sc_env c)))"

definition sync_owns :: "sync_call \<Rightarrow> lock_target \<Rightarrow> acquire_options \<Rightarrow> guard_data \<Rightarrow> bool" where
  "sync_owns c target options g \<longleftrightarrow>
     guard_fresh \<lparr>lr_target = target, lr_uuid = sc_uuid c\<rparr> options g \<and>
     \<not> lease_inactive (ie_final_now (sc_env c)) g"

interpretation sync_acq: acquisition "sync_acquire c" "sync_owns c" "sc_debug c" for c
proof
  fix target options once evs
  assume "sync_acquire c target options once = Some (Completes (Inr None), evs)"
  from assert_keys_ends [OF this [unfolded sync_acquire_def]] show once
    using acquire_internal_facts [of "sc_is_io c" "sc_uuid c" target options once "sc_start c" "sc_env c" "Inr None" evs]
    by auto
next
  fix target options once d evs
  assume "sync_acquire c target options once = Some (Completes (Inr (Some d)), evs)"
  from assert_keys_ends [OF this [unfolded sync_acquire_def]] show "sync_owns c target options d"
    using acquire_internal_facts [of "sc_is_io c" "sc_uuid c" target options once "sc_start c" "sc_env c" "Inr (Some d)" evs d]
    by (auto simp: sync_owns_def)
next
  fix target options once m evs
  assume "sync_acquire c target options once = Some (Panics m, evs)"
  from assert_keys_panics [OF this [unfolded sync_acquire_def]]
  show "sc_debug c \<and> validate (target_keys target) \<noteq> Inr () \<and> evs = []" by auto
qed

subsection \<open>Mutexes\<close>

datatype rlock_guard = RLockGuard guard_data

fun rlock_guard_release :: "(string, bool) result \<Rightarrow> rlock_guard \<Rightarrow>
    (release_failure, unit) result \<times> rlock_guard \<times> guard_event list" where
  "rlock_guard_release reply (RLockGuard inner) =
     (case guard_release reply inner of (r, inner', evs) \<Rightarrow> (r, RLockGuard inner', evs))"

fun rlock_guard_is_released :: "rlock_guard \<Rightarrow> bool" where
  "rlock_guard_is_released (RLockGuard inner) = g_is_released inner"

fun rlock_guard_lease_state :: "instant \<Rightarrow> rlock_guard \<Rightarrow> lease_state \<times> rlock_guard" where
  "rlock_guard_lease_state now (RLockGuard inner) =
     (case lease_get_state now (g_lease inner) of (st, l) \<Rightarrow> (st, RLockGuard (inner\<lparr>g_lease := l\<rparr>)))"

definition acquire_mutex_with_options :: "sync_call \<Rightarrow> redis_key \<Rightarrow> acquire_options \<Rightarrow>
    (acquire_failure, rlock_guard) result call" where
  "acquire_mutex_with_options c key options =
     expect_guard RLockGuard (sync_acquire c (Single key) options False)"

definition acquire_mutex :: "sync_call \<Rightarrow> redis_key \<Rightarrow> (acquire_failure, rlock_guard) result call" where
  "acquire_mutex c key = acquire_mutex_with_options c key options_default"

definition try_acquire_mutex_with_options :: "sync_call \<Rightarrow> redis_key \<Rightarrow> acquire_options \<Rightarrow>
    (acquire_failure, rlock_guard option) result call" where
  "try_acquire_mutex_with_options c key options =
     maybe_guard RLockGuard (sync_acquire c (Single key) options True)"

definition try_acquire_mutex :: "sync_call \<Rightarrow> redis_key \<Rightarrow> (acquire_failure, rlock_guard option) result call" where
  "try_acquire_mutex c key = try_acquire_mutex_with_options c key options_default"

subsection \<open>Read locks\<close>

datatype read_lock_guard = RReadLockGuard guard_data

fun read_lock_guard_release :: "(string, bool) result \<Rightarrow> read_lock_guard \<Rightarrow>
    (release_failure, unit) result \<times> read_lock_guard \<times> guard_event list" where
  "read_lock_guard_release reply (RReadLockGuard inner) =
     (case guard_release reply inner of (r, inner', evs) \<Rightarrow> (r, RReadLockGuard inner', evs))"

fun read_lock_guard_is_released :: "read_lock_guard \<Rightarrow> bool" where
  "read_lock_guard_is_released (RReadLockGuard inner) = g_is_released inner"

fun read_lock_guard_lease_state :: "instant \<Rightarrow> read_lock_guard \<Rightarrow> lease_state \<times> read_lock_guard" where
  "read_lock_guard_lease_state now (RReadLockGuard inner) =
     (case lease_get_state now (g_lease inner) of (st, l) \<Rightarrow> (st, RReadLockGuard (inner\<lparr>g_lease := l\<rparr>)))"

definition acquire_read_with_options :: "sync_call \<Rightarrow> redis_key \<Rightarrow> acquire_options \<Rightarrow>
    (acquire_failure, read_lock_guard) result call" where
  "acquire_read_with_options c key options =
     expect_guard RReadLockGuard (sync_acquire c (Read key) options False)"

definition acquire_read :: "sync_call \<Rightarrow> redis_key \<Rightarrow> (acquire_failure, read_lock_guard) result call" where
  "acquire_read c key = acquire_read_with_options c key options_default"

definition try_acquire_read_with_options :: "sync_call \<Rightarrow> redis_key \<Rightarrow> acquire_options \<Rightarrow>
    (acquire_failure, read_lock_guard option) result call" where
  "try_acquire_read_with_options c key options =
     maybe_guard RReadLockGuard (sync_acquire c (Read key) options True)"

definition try_acquire_read :: "sync_call \<Rightarrow> redis_key \<Rightarrow> (acquire_failure, read_lock_guard option) result call" where
  "try_acquire_read c key = try_acquire_read_with_options c key options_default"

subsection \<open>Write locks\<close>

datatype write_lock_guard = RWriteLockGuard guard_data

fun write_lock_guard_release :: "(string, bool) result \<Rightarrow> write_lock_guard \<Rightarrow>
    (release_failure, unit) result \<times> write_lock_guard \<times> guard_event list" where
  "write_lock_guard_release reply (RWriteLockGuard inner) =
     (case guard_release reply inner of (r, inner', evs) \<Rightarrow> (r, RWriteLockGuard inner', evs))"

fun write_lock_guard_is_released :: "write_lock_guard \<Rightarrow> bool" where
  "write_lock_guard_is_released (RWriteLockGuard inner) = g_is_released inner"

fun write_lock_guard_lease_state :: "instant \<Rightarrow> write_lock_guard \<Rightarrow> lease_state \<times> write_lock_guard" where
  "write_lock_guard_lease_state now (RWriteLockGuard inner) =
     (case lease_get_state now (g_lease inner) of (st, l) \<Rightarrow> (st, RWriteLockGuard (inner\<lparr>g_lease := l\<rparr>)))"

definition acquire_write_with_options :: "sync_call \<Rightarrow> redis_key \<Rightarrow> acquire_options \<Rightarrow>
    (acquire_failure, write_lock_guard) result call" where
  "acquire_write_with_options c key options =
     expect_guard RWriteLockGuard (sync_acquire c (Write key) options False)"

definition acquire_write :: "sync_call \<Rightarrow> redis_key \<Rightarrow> (acquire_failure, write_lock_guard) result call" where
  "acquire_write c key = acquire_write_with_options c key options_default"

definition try_acquire_write_with_options :: "sync_call \<Rightarrow> redis_key \<Rightarrow> acquire_options \<Rightarrow>
    (acquire_failure, write_lock_guard option) result call" where
  "try_acquire_write_with_options c key options =
     maybe_guard RWriteLockGuard (sync_acquire c (Write key) options True)"

definition try_acquire_write :: "sync_call \<Rightarrow> redis_key \<Rightarrow> (acquire_failure, write_lock_guard option) result call" where
  "try_acquire_write c key = try_acquire_write_with_options c key options_default"

subsection \<open>Mutexes with many keys\<close>

datatype multi_key_lock_guard = RMultiKeyLockGuard guard_data

fun multi_key_lock_guard_release :: "(string, bool) result \<Rightarrow> multi_key_lock_guard \<Rightarrow>
    (release_failure, unit) result \<times> multi_key_lock_guard \<times> guard_event list" where
  "multi_key_lock_guard_release reply (RMultiKeyLockGuard inner) =
     (case guard_release reply inner of (r, inner', evs) \<Rightarrow> (r, RMultiKeyLockGuard inner', evs))"

fun multi_key_lock_guard_is_released :: "multi_key_lock_guard \<Rightarrow> bool" where
  "multi_key_lock_guard_is_released (RMultiKeyLockGuard inner) = g_is_released inner"

fun multi_key_lock_guard_lease_state :: "instant \<Rightarrow> multi_key_lock_guard \<Rightarrow> lease_state \<times> multi_key_lock_guard" where
  "multi_key_lock_guard_lease_state now (RMultiKeyLockGuard inner) =
     (case lease_get_state now (g_lease inner) of (st, l) \<Rightarrow> (st, RMultiKeyLockGuard (inner\<lparr>g_lease := l\<rparr>)))"

definition acquire_multi_key_mutex_with_options :: "sync_call \<Rightarrow> redis_key list \<Rightarrow> acquire_options \<Rightarrow>
    (acquire_failure, multi_key_lock_guard) result call" where
  "acquire_multi_key_mutex_with_options c keys options =
     expect_guard RMultiKeyLockGuard (sync_acquire c (Multiple keys) options False)"

definition acquire_multi_key_mutex :: "sync_call \<Rightarrow> redis_key list \<Rightarrow> (acquire_failure, multi_key_lock_guard) result call" where
  "acquire_multi_key_mutex c keys = acquire_multi_key_mutex_with_options c keys options_default"

definition try_acquire_multi_key_mutex_with_options :: "sync_call \<Rightarrow> redis_key list \<Rightarrow> acquire_options \<Rightarrow>
    (acquire_failure, multi_key_lock_guard option) result call" where
  "try_acquire_multi_key_mutex_with_options c keys options =
     maybe_guard RMultiKeyLockGuard (sync_acquire c (Multiple keys) options True)"

definition try_acquire_multi_key_mutex :: "sync_call \<Rightarrow> redis_key list \<Rightarrow> (acquire_failure, multi_key_lock_guard option) result call" where
  "try_acquire_multi_key_mutex c keys = try_acquire_multi_key_mutex_with_options c keys options_default"

subsection \<open>Read locks with many keys\<close>

datatype multi_key_read_lock_guard = RMultiKeyReadLockGuard guard_data

fun multi_key_read_lock_guard_release :: "(string, bool) result \<Rightarrow> multi_key_read_lock_guard \<Rightarrow>
    (release_failure, unit) result \<times> multi_key_read_lock_guard \<times> guard_event list" where
  "multi_key_read_lock_guard_release reply (RMultiKeyReadLockGuard inner) =
     (case guard_release reply inner of (r, inner', evs) \<Rightarrow> (r, RMultiKeyReadLockGuard inner', evs))"

fun multi_key_read_lock_guard_is_released :: "multi_key_read_lock_guard \<Rightarrow> bool" where
  "multi_key_read_lock_guard_is_released (RMultiKeyReadLockGuard inner) = g_is_released inner"

fun multi_key_read_lock_guard_lease_state :: "instant \<Rightarrow> multi_key_read_lock_guard \<Rightarrow> lease_state \<times> multi_key_read_lock_guard" where
  "multi_key_read_lock_guard_lease_state now (RMultiKeyReadLockGuard inner) =
     (case lease_get_state now (g_lease inner) of (st, l) \<Rightarrow> (st, RMultiKeyReadLockGuard (inner\<lparr>g_lease := l\<rparr>)))"

definition acquire_multi_key_read_with_options :: "sync_call \<Rightarrow> redis_key list \<Rightarrow> acquire_options \<Rightarrow>
    (acquire_failure, multi_key_read_lock_guard) result call" where
  "acquire_multi_key_read_with_options c keys options =
     expect_guard RMultiKeyReadLockGuard (sync_acquire c (MultipleRead keys) options False)"

definition acquire_multi_key_read :: "sync_call \<Rightarrow> redis_key list \<Rightarrow> (acquire_failure, multi_key_read_lock_guard) result call" where
  "acquire_multi_key_read c keys = acquire_multi_key_read_with_options c keys options_default"

definition try_acquire_multi_key_read_with_options :: "sync_call \<Rightarrow> redis_key list \<Rightarrow> acquire_options \<Rightarrow>
    (acquire_failure, multi_key_read_lock_guard option) result call" where
  "try_acquire_multi_key_read_with_options c keys options =
     maybe_guard RMultiKeyReadLockGuard (sync_acquire c (MultipleRead keys) options True)"

definition try_acquire_multi_key_read :: "sync_call \<Rightarrow> redis_key list \<Rightarrow> (acquire_failure, multi_key_read_lock_guard option) result call" where
  "try_acquire_multi_key_read c keys = try_acquire_multi_key_read_with_options c keys options_default"

subsection \<open>Write locks with many keys\<close>

datatype multi_key_write_lock_guard = RMultiKeyWriteLockGuard guard_data

fun multi_key_write_lock_guard_release :: "(string, bool) result \<Rightarrow> multi_key_write_lock_guard \<Rightarrow>
    (release_failure, unit) result \<times> multi_key_write_lock_guard \<times> guard_event list" where
  "multi_key_write_lock_guard_release reply (RMultiKeyWriteLockGuard inner) =
     (case guard_release reply inner of (r, inner', evs) \<Rightarrow> (r, RMultiKeyWriteLockGuard inner', evs))"

fun multi_key_write_lock_guard_is_released :: "multi_key_write_lock_guard \<Rightarrow> bool" where
  "multi_key_write_lock_guard_is_released (RMultiKeyWriteLockGuard inner) = g_is_released inner"

fun multi_key_write_lock_guard_lease_state :: "instant \<Rightarrow> multi_key_write_lock_guard \<Rightarrow> lease_state \<times> multi_key_write_lock_guard" where
  "multi_key_write_lock_guard_lease_state now (RMultiKeyWriteLockGuard inner) =
     (case lease_get_state now (g_lease inner) of (st, l) \<Rightarrow> (st, RMultiKeyWriteLockGuard (inner\<lparr>g_lease := l\<rparr>)))"

definition acquire_multi_key_write_with_options :: "sync_call \<Rightarrow> redis_key list \<Rightarrow> acquire_options \<Rightarrow>
    (acquire_failure, multi_key_write_lock_guard) result call" where
  "acquire_multi_key_write_with_options c keys options =
     expect_guard RMultiKeyWriteLockGuard (sync_acquire c (MultipleWrite keys) options False)"

definition acquire_multi_key_write :: "sync_call \<Rightarrow> redis_key list \<Rightarrow> (acquire_failure, multi_key_write_lock_guard) result call" where
  "acquire_multi_key_write c keys = acquire_multi_key_write_with_options c keys options_default"

definition try_acquire_multi_key_write_with_options :: "sync_call \<Rightarrow> redis_key list \<Rightarrow> acquire_options \<Rightarrow>
    (acquire_failure, multi_key_write_lock_guard option) result call" where
  "try_acquire_multi_key_write_with_options c keys options =
     maybe_guard RMultiKeyWriteLockGuard (sync_acquire c (MultipleWrite keys) options True)"

definition try_acquire_multi_key_write :: "sync_call \<Rightarrow> redis_key list \<Rightarrow> (acquire_failure, multi_key_write_lock_guard option) result call" where
  "try_acquire_multi_key_write c keys = try_acquire_multi_key_write_with_options c keys options_default"

subsection \<open>Properties\<close>

text \<open>
  C30: No public acquisition panics, and every guard it returns owns its lock. For keys that are not empty
  and distinct (a single key always is), in debug and in release builds, none of the twelve functions ends
  in the panic of \<open>debug_assert_lock_keys\<close> or of \<open>expect\<close>; and a guard of any of the six kinds is for a
  request on the given keys in the mode of its kind, with the given options and an active lease.
\<close>

theorem sync_calls_sound:
  assumes "validate keys = Inr ()"
  shows "sound_call RLockGuard (sync_owns c (Single key) options) (acquire_mutex_with_options c key options) \<and>
    sound_attempt RLockGuard (sync_owns c (Single key) options) (try_acquire_mutex_with_options c key options) \<and>
    sound_call RReadLockGuard (sync_owns c (Read key) options) (acquire_read_with_options c key options) \<and>
    sound_attempt RReadLockGuard (sync_owns c (Read key) options) (try_acquire_read_with_options c key options) \<and>
    sound_call RWriteLockGuard (sync_owns c (Write key) options) (acquire_write_with_options c key options) \<and>
    sound_attempt RWriteLockGuard (sync_owns c (Write key) options) (try_acquire_write_with_options c key options) \<and>
    sound_call RMultiKeyLockGuard (sync_owns c (Multiple keys) options) (acquire_multi_key_mutex_with_options c keys options) \<and>
    sound_attempt RMultiKeyLockGuard (sync_owns c (Multiple keys) options) (try_acquire_multi_key_mutex_with_options c keys options) \<and>
    sound_call RMultiKeyReadLockGuard (sync_owns c (MultipleRead keys) options) (acquire_multi_key_read_with_options c keys options) \<and>
    sound_attempt RMultiKeyReadLockGuard (sync_owns c (MultipleRead keys) options) (try_acquire_multi_key_read_with_options c keys options) \<and>
    sound_call RMultiKeyWriteLockGuard (sync_owns c (MultipleWrite keys) options) (acquire_multi_key_write_with_options c keys options) \<and>
    sound_attempt RMultiKeyWriteLockGuard (sync_owns c (MultipleWrite keys) options) (try_acquire_multi_key_write_with_options c keys options)"
  unfolding acquire_mutex_with_options_def try_acquire_mutex_with_options_def
    acquire_read_with_options_def try_acquire_read_with_options_def
    acquire_write_with_options_def try_acquire_write_with_options_def
    acquire_multi_key_mutex_with_options_def try_acquire_multi_key_mutex_with_options_def
    acquire_multi_key_read_with_options_def try_acquire_multi_key_read_with_options_def
    acquire_multi_key_write_with_options_def try_acquire_multi_key_write_with_options_def
  using assms by (intro conjI sync_acq.blocking_sound sync_acq.attempt_sound) simp_all

text \<open>A read lock on two keys that a debug build gets at its second attempt.\<close>

definition example_call :: sync_call where
  "example_call =
     \<lparr>sc_debug = True, sc_is_io = (\<lambda>_. True), sc_uuid = ''u'', sc_start = 0,
      sc_env = example_internal [example_attempt 0 (Inr False), example_attempt (from_millis 110) (Inr True)]\<rparr>"

lemma example_call_gets:
  "\<exists>g evs. acquire_multi_key_read_with_options example_call [''a'', ''b''] example_options =
     Some (Completes (Inr (RMultiKeyReadLockGuard g)), evs)"
  by (simp add: acquire_multi_key_read_with_options_def expect_guard_def map_call_def sync_acquire_def
      assert_keys_valid validate_def example_call_def example_defs)

theorem sync_calls_sound_witness:
  "\<exists>g evs. acquire_multi_key_read_with_options example_call [''a'', ''b''] example_options =
     Some (Completes (Inr (RMultiKeyReadLockGuard g)), evs) \<and>
     sync_owns example_call (MultipleRead [''a'', ''b'']) example_options g"
proof -
  obtain g evs where got: "acquire_multi_key_read_with_options example_call [''a'', ''b''] example_options =
      Some (Completes (Inr (RMultiKeyReadLockGuard g)), evs)"
    using example_call_gets by blast
  have "validate [''a'', ''b''] = Inr ()" by (simp add: validate_def)
  from sync_calls_sound [OF this, of example_call _ example_options] got show ?thesis
    by (auto simp: sound_call_def)
qed

end
