(* ===== verification/Async_Guard.thy ===== *)
theory Async_Guard
  imports Renewal Guard_Events Options Errors
begin

text \<open>
  Async acquisition and release, \<open>src/async_lock/guard.rs\<close>. As in the sync variant the functions run
  against an environment given as data: a record per pass of a loop holds what the pass reads from the
  clock, the channels, the manager and Redis, and a loop runs over the list of its passes, where an
  exhausted list means that it is still running. A \<open>select!\<close> runs over the list of its polls, and in
  every poll its branches are looked at in their order (\<open>biased\<close>). An uuid is an argument.
\<close>

subsection \<open>Guards\<close>

record async_guard =
  ag_request :: lock_request
  ag_lease :: lease
  ag_sender :: bool
  ag_stop_tx :: bool
  ag_is_released :: bool

definition async_guard_new :: "lock_request \<Rightarrow> lease \<Rightarrow> acquire_options \<Rightarrow> async_guard \<times> guard_event list" where
  "async_guard_new request lease options =
     (case effective_renew_interval options of
        None \<Rightarrow> (\<lparr>ag_request = request, ag_lease = lease, ag_sender = True, ag_stop_tx = False,
                  ag_is_released = False\<rparr>, [])
      | Some interval \<Rightarrow> (\<lparr>ag_request = request, ag_lease = lease, ag_sender = True, ag_stop_tx = True,
                           ag_is_released = False\<rparr>, [Spawn_Renewal request]))"

definition stop_renewal :: "async_guard \<Rightarrow> async_guard" where
  "stop_renewal g = g\<lparr>ag_stop_tx := False\<rparr>"

text \<open>
  What becomes of the task that sends the release: its result, its end without a result, where the command
  may not have been sent, or a result that the caller does not see, because it dropped the future of \<open>release\<close>
  while it waited.
\<close>

datatype release_wait = Replied "(string, bool) result" | Task_Stopped | Call_Dropped "(string, bool) result"

fun release_outcome :: "release_wait \<Rightarrow> (string, bool) result" where
  "release_outcome (Replied reply) = reply"
| "release_outcome Task_Stopped = Inl ''the lock release task stopped before returning a result''"
| "release_outcome (Call_Dropped reply) = reply"

definition async_guard_release :: "release_wait \<Rightarrow> async_guard \<Rightarrow>
    (release_failure, unit) result option \<times> async_guard \<times> guard_event list" where
  "async_guard_release reply g =
     (if ag_is_released g then (Some (Inr ()), g, [])
      else
        (let g' = stop_renewal (g\<lparr>ag_lease := lease_lose (ag_lease g)\<rparr>) in
         (case reply of
            Call_Dropped _ \<Rightarrow> (None, g', [Sent_Release (ag_request g) (release_outcome reply)])
          | Task_Stopped \<Rightarrow>
              (Some (Inl (ReleaseWorkerError ''the lock release task stopped before returning a result'')), g',
               [Sent_Release (ag_request g) (release_outcome reply)])
          | Replied (Inl e) \<Rightarrow>
              (Some (Inl (ReleaseRedisError e)), g', [Sent_Release (ag_request g) (release_outcome reply)])
          | Replied (Inr _) \<Rightarrow>
              (Some (Inr ()),
               g'\<lparr>ag_is_released := True, ag_lease := lease_release (ag_lease g'), ag_sender := False\<rparr>,
               [Sent_Release (ag_request g) (release_outcome reply)]))))"

text \<open>\<open>queued\<close> is what \<open>try_send\<close> returns: an error, if the queue is full or closed, is only logged.\<close>

definition async_guard_drop :: "(send_error, unit) result \<Rightarrow> async_guard \<Rightarrow> async_guard \<times> guard_event list" where
  "async_guard_drop queued g =
     (if ag_is_released g then (g, [])
      else
        ((stop_renewal (g\<lparr>ag_lease := lease_release (ag_lease g)\<rparr>))\<lparr>ag_sender := False\<rparr>,
         if ag_sender g then [Queue_Release (ag_request g) queued] else []))"

subsection \<open>Deadlines\<close>

definition deadline_elapsed :: "instant \<Rightarrow> duration option \<Rightarrow> instant \<Rightarrow> bool" where
  "deadline_elapsed start timeout now =
     (case timeout of None \<Rightarrow> False | Some timeout \<Rightarrow> timeout \<le> elapsed now start)"

text \<open>
  The timer segments of \<open>wait_for_deadline\<close> for the readings of its clock, and whether it returned. Without
  a timeout it is pending for ever.
\<close>

fun wait_for_deadline :: "instant \<Rightarrow> duration option \<Rightarrow> instant list \<Rightarrow> duration list \<times> bool" where
  "wait_for_deadline start None nows = ([], False)"
| "wait_for_deadline start (Some timeout) [] = ([], False)"
| "wait_for_deadline start (Some timeout) (now # nows) =
     (let remaining = timeout - elapsed now start in
      if remaining = 0 then ([], True)
      else
        (case wait_for_deadline start (Some timeout) nows of
           (sleeps, returned) \<Rightarrow> (min remaining max_sleep # sleeps, returned)))"

subsection \<open>Waiting for the next attempt\<close>

text \<open>
  A poll of the \<open>select!\<close> between two attempts: whether the result channel is closed, whether the
  manager is shut down, and the clock in the two deadlines when their timers fire.
\<close>

record retry_poll =
  ry_closed :: bool
  ry_shutdown :: bool
  ry_deadline :: "instant option"
  ry_retry :: "instant option"

datatype retry_wake = Result_Closed | Manager_Shutdown | Deadline_Passed | Retry_Due

definition fires :: "instant \<Rightarrow> duration option \<Rightarrow> instant option \<Rightarrow> bool" where
  "fires start timeout now = (case now of None \<Rightarrow> False | Some now \<Rightarrow> deadline_elapsed start timeout now)"

fun retry_select :: "acquire_options \<Rightarrow> instant \<Rightarrow> instant \<Rightarrow> retry_poll list \<Rightarrow> retry_wake option" where
  "retry_select options start retry_start [] = None"
| "retry_select options start retry_start (p # ps) =
     (if ry_closed p then Some Result_Closed
      else if ry_shutdown p then Some Manager_Shutdown
      else if fires start (ao_lock_timeout options) (ry_deadline p) then Some Deadline_Passed
      else if fires retry_start (Some (ao_retry_interval options)) (ry_retry p) then Some Retry_Due
      else retry_select options start retry_start ps)"

subsection \<open>The supervising task\<close>

text \<open>
  \<open>aa_clean\<close> is the reply to the release by \<open>clean_abandoned\<close>, whose error is only logged; \<open>aa_release\<close> and
  \<open>aa_queued\<close> are what becomes of the release and the drop of an abandoned guard.
\<close>

record async_attempt =
  aa_closed :: bool
  aa_open1 :: bool
  aa_now1 :: instant
  aa_attempt :: instant
  aa_reply :: "(string, bool) result"
  aa_admission :: bool
  aa_open2 :: bool
  aa_now2 :: instant
  aa_lease_now :: instant
  aa_delivered :: bool
  aa_clean :: "(string, bool) result"
  aa_release :: release_wait
  aa_queued :: "(send_error, unit) result"
  aa_retry_start :: instant
  aa_polls :: "retry_poll list"

datatype handoff = Handoff_Sent async_guard | Handoff_Rejected acquire_failure | Handoff_Abandoned async_guard

text \<open>\<open>Lease::new\<close> and then the block that decides under the admission lock.\<close>

definition async_handoff :: "lock_request \<Rightarrow> acquire_options \<Rightarrow> instant \<Rightarrow> async_attempt \<Rightarrow>
    handoff \<times> guard_event list" where
  "async_handoff request options start a =
     (let lease = lease_new (aa_attempt a) (effective_ttl options) in
      if \<not> aa_admission a \<or> \<not> aa_open2 a then (Handoff_Rejected Shutdown, [])
      else if deadline_elapsed start (ao_lock_timeout options) (aa_now2 a)
      then (Handoff_Rejected LockTimeout, [])
      else
        (case lease_get_state (aa_lease_now a) lease of (state, lease') \<Rightarrow>
          if state \<noteq> Active then (Handoff_Rejected LeaseExpired, [])
          else
            (case async_guard_new request lease' options of (guard, evs) \<Rightarrow>
              (if aa_delivered a then Handoff_Sent guard else Handoff_Abandoned guard, evs))))"

text \<open>
  The result of the task: the message it sent, \<open>None\<close> if it ended without one, and its events. After a
  guard was sent the task still waits for the caller; that part is \<open>after_handoff\<close>.
\<close>

type_synonym async_message = "(acquire_failure, async_guard option) result"

definition async_acquired :: "lock_request \<Rightarrow> acquire_options \<Rightarrow> instant \<Rightarrow> async_attempt \<Rightarrow>
    async_message option \<times> guard_event list" where
  "async_acquired request options start a =
     (case async_handoff request options start a of
        (Handoff_Sent guard, evs) \<Rightarrow> (Some (Inr (Some guard)), evs)
      | (Handoff_Rejected error, evs) \<Rightarrow> (Some (Inl error), evs @ [Sent_Release request (aa_clean a)])
      | (Handoff_Abandoned guard, evs) \<Rightarrow>
          (case async_guard_release (aa_release a) guard of (r, guard', evs') \<Rightarrow>
            (None, evs @ evs' @ snd (async_guard_drop (aa_queued a) guard'))))"

definition more_async :: "guard_event list \<Rightarrow> async_message option \<times> guard_event list \<Rightarrow>
    async_message option \<times> guard_event list" where
  "more_async evs r = (fst r, evs @ snd r)"

fun supervise_acquisition :: "lock_request \<Rightarrow> acquire_options \<Rightarrow> bool \<Rightarrow> instant \<Rightarrow> async_attempt list \<Rightarrow>
    (async_message option \<times> guard_event list) option" where
  "supervise_acquisition request options once start [] = None"
| "supervise_acquisition request options once start (a # as) =
     (if aa_closed a then Some (None, [])
      else if \<not> aa_open1 a then Some (Some (Inl Shutdown), [])
      else if deadline_elapsed start (ao_lock_timeout options) (aa_now1 a)
      then Some (Some (Inl LockTimeout), [])
      else
        (case aa_reply a of
           Inl error \<Rightarrow>
             Some (Some (Inl (acquire_error_from error)),
               [Sent_Acquire request (aa_reply a), Sent_Release request (aa_clean a)])
         | Inr acquired \<Rightarrow>
             (if acquired
              then Some (more_async [Sent_Acquire request (aa_reply a)] (async_acquired request options start a))
              else if once then Some (Some (Inr None), [Sent_Acquire request (aa_reply a)])
              else
                (case retry_select options start (aa_retry_start a) (aa_polls a) of
                   None \<Rightarrow> None
                 | Some Result_Closed \<Rightarrow> Some (None, [Sent_Acquire request (aa_reply a)])
                 | Some Manager_Shutdown \<Rightarrow> Some (Some (Inl Shutdown), [Sent_Acquire request (aa_reply a)])
                 | Some Deadline_Passed \<Rightarrow> Some (Some (Inl LockTimeout), [Sent_Acquire request (aa_reply a)])
                 | Some Retry_Due \<Rightarrow>
                     map_option (more_async [Sent_Acquire request (aa_reply a)])
                       (supervise_acquisition request options once start as)))))"

subsection \<open>The caller\<close>

text \<open>
  How the \<open>select!\<close> of the caller ends: the manager is shut down, the timeout passes, the result arrives,
  the task stops without a result, or the caller drops the future.
\<close>

datatype caller_wake = Saw_Shutdown | Saw_Deadline | Got_Result | Worker_Stopped | Future_Dropped

text \<open>
  \<open>ae_task\<close> is how the task ended, \<open>ae_queued\<close> what \<open>try_send\<close> returns for a guard that was sent and dropped, and
  \<open>ae_clean\<close> the reply to the release by the task after it.
\<close>

record async_env =
  ae_start_now :: instant
  ae_admitted :: "(acquire_failure, unit) result"
  ae_attempts :: "async_attempt list"
  ae_wake :: caller_wake
  ae_task :: worker_end
  ae_now :: instant
  ae_open :: bool
  ae_renewals :: "lease_op list"
  ae_lease_now :: instant
  ae_queued :: "(send_error, unit) result"
  ae_clean :: "(string, bool) result"

definition async_guard_after :: "lease_op list \<Rightarrow> async_guard \<Rightarrow> async_guard" where
  "async_guard_after ops g = g\<lparr>ag_lease := lease_run ops (ag_lease g)\<rparr>"

definition worker_stopped :: acquire_failure where
  "worker_stopped = AcquireWorkerError ''the acquisition task stopped before returning a result''"

text \<open>
  The checks on a result: what the caller returns, and whether it accepted the acquisition. The renewal
  task of the guard is already running; \<open>ae_renewals\<close> is what it did to the shared lease until the check.
\<close>

definition check_result :: "acquire_options \<Rightarrow> instant \<Rightarrow> async_env \<Rightarrow> async_message \<Rightarrow> async_message \<times> bool" where
  "check_result options start e result =
     (case result of
        Inl error \<Rightarrow> (Inl error, False)
      | Inr acquisition \<Rightarrow>
          (if deadline_elapsed start (ao_lock_timeout options) (ae_now e) then (Inl LockTimeout, False)
           else if \<not> ae_open e then (Inl Shutdown, False)
           else
             (case acquisition of
                None \<Rightarrow> (Inr None, False)
              | Some g \<Rightarrow>
                  (let g' = async_guard_after (ae_renewals e) g in
                   if fst (lease_get_state (ae_lease_now e) (ag_lease g')) \<noteq> Active then (Inl LeaseExpired, False)
                   else (Inr (Some g'), True)))))"

text \<open>
  After a guard was sent: an acquisition that is not accepted is dropped with its guard, by the caller or
  with the channel, and the supervising task cleans up. \<open>queued\<close> and \<open>reply\<close> are the outcomes; a failed release
  is only logged.
\<close>

definition after_handoff :: "bool \<Rightarrow> (send_error, unit) result \<Rightarrow> (string, bool) result \<Rightarrow> lock_request \<Rightarrow>
    async_message option \<Rightarrow> guard_event list" where
  "after_handoff accepted queued reply request message =
     (case message of
        Some (Inr (Some g)) \<Rightarrow>
          (if accepted then [] else snd (async_guard_drop queued g) @ [Sent_Release request reply])
      | _ \<Rightarrow> [])"

text \<open>What the caller returns if it looks at no result.\<close>

fun wake_result :: "caller_wake \<Rightarrow> async_message option" where
  "wake_result Saw_Shutdown = Some (Inl Shutdown)"
| "wake_result Saw_Deadline = Some (Inl LockTimeout)"
| "wake_result Future_Dropped = None"
| "wake_result _ = Some (Inl worker_stopped)"

definition task_stopped :: "async_env \<Rightarrow> bool" where
  "task_stopped e \<longleftrightarrow> ae_wake e = Worker_Stopped \<or> ae_wake e \<noteq> Got_Result \<and> ae_task e \<noteq> Ran_To_End"

text \<open>
  \<open>acquire_internal\<close> after the debug assertion. The outer \<open>None\<close> is an acquisition whose task has not ended;
  the result is \<open>None\<close> if the caller dropped the future. The caller does not wait for the task unless it gets its
  result; the events are those of both when both are done. A task that panicked or whose runtime shut down, as
  \<open>ae_task\<close> says, or as the caller learns from the closed channel, leaves a part of its events.
\<close>

definition async_acquire_internal :: "uuid \<Rightarrow> lock_target \<Rightarrow> acquire_options \<Rightarrow> bool \<Rightarrow> instant \<Rightarrow> async_env \<Rightarrow>
    (async_message option \<times> guard_event list) option" where
  "async_acquire_internal uuid target options once start e =
     (if deadline_elapsed start (ao_lock_timeout options) (ae_start_now e) then Some (Some (Inl LockTimeout), [])
      else
        (case ae_admitted e of
           Inl error \<Rightarrow> Some (Some (Inl error), [])
         | Inr _ \<Rightarrow>
             (let request = \<lparr>lr_target = target, lr_uuid = uuid\<rparr>;
                  after = (\<lambda>accepted. after_handoff accepted (ae_queued e) (ae_clean e) request) in
              (case supervise_acquisition request options once start (ae_attempts e) of
                 None \<Rightarrow> None
               | Some (message, evs) \<Rightarrow>
                   (if task_stopped e then Some (wake_result (ae_wake e), until_end (ae_task e) request evs)
                    else if ae_wake e = Got_Result
                    then
                      (case message of
                         None \<Rightarrow> Some (Some (Inl worker_stopped), evs)
                       | Some result \<Rightarrow>
                           (case check_result options start e result of (r, accepted) \<Rightarrow>
                              Some (Some r, evs @ after accepted message)))
                    else Some (wake_result (ae_wake e), evs @ after False message))))))"

subsection \<open>What an acquisition leaves behind\<close>

definition async_guard_fresh :: "lock_request \<Rightarrow> acquire_options \<Rightarrow> async_guard \<Rightarrow> bool" where
  "async_guard_fresh request options g \<longleftrightarrow>
     ag_request g = request \<and> ag_sender g \<and> \<not> ag_is_released g \<and>
     ag_stop_tx g = (effective_renew_interval options \<noteq> None)"

definition sent_guard :: "async_message option \<Rightarrow> bool" where
  "sent_guard message \<longleftrightarrow> (\<exists>g. message = Some (Inr (Some g)))"

lemma sent_guard_simps [simp]:
  "sent_guard None = False" "sent_guard (Some (Inl e)) = False" "sent_guard (Some (Inr None)) = False"
  "sent_guard (Some (Inr (Some g))) = True"
  by (simp_all add: sent_guard_def)

lemma async_guard_new_facts:
  assumes "async_guard_new request lease options = (g, evs)"
  shows "async_guard_fresh request options g" and "ag_lease g = lease" and "pending_after is_io b evs = b"
  using assms by (auto simp: async_guard_new_def async_guard_fresh_def split: option.splits)

text \<open>However the release of an abandoned guard goes, the lock is given back.\<close>

lemma release_then_drop_held:
  assumes "async_guard_fresh request options g" and "async_guard_release reply g = (r, g', evs)"
  shows "pending_after is_io b (evs @ snd (async_guard_drop queued g')) = False"
  using assms
  by (auto simp: async_guard_fresh_def async_guard_release_def async_guard_drop_def stop_renewal_def Let_def
      split: release_wait.splits sum.splits)

lemma async_handoff_facts:
  assumes "async_handoff request options start a = (h, evs)"
  shows "pending_after is_io b evs = b"
    and "h = Handoff_Sent g \<or> h = Handoff_Abandoned g \<Longrightarrow>
      async_guard_fresh request options g \<and> ag_lease g = lease_new (aa_attempt a) (effective_ttl options)"
proof -
  let ?lease = "lease_new (aa_attempt a) (effective_ttl options)"
  have "pending_after is_io b evs = b \<and>
    (h = Handoff_Sent g \<or> h = Handoff_Abandoned g \<longrightarrow>
      async_guard_fresh request options g \<and> ag_lease g = lease_new (aa_attempt a) (effective_ttl options))"
  proof (cases "fst (lease_get_state (aa_lease_now a) ?lease) = Active")
    case False
    with assms show ?thesis by (auto simp: async_handoff_def Let_def split: prod.splits if_splits)
  next
    case True
    then have checked: "lease_get_state (aa_lease_now a) ?lease = (Active, ?lease)"
      using lease_get_state_active [OF True] by (metis prod.collapse)
    obtain g' evs' where new: "async_guard_new request ?lease options = (g', evs')" by fastforce
    show ?thesis
      using assms checked new async_guard_new_facts [OF new]
      by (auto simp: async_handoff_def Let_def split: if_splits)
  qed
  then show "pending_after is_io b evs = b"
    and "h = Handoff_Sent g \<or> h = Handoff_Abandoned g \<Longrightarrow>
      async_guard_fresh request options g \<and> ag_lease g = lease_new (aa_attempt a) (effective_ttl options)"
    by blast+
qed

lemma async_acquired_facts:
  assumes "async_acquired request options start a = (message, evs)"
  shows "pending_after is_io True evs = sent_guard message"
    and "message = Some (Inr (Some g)) \<Longrightarrow> async_guard_fresh request options g \<and> ag_lease g = lease_new (aa_attempt a) (effective_ttl options)"
    and "message \<noteq> Some (Inr None)"
proof -
  obtain h evs1 where h: "async_handoff request options start a = (h, evs1)" by fastforce
  note held = async_handoff_facts(1) [OF h] and fresh = async_handoff_facts(2) [OF h]
  have "pending_after is_io True evs = sent_guard message \<and>
    (message = Some (Inr (Some g)) \<longrightarrow> async_guard_fresh request options g \<and> ag_lease g = lease_new (aa_attempt a) (effective_ttl options)) \<and>
    message \<noteq> Some (Inr None)"
  proof (cases h)
    case (Handoff_Sent g')
    with assms h held fresh show ?thesis by (auto simp: async_acquired_def)
  next
    case (Handoff_Rejected error)
    with assms h held show ?thesis by (auto simp: async_acquired_def)
  next
    case (Handoff_Abandoned g')
    obtain r g'' evs2 where rel: "async_guard_release (aa_release a) g' = (r, g'', evs2)"
      by (metis prod_cases3)
    have "pending_after is_io True (evs2 @ snd (async_guard_drop (aa_queued a) g'')) = False"
      using release_then_drop_held [OF _ rel] fresh Handoff_Abandoned by blast
    with assms h held rel Handoff_Abandoned show ?thesis by (auto simp: async_acquired_def)
  qed
  then show "pending_after is_io True evs = sent_guard message"
    and "message = Some (Inr (Some g)) \<Longrightarrow> async_guard_fresh request options g \<and> ag_lease g = lease_new (aa_attempt a) (effective_ttl options)"
    and "message \<noteq> Some (Inr None)"
    by blast+
qed

text \<open>The ways a pass of the supervising task can go.\<close>

lemma supervise_cases:
  assumes "supervise_acquisition request options once start (a # as) = Some (message, evs)"
  obtains
    (quiet) "message = None \<or> (\<exists>e. message = Some (Inl e))" "evs = []"
  | (failed) error where "aa_reply a = Inl error" "message = Some (Inl (acquire_error_from error))"
      "evs = [Sent_Acquire request (aa_reply a), Sent_Release request (aa_clean a)]"
  | (acquired) evs' where "aa_reply a = Inr True"
      "async_acquired request options start a = (message, evs')"
      "evs = Sent_Acquire request (aa_reply a) # evs'"
  | (taken) "aa_reply a = Inr False"
      "message = None \<or> (\<exists>e. message = Some (Inl e)) \<or> message = Some (Inr None) \<and> once"
      "evs = [Sent_Acquire request (aa_reply a)]"
  | (again) evs' where "aa_reply a = Inr False" "\<not> once"
      "supervise_acquisition request options once start as = Some (message, evs')"
      "evs = Sent_Acquire request (aa_reply a) # evs'"
proof (cases "aa_closed a \<or> \<not> aa_open1 a \<or> deadline_elapsed start (ao_lock_timeout options) (aa_now1 a)")
  case True
  with assms quiet show ?thesis by (auto split: if_splits)
next
  case False
  show ?thesis
  proof (cases "aa_reply a")
    case (Inl error)
    with assms False failed show ?thesis by auto
  next
    case (Inr b)
    show ?thesis
    proof (cases b)
      case True
      obtain m evs' where "async_acquired request options start a = (m, evs')" by fastforce
      with assms False Inr True acquired show ?thesis by (auto simp: more_async_def)
    next
      case b: False
      then have reply: "aa_reply a = Inr False" using Inr by simp
      show ?thesis
      proof (cases "once \<or> retry_select options start (aa_retry_start a) (aa_polls a) \<noteq> Some Retry_Due")
        case True
        with assms False reply taken [OF reply] show ?thesis
          by (auto split: if_splits option.splits retry_wake.splits)
      next
        case go: False
        with assms False reply have "map_option (more_async [Sent_Acquire request (aa_reply a)])
            (supervise_acquisition request options once start as) = Some (message, evs)"
          by simp
        with again [OF reply] go show ?thesis by (auto simp: more_async_def)
      qed
    qed
  qed
qed

text \<open>The acquisitions that were sent; only the loop sends them.\<close>

definition async_attempts_sent :: "async_attempt list \<Rightarrow> guard_event list \<Rightarrow> sent_command list" where
  "async_attempts_sent as evs = acquires_sent (List.map (\<lambda>a. (aa_attempt a, aa_reply a)) as) evs"

lemma async_attempts_sent_simps [simp]:
  "async_attempts_sent as [] = []"
  "async_attempts_sent (a # as) (Sent_Acquire r reply # evs) =
     (aa_attempt a, aa_reply a) # async_attempts_sent as evs"
  "filter is_acquire evs' = [] \<Longrightarrow> async_attempts_sent as (evs @ evs') = async_attempts_sent as evs"
  "filter is_acquire evs' = [] \<Longrightarrow> async_attempts_sent as evs' = []"
  by (simp_all add: async_attempts_sent_def)

lemma async_guard_new_silent: "filter is_acquire (snd (async_guard_new request lease options)) = []"
  by (auto simp: async_guard_new_def split: option.splits)

lemma async_guard_drop_silent [simp]: "filter is_acquire (snd (async_guard_drop queued g)) = []"
  by (simp add: async_guard_drop_def)

lemma async_guard_release_silent:
  "async_guard_release reply g = (r, g', evs) \<Longrightarrow> filter is_acquire evs = []"
  by (auto simp: async_guard_release_def Let_def split: if_splits release_wait.splits sum.splits)

lemma async_handoff_silent:
  "async_handoff request options start a = (h, evs) \<Longrightarrow> filter is_acquire evs = []"
  using async_guard_new_silent by (auto simp: async_handoff_def Let_def split: if_splits prod.splits)
    (metis snd_conv)+

lemma async_acquired_silent:
  "async_acquired request options start a = (message, evs) \<Longrightarrow> filter is_acquire evs = []"
  using async_handoff_silent async_guard_release_silent
  by (fastforce simp: async_acquired_def split: prod.splits handoff.splits)

lemma after_handoff_silent [simp]: "filter is_acquire (after_handoff accepted queued reply request message) = []"
  by (auto simp: after_handoff_def split: option.splits sum.splits)

lemma supervise_facts:
  assumes "supervise_acquisition request options once start as = Some (message, evs)"
  shows "pending_after (\<lambda>_. True) False evs = sent_guard message \<and>
    (message = Some (Inr (Some g)) \<longrightarrow> async_guard_fresh request options g \<and>
      acquired_lease (effective_ttl options) (async_attempts_sent as evs) [] (ag_lease g)) \<and>
    (message = Some (Inr None) \<longrightarrow> once)"
  using assms
proof (induction as arbitrary: evs)
  case (Cons a as)
  from Cons.prems show ?case
  proof (cases rule: supervise_cases)
    case (acquired evs')
    with async_acquired_facts [OF acquired(2)] async_acquired_silent [OF acquired(2)] acquired_lease_one
    show ?thesis by auto
  next
    case (again evs')
    with Cons.IH [OF again(3)] acquired_lease_Cons show ?thesis by auto
  qed auto
qed simp

lemma async_guard_after_simps [simp]:
  "async_guard_fresh request options (async_guard_after ops g) = async_guard_fresh request options g"
  "ag_lease (async_guard_after ops g) = lease_run ops (ag_lease g)"
  by (simp_all add: async_guard_after_def async_guard_fresh_def)

lemma after_handoff_held:
  assumes "\<And>g. message = Some (Inr (Some g)) \<Longrightarrow> async_guard_fresh request options g"
  shows "pending_after is_io b (after_handoff accepted queued reply request message) =
    (b \<and> \<not> (sent_guard message \<and> \<not> accepted))"
proof (cases "sent_guard message")
  case True
  then obtain g where "message = Some (Inr (Some g))" by (auto simp: sent_guard_def)
  then show ?thesis by (simp add: after_handoff_def)
next
  case False
  then show ?thesis
    by (auto simp: after_handoff_def sent_guard_def split: option.splits sum.splits)
qed

lemma check_result_facts:
  assumes "check_result options start e result = (r, accepted)"
  shows "accepted = sent_guard (Some r)"
    and "r = Inr (Some g) \<Longrightarrow> \<exists>h. result = Inr (Some h) \<and> g = async_guard_after (ae_renewals e) h"
    and "r = Inr (Some g) \<Longrightarrow> fst (lease_get_state (ae_lease_now e) (ag_lease g)) = Active"
    and "r = Inr None \<Longrightarrow> result = Inr None"
  using assms by (auto simp: check_result_def Let_def split: sum.splits if_splits option.splits)

lemma wake_result_no_guard [simp]: "\<not> sent_guard (wake_result w)" "wake_result w \<noteq> Some (Inr m)"
  by (cases w; simp)+

lemma async_acquire_internal_facts:
  assumes "async_acquire_internal uuid target options once start e = Some (r, evs)"
  shows "(\<not> task_stopped e \<longrightarrow> pending_after (\<lambda>_. True) False evs = sent_guard r) \<and>
    (task_stopped e \<longrightarrow> \<not> sent_guard r) \<and>
    (r = Some (Inr (Some g)) \<longrightarrow> async_guard_fresh \<lparr>lr_target = target, lr_uuid = uuid\<rparr> options g \<and>
      fst (lease_get_state (ae_lease_now e) (ag_lease g)) = Active \<and>
      acquired_lease (effective_ttl options) (async_attempts_sent (ae_attempts e) evs) (ae_renewals e) (ag_lease g)) \<and>
    (r = Some (Inr None) \<longrightarrow> once)"
proof -
  let ?request = "\<lparr>lr_target = target, lr_uuid = uuid\<rparr>"
  let ?after = "\<lambda>accepted. after_handoff accepted (ae_queued e) (ae_clean e) ?request"
  consider (quiet) error where "r = Some (Inl error)" "evs = []"
    | (stopped) "task_stopped e" "r = wake_result (ae_wake e)"
    | (ran) message evs1 where "\<not> task_stopped e"
      "supervise_acquisition ?request options once start (ae_attempts e) = Some (message, evs1)"
      "r = wake_result (ae_wake e) \<and> evs = evs1 @ ?after False message \<or>
       r = Some (Inl worker_stopped) \<and> message = None \<and> evs = evs1 \<or>
       (\<exists>result r1 accepted. message = Some result \<and> check_result options start e result = (r1, accepted) \<and>
          r = Some r1 \<and> evs = evs1 @ ?after accepted message)"
    using assms
    by (auto simp: async_acquire_internal_def Let_def
        split: if_splits sum.splits option.splits prod.splits)
  then show ?thesis
  proof cases
    case quiet
    then show ?thesis by simp
  next
    case stopped
    then show ?thesis by simp
  next
    case (ran message evs1)
    note sup = supervise_facts [OF ran(2)]
    have fresh: "async_guard_fresh ?request options h" if "message = Some (Inr (Some h))" for h
      using sup [of h] that by blast
    have after: "pending_after is_io b (?after accepted message) =
        (b \<and> \<not> (sent_guard message \<and> \<not> accepted))" for is_io b accepted
      using after_handoff_held [of message ?request options] fresh by blast
    from ran(3) show ?thesis
    proof (elim disjE exE conjE)
      fix result r1 accepted
      assume got: "message = Some result" "check_result options start e result = (r1, accepted)"
        "r = Some r1" "evs = evs1 @ ?after accepted message"
      note checked = check_result_facts [OF got(2)]
      have "pending_after (\<lambda>_. True) False evs = sent_guard r"
        using sup after [of "\<lambda>_. True" "sent_guard message" accepted] checked(1,2) got
        by (auto simp: sent_guard_def)
      moreover have "async_guard_fresh ?request options g \<and>
          fst (lease_get_state (ae_lease_now e) (ag_lease g)) = Active \<and>
          acquired_lease (effective_ttl options) (async_attempts_sent (ae_attempts e) evs) (ae_renewals e) (ag_lease g)"
        if "r = Some (Inr (Some g))"
      proof -
        have r1: "r1 = Inr (Some g)" using got(3) that by simp
        obtain h where h: "result = Inr (Some h)" "g = async_guard_after (ae_renewals e) h"
          using checked(2) [OF r1] by blast
        then have "async_guard_fresh ?request options h"
          "acquired_lease (effective_ttl options) (async_attempts_sent (ae_attempts e) evs) [] (ag_lease h)"
          using sup [of h] got(1,4) by simp_all
        from acquired_lease_more [OF this(2), of "ae_renewals e"] this(1) checked(3) [OF r1] h(2)
        show ?thesis by simp
      qed
      ultimately show ?thesis using sup checked(4) got ran(1) by simp
    qed (use sup after ran(1) in auto)
  qed
qed

subsection \<open>The supervising task ends\<close>

text \<open>
  The passes of a task whose clock does not run backwards and in which every wait between two attempts
  ends.
\<close>

fun attempts_served :: "acquire_options \<Rightarrow> instant \<Rightarrow> async_attempt list \<Rightarrow> bool" where
  "attempts_served options start (a # a' # as) =
     (aa_now1 a \<le> aa_retry_start a \<and> aa_retry_start a \<le> aa_now1 a' \<and>
      list_all (\<lambda>p. case ry_retry p of None \<Rightarrow> True | Some now \<Rightarrow> now \<le> aa_now1 a') (aa_polls a) \<and>
      retry_select options start (aa_retry_start a) (aa_polls a) \<noteq> None \<and>
      attempts_served options start (a' # as))"
| "attempts_served options start as = True"

lemma retry_select_due:
  assumes "retry_select options start retry_start ps = Some Retry_Due"
    and "list_all (\<lambda>p. case ry_retry p of None \<Rightarrow> True | Some now \<Rightarrow> now \<le> t) ps" and "retry_start \<le> t"
  shows "retry_start + ao_retry_interval options \<le> t"
  using assms
proof (induction ps)
  case (Cons p ps)
  then show ?case
    by (auto simp: fires_def deadline_elapsed_def elapsed_def split: if_splits option.splits)
qed simp

lemma supervise_running:
  assumes "supervise_acquisition request options once start (a # as) = None"
  shows "retry_select options start (aa_retry_start a) (aa_polls a) = None \<or>
    retry_select options start (aa_retry_start a) (aa_polls a) = Some Retry_Due \<and>
      supervise_acquisition request options once start as = None"
  using assms by (auto split: if_splits sum.splits option.splits retry_wake.splits)

lemma supervise_ends:
  assumes "ao_lock_timeout options = Some timeout" and "attempts_served options start as"
    and "start \<le> aa_now1 (hd as)"
    and "start + timeout \<le> aa_now1 (hd as) + n * ao_retry_interval options" and "n < length as"
  shows "supervise_acquisition request options once start as \<noteq> None"
  using assms(2-)
proof (induction n arbitrary: as)
  case 0
  then obtain a as' where as: "as = a # as'" by (cases as) auto
  with 0 have "deadline_elapsed start (ao_lock_timeout options) (aa_now1 a)"
    by (simp add: assms(1) deadline_elapsed_def elapsed_def)
  then show ?case by (simp add: as)
next
  case (Suc n)
  then obtain a a' as' where as: "as = a # a' # as'" by (cases as; cases "tl as") auto
  show ?case
  proof
    assume running: "supervise_acquisition request options once start as = None"
    with Suc.prems(1) supervise_running [of request options once start a "a' # as'"]
    have due: "retry_select options start (aa_retry_start a) (aa_polls a) = Some Retry_Due"
      and rest: "supervise_acquisition request options once start (a' # as') = None"
      by (auto simp: as simp del: supervise_acquisition.simps)
    have "aa_retry_start a + ao_retry_interval options \<le> aa_now1 a'"
      using due Suc.prems(1) by (auto simp: as intro: retry_select_due)
    with Suc.prems have "supervise_acquisition request options once start (a' # as') \<noteq> None"
      by (intro Suc.IH) (auto simp: as)
    with rest show False by simp
  qed
qed

text \<open>A wait for a deadline returns, one segment of at most a day after the other.\<close>

fun segments_served :: "instant \<Rightarrow> duration \<Rightarrow> instant list \<Rightarrow> bool" where
  "segments_served start timeout (now # now' # nows) =
     (now + min (timeout - elapsed now start) max_sleep \<le> now' \<and> segments_served start timeout (now' # nows))"
| "segments_served start timeout nows = True"

lemma wait_for_deadline_ends:
  assumes "segments_served start timeout nows" and "start \<le> hd nows"
    and "start + timeout \<le> hd nows + n * max_sleep" and "n < length nows"
  shows "snd (wait_for_deadline start (Some timeout) nows)"
  using assms
proof (induction n arbitrary: nows)
  case 0
  then obtain now nows' where "nows = now # nows'" by (cases nows) auto
  with 0 show ?case by (simp add: elapsed_def)
next
  case (Suc n)
  then obtain now now' nows' where nows: "nows = now # now' # nows'" by (cases nows; cases "tl nows") auto
  have "snd (wait_for_deadline start (Some timeout) (now' # nows'))" if "timeout - elapsed now start \<noteq> 0"
  proof (cases "timeout - elapsed now start \<le> max_sleep")
    case True
    with Suc.prems that have "start + timeout \<le> now'" by (auto simp: nows elapsed_def)
    then show ?thesis by (simp add: elapsed_def)
  next
    case False
    with Suc.prems have "now + max_sleep \<le> now'" by (auto simp: nows elapsed_def)
    with Suc.prems show ?thesis by (intro Suc.IH) (auto simp: nows)
  qed
  then show ?case by (auto simp: nows Let_def split: prod.splits)
qed

subsection \<open>Releasing and dropping a guard\<close>

text \<open>The calls of \<open>release\<close> on a guard, completed or dropped half-way, and then its drop.\<close>

fun async_release_calls :: "release_wait list \<Rightarrow> (send_error, unit) result \<Rightarrow> async_guard \<Rightarrow> async_guard \<times> guard_event list" where
  "async_release_calls [] queued g = async_guard_drop queued g"
| "async_release_calls (reply # replies) queued g =
     (case async_guard_release reply g of (r, g', evs) \<Rightarrow>
        (case async_release_calls replies queued g' of (g'', evs') \<Rightarrow> (g'', evs @ evs')))"

fun release_succeeded :: "release_wait \<Rightarrow> bool" where
  "release_succeeded (Replied (Inr b)) = True"
| "release_succeeded w = False"

lemma async_released_silent:
  "ag_is_released g \<Longrightarrow> l_state (ag_lease g) = Released \<Longrightarrow> snd (async_release_calls replies queued g) = [] \<and>
     l_state (ag_lease (fst (async_release_calls replies queued g))) = Released"
  by (induction replies arbitrary: g)
    (auto simp: async_guard_release_def async_guard_drop_def split: prod.splits)

lemma async_guard_release_cases:
  assumes "\<not> ag_is_released g" and "ag_sender g"
  obtains
    (success) r g' where "release_succeeded reply" "async_guard_release reply g = (r, g', [Sent_Release (ag_request g) (release_outcome reply)])"
      "ag_is_released g'" "l_state (ag_lease g') = Released"
  | (failure) r g' where "\<not> release_succeeded reply" "async_guard_release reply g = (r, g', [Sent_Release (ag_request g) (release_outcome reply)])"
      "\<not> ag_is_released g'" "ag_sender g'" "ag_request g' = ag_request g" "l_state (ag_lease g') \<noteq> Active"
  using assms
  by (cases reply rule: release_succeeded.cases)
    (auto simp: async_guard_release_def stop_renewal_def lease_release_def lease_notify_def Let_def)

lemma async_release_calls_sends:
  "\<not> ag_is_released g \<Longrightarrow> ag_sender g \<Longrightarrow>
     snd (async_release_calls replies queued g) =
       List.map (\<lambda>w. Sent_Release (ag_request g) (release_outcome w)) (upto_first release_succeeded replies) @
       (if list_ex release_succeeded replies then [] else [Queue_Release (ag_request g) queued]) \<and>
     l_state (ag_lease (fst (async_release_calls replies queued g))) = Released"
proof (induction replies arbitrary: g)
  case Nil
  then show ?case by (simp add: async_guard_drop_def stop_renewal_def lease_simps)
next
  case (Cons reply replies)
  from Cons.prems show ?case
  proof (cases rule: async_guard_release_cases [where reply = reply])
    case (success r g')
    with async_released_silent [of g' replies queued] show ?thesis by (auto split: prod.splits)
  next
    case (failure r g')
    with Cons.IH [of g'] show ?thesis by (auto split: prod.splits)
  qed
qed

subsection \<open>Properties\<close>

text \<open>
  C6: An async acquisition never leaks a lock, whichever error, timeout, shutdown or cancellation it
  meets, and whether or not the future of the caller is dropped. After everything that the task and the
  caller send, a lock of the request can be in Redis for which no release was confirmed or queued, if the caller
  got a guard; otherwise only if a release failed or found the queue full or closed, or the task was stopped
  half-way by a panic or the end of its runtime, and then the lock is over after its TTL (C8). An acquisition that
  failed with any error counts as applied.
\<close>

theorem async_acquire_leaks_nothing:
  assumes "async_acquire_internal uuid target options once start e = Some (r, evs)"
  shows "(sent_guard r \<longrightarrow> held_after (\<lambda>_. True) False evs) \<and>
    (held_after (\<lambda>_. True) False evs \<longrightarrow> sent_guard r \<or> list_ex release_failed evs \<or> task_stopped e)"
  using async_acquire_internal_facts [OF assms] held_iff_pending [of "\<lambda>_. True" evs "sent_guard r"] by blast

text \<open>
  C19: A guard that an async acquisition returns is for the requested lock, is not released, will give the
  lock back when it is dropped, has a renewal task exactly if a renewal interval is in effect, and its
  lease is active at the last check. The last acquisition that was sent is the one that Redis answered with
  success; the lease starts at the instant read before it with the full TTL, and only the renewal task has
  touched it since. Only a single attempt reports that the lock is taken.
\<close>

theorem async_acquired_guard:
  "async_acquire_internal uuid target options once start e = Some (r, evs) \<Longrightarrow>
     (r = Some (Inr (Some g)) \<longrightarrow> async_guard_fresh \<lparr>lr_target = target, lr_uuid = uuid\<rparr> options g \<and>
       fst (lease_get_state (ae_lease_now e) (ag_lease g)) = Active \<and>
       acquired_lease (effective_ttl options) (async_attempts_sent (ae_attempts e) evs) (ae_renewals e) (ag_lease g)) \<and>
     (r = Some (Inr None) \<longrightarrow> once)"
  using async_acquire_internal_facts by blast

text \<open>
  C29: With a lock timeout an async acquisition returns: if the clock does not run backwards and every wait
  between two attempts ends, \<open>n + 1\<close> passes are enough when \<open>n\<close> retry intervals fill the timeout.
\<close>

theorem async_acquire_ends:
  assumes "ao_lock_timeout options = Some timeout"
    and "attempts_served options start (ae_attempts e)" and "start \<le> aa_now1 (hd (ae_attempts e))"
    and "timeout \<le> n * ao_retry_interval options" and "n < length (ae_attempts e)"
  shows "async_acquire_internal uuid target options once start e \<noteq> None"
proof -
  have "supervise_acquisition request options once start (ae_attempts e) \<noteq> None" for request
    using assms by (intro supervise_ends [where n = n]) auto
  then have "\<exists>message evs. supervise_acquisition request options once start (ae_attempts e) = Some (message, evs)"
    for request by auto
  then obtain message evs where "supervise_acquisition \<lparr>lr_target = target, lr_uuid = uuid\<rparr> options once start
      (ae_attempts e) = Some (message, evs)" by blast
  then show ?thesis
    by (simp add: async_acquire_internal_def Let_def split: sum.splits option.splits prod.splits caller_wake.splits)
qed

text \<open>
  C23: An async guard gives its lock back. However many times \<open>release\<close> is called, completed, failed or
  with its future dropped half-way, it sends a release per call until the first that succeeds and nothing
  after it; the drop puts a release into the queue exactly if none succeeded (and if the queue takes it,
  \<open>queued\<close>). In the end the lease is released.
\<close>

theorem async_guard_gives_back:
  assumes "async_guard_fresh request options g"
  shows "snd (async_release_calls replies queued g) =
      List.map (\<lambda>w. Sent_Release request (release_outcome w)) (upto_first release_succeeded replies) @
      (if list_ex release_succeeded replies then [] else [Queue_Release request queued]) \<and>
    l_state (ag_lease (fst (async_release_calls replies queued g))) = Released"
  using async_release_calls_sends [of g replies queued] assms by (auto simp: async_guard_fresh_def)

subsection \<open>Examples\<close>

definition async_options :: acquire_options where
  "async_options =
     \<lparr>ao_retry_interval = from_millis 1, ao_lock_timeout = Some (from_millis 2),
      ao_ttl = from_millis 10, ao_renew_interval = None\<rparr>"

definition async_pass :: "instant \<Rightarrow> (string, bool) result \<Rightarrow> async_attempt" where
  "async_pass now reply =
     \<lparr>aa_closed = False, aa_open1 = True, aa_now1 = now, aa_attempt = now + 1, aa_reply = reply,
      aa_admission = True, aa_open2 = True, aa_now2 = now + 2, aa_lease_now = now + 2, aa_delivered = True,
      aa_clean = Inr True, aa_release = Task_Stopped, aa_queued = Inr (), aa_retry_start = now + 3,
      aa_polls = [\<lparr>ry_closed = False, ry_shutdown = False, ry_deadline = None, ry_retry = None\<rparr>,
                  \<lparr>ry_closed = False, ry_shutdown = False, ry_deadline = None,
                   ry_retry = Some (now + 1000003)\<rparr>]\<rparr>"

definition async_example :: "async_attempt list \<Rightarrow> caller_wake \<Rightarrow> async_env" where
  "async_example attempts wake =
     \<lparr>ae_start_now = 0, ae_admitted = Inr (), ae_attempts = attempts, ae_wake = wake, ae_task = Ran_To_End,
      ae_now = 1000010, ae_open = True, ae_renewals = [], ae_lease_now = 1000011, ae_queued = Inr (), ae_clean = Inr True\<rparr>"

definition async_request :: lock_request where
  "async_request = \<lparr>lr_target = Write ''doc'', lr_uuid = ''u''\<rparr>"

definition async_held :: async_guard where
  "async_held =
     \<lparr>ag_request = async_request, ag_lease = lease_new 1000004 10000000, ag_sender = True,
      ag_stop_tx = False, ag_is_released = False\<rparr>"

lemmas async_example_defs =
  task_stopped_def async_options_def async_pass_def async_example_def async_acquire_internal_def async_acquired_def
  async_handoff_def async_guard_new_def after_handoff_def async_guard_drop_def stop_renewal_def
  check_result_def async_guard_after_def more_async_def deadline_elapsed_def fires_def lease_new_def effective_ttl_def
  effective_renew_interval_def as_u64_def from_millis_def nanos_per_milli_def as_millis_def lease_simps

text \<open>The lock is taken at first, and acquired after one retry interval; then the caller is gone.\<close>

lemma async_example_dropped:
  "async_acquire_internal ''u'' (Write ''doc'') async_options False 0
     (async_example [async_pass 0 (Inr False), async_pass 1000003 (Inr True)] Future_Dropped) =
   Some (None, [Sent_Acquire async_request (Inr False), Sent_Acquire async_request (Inr True),
                Queue_Release async_request (Inr ()), Sent_Release async_request (Inr True)])"
  by (simp add: async_example_defs async_request_def)

theorem async_acquire_leaks_nothing_witness:
  "\<not> held_after (\<lambda>_. True) False
     [Sent_Acquire async_request (Inr False), Sent_Acquire async_request (Inr True),
      Queue_Release async_request (Inr ()), Sent_Release async_request (Inr True)]"
  using async_acquire_leaks_nothing [OF async_example_dropped]
  by (simp add: task_stopped_def async_example_def)

lemma async_example_got:
  "async_acquire_internal ''u'' (Write ''doc'') async_options False 0
     (async_example [async_pass 0 (Inr False), async_pass 1000003 (Inr True)] Got_Result) =
   Some (Some (Inr (Some async_held)), [Sent_Acquire async_request (Inr False), Sent_Acquire async_request (Inr True)])"
  by (simp add: async_example_defs async_request_def async_held_def)

theorem async_acquired_guard_witness:
  "async_guard_fresh async_request async_options async_held"
  using async_acquired_guard [OF async_example_got] by (simp add: async_request_def)

theorem async_acquire_ends_witness:
  "async_acquire_internal ''u'' (Write ''doc'') async_options False 0
     (async_example [async_pass 0 (Inr False), async_pass 1000003 (Inr False), async_pass 2000006 (Inr False)]
        Saw_Deadline) \<noteq> None"
proof -
  let ?e = "async_example [async_pass 0 (Inr False), async_pass 1000003 (Inr False),
    async_pass 2000006 (Inr False)] Saw_Deadline"
  have "attempts_served async_options 0 (ae_attempts ?e)"
    by (simp add: async_example_defs)
  moreover have "ao_lock_timeout async_options = Some (from_millis 2)"
    "0 \<le> aa_now1 (hd (ae_attempts ?e))" "from_millis 2 \<le> 2 * ao_retry_interval async_options"
    "2 < length (ae_attempts ?e)"
    by (simp_all add: async_options_def async_example_def from_millis_def)
  ultimately show ?thesis using async_acquire_ends by blast
qed

theorem async_guard_gives_back_witness:
  "snd (async_release_calls [Call_Dropped (Inr True), Replied (Inl ''timeout'')] (Inl Queue_Closed) async_held) =
     [Sent_Release async_request (Inr True), Sent_Release async_request (Inl ''timeout''),
      Queue_Release async_request (Inl Queue_Closed)]"
proof -
  have "async_guard_fresh async_request async_options async_held"
    by (simp add: async_guard_fresh_def async_held_def async_example_defs)
  from async_guard_gives_back [OF this, of "[Call_Dropped (Inr True), Replied (Inl ''timeout'')]" "Inl Queue_Closed"]
  show ?thesis
    by (simp del: async_release_calls.simps)
qed

end
