(* ===== verification/Async_Renewal.thy ===== *)
theory Async_Renewal
  imports Async_Guard
begin

text \<open>
  The renewal task that \<open>GuardData::new\<close> of \<open>src/async_lock/guard.rs\<close> spawns: a \<open>select!\<close> over the stop
  channel, the end of the lease and the time of the next renewal, and then the renewal that both variants
  share. The loop runs over the list of its passes, the \<open>select!\<close> of a pass over the list of its polls.
\<close>

subsection \<open>The wait\<close>

text \<open>
  A poll: what the other tasks did to the lease before it, whether the stop channel has a message or its
  end, the clock in \<open>state()\<close> and \<open>remaining()\<close> when \<open>wait_until_inactive\<close> is woken, and the clock in
  \<open>wait_for_deadline\<close> when its timer fires.
\<close>

record renewal_poll =
  rq_others :: "lease_op list"
  rq_stop :: bool
  rq_inactive :: "(instant \<times> instant \<times> instant) option"
  rq_deadline :: "instant option"

datatype renewal_wake = Wake_Stop | Wake_Inactive | Wake_Deadline

definition poll_inactive :: "renewal_poll \<Rightarrow> lease \<Rightarrow> bool \<times> lease" where
  "poll_inactive p l =
     (case rq_inactive p of
        None \<Rightarrow> (False, l)
      | Some (now, now1, now2) \<Rightarrow>
          (case lease_get_state now l of (st, l') \<Rightarrow>
            if st \<noteq> Active then (True, l') else (False, snd (lease_remaining now1 now2 l'))))"

fun renewal_select :: "instant \<Rightarrow> duration \<Rightarrow> renewal_poll list \<Rightarrow> lease \<Rightarrow> renewal_wake option \<times> lease" where
  "renewal_select wait_start wait [] l = (None, l)"
| "renewal_select wait_start wait (p # ps) l =
     (let l1 = lease_run (rq_others p) l in
      if rq_stop p then (Some Wake_Stop, l1)
      else
        (case poll_inactive p l1 of (inactive, l2) \<Rightarrow>
          if inactive then (Some Wake_Inactive, l2)
          else if fires wait_start (Some wait) (rq_deadline p) then (Some Wake_Deadline, l2)
          else renewal_select wait_start wait ps l2))"

subsection \<open>The loop\<close>

record async_renew_pass = renew_pass +
  rp_polls :: "renewal_poll list"

fun async_renewal :: "lock_request \<Rightarrow> duration \<Rightarrow> duration \<Rightarrow> duration \<Rightarrow> instant \<Rightarrow> duration \<Rightarrow>
    async_renew_pass list \<Rightarrow> lease \<Rightarrow> renewal_end option \<times> lease \<times> guard_event list" where
  "async_renewal request interval retry_interval ttl wait_start wait [] l = (None, l, [])"
| "async_renewal request interval retry_interval ttl wait_start wait (e # es) l =
     (case renewal_select wait_start wait (rp_polls e) l of
        (None, l1) \<Rightarrow> (None, l1, [])
      | (Some Wake_Stop, l1) \<Rightarrow> (Some Stop_Signal, l1, [])
      | (Some Wake_Inactive, l1) \<Rightarrow> (Some Inactive_Lease, l1, [])
      | (Some Wake_Deadline, l1) \<Rightarrow>
          (case renew_once request interval retry_interval ttl e l1 of
             (Inl end_reason, l2, evs) \<Rightarrow> (Some end_reason, l2, evs)
           | (Inr (wait_start', wait'), l2, evs) \<Rightarrow>
               (case async_renewal request interval retry_interval ttl wait_start' wait' es l2 of
                  (r, l3, evs') \<Rightarrow> (r, l3, evs @ evs'))))"

text \<open>The task of a guard whose lock was acquired by a command sent at \<open>start\<close>.\<close>

definition async_renewal_task :: "lock_request \<Rightarrow> acquire_options \<Rightarrow> instant \<Rightarrow> duration \<Rightarrow>
    async_renew_pass list \<Rightarrow> lease \<Rightarrow> renewal_end option \<times> lease \<times> guard_event list" where
  "async_renewal_task request options start interval es l =
     async_renewal request interval (ao_retry_interval options) (effective_ttl options) start interval es l"

subsection \<open>Facts\<close>

text \<open>The other tasks only read the lease, lose it or release it.\<close>

definition only_task_renews :: "async_renew_pass list \<Rightarrow> bool" where
  "only_task_renews es \<longleftrightarrow>
     list_all (\<lambda>e. \<not> list_ex is_renew (rp_during e) \<and>
       list_all (\<lambda>p. \<not> list_ex is_renew (rq_others p)) (rp_polls e)) es"

lemma poll_inactive_facts:
  assumes "poll_inactive p l = (inactive, l')"
  shows "l_start l' = l_start l" and "l_ttl l' = l_ttl l" and "l_state l \<le> l_state l'"
    and "inactive \<Longrightarrow> l_state l' \<noteq> Active"
  using assms lease_monotone
  by (auto simp: poll_inactive_def lease_simps split: option.splits if_splits)

lemma renewal_select_facts:
  assumes "renewal_select wait_start wait ps l = (w, l')"
  shows "l_state l \<le> l_state l'" and "w = Some Wake_Inactive \<Longrightarrow> l_state l' \<noteq> Active"
    and "list_all (\<lambda>p. \<not> list_ex is_renew (rq_others p)) ps \<Longrightarrow>
      l_start l' = l_start l \<and> l_ttl l' = l_ttl l"
proof -
  have "l_state l \<le> l_state l' \<and> (w = Some Wake_Inactive \<longrightarrow> l_state l' \<noteq> Active) \<and>
    (list_all (\<lambda>p. \<not> list_ex is_renew (rq_others p)) ps \<longrightarrow>
      l_start l' = l_start l \<and> l_ttl l' = l_ttl l)"
    using assms
  proof (induction ps arbitrary: l)
    case (Cons p ps)
    let ?l1 = "lease_run (rq_others p) l"
    obtain inactive l2 where poll: "poll_inactive p ?l1 = (inactive, l2)" by fastforce
    note p = poll_inactive_facts [OF poll]
    have up: "l_state l \<le> l_state l2"
      using lease_run_monotone p(3) by (rule order_trans)
    show ?case
    proof (cases "rq_stop p \<or> inactive \<or> fires wait_start (Some wait) (rq_deadline p)")
      case True
      with Cons.prems poll p up lease_run_monotone [of l "rq_others p"] lease_run_period [of "rq_others p" l]
      show ?thesis by (auto simp: Let_def split: if_splits)
    next
      case False
      with Cons.prems poll have "renewal_select wait_start wait ps l2 = (w, l')" by (simp add: Let_def)
      from Cons.IH [OF this] up p lease_run_period [of "rq_others p" l] show ?thesis by auto
    qed
  qed simp
  then show "l_state l \<le> l_state l'" and "w = Some Wake_Inactive \<Longrightarrow> l_state l' \<noteq> Active"
    and "list_all (\<lambda>p. \<not> list_ex is_renew (rq_others p)) ps \<Longrightarrow>
      l_start l' = l_start l \<and> l_ttl l' = l_ttl l"
    by blast+
qed

text \<open>The ways a pass of the loop can go.\<close>

lemma async_renewal_cases:
  assumes "async_renewal request interval retry_interval ttl wait_start wait (e # es) l = (r, l', evs)"
  obtains
    (waits) w where "renewal_select wait_start wait (rp_polls e) l = (w, l')" "w \<noteq> Some Wake_Deadline"
      "r = (case w of None \<Rightarrow> None | Some Wake_Stop \<Rightarrow> Some Stop_Signal | _ \<Rightarrow> Some Inactive_Lease)" "evs = []"
  | (ended) end_reason l1 where "renewal_select wait_start wait (rp_polls e) l = (Some Wake_Deadline, l1)"
      "renew_once request interval retry_interval ttl e l1 = (Inl end_reason, l', evs)" "r = Some end_reason"
  | (goes_on) wait_start' wait' l1 l2 evs1 evs2 where
      "renewal_select wait_start wait (rp_polls e) l = (Some Wake_Deadline, l1)"
      "renew_once request interval retry_interval ttl e l1 = (Inr (wait_start', wait'), l2, evs1)"
      "async_renewal request interval retry_interval ttl wait_start' wait' es l2 = (r, l', evs2)"
      "evs = evs1 @ evs2"
proof -
  obtain w l1 where sel: "renewal_select wait_start wait (rp_polls e) l = (w, l1)" by fastforce
  show ?thesis
  proof (cases "w = Some Wake_Deadline")
    case False
    with assms sel show ?thesis
      by (intro waits [of w]) (auto split: option.splits renewal_wake.splits)
  next
    case True
    obtain r1 l2 evs1 where once: "renew_once request interval retry_interval ttl e l1 = (r1, l2, evs1)"
      by (metis prod_cases3)
    show ?thesis
    proof (cases r1)
      case (Inl end_reason)
      with assms sel True once ended show ?thesis by auto
    next
      case (Inr w')
      obtain wait_start' wait' where w': "w' = (wait_start', wait')" by (cases w')
      obtain r2 l3 evs2 where rest: "async_renewal request interval retry_interval ttl wait_start' wait' es l2 = (r2, l3, evs2)"
        by (metis prod_cases3)
      with assms sel True once Inr w' have "r2 = r" "l3 = l'" "evs = evs1 @ evs2" by simp_all
      with goes_on sel True once rest Inr w' show ?thesis by simp
    qed
  qed
qed

lemma async_renewal_period:
  assumes "async_renewal request interval retry_interval ttl wait_start wait es l = (r, l', evs)"
    and "only_task_renews es"
  shows "honest_period ttl (renewals_sent es evs) l l'"
  using assms
proof (induction es arbitrary: wait_start wait l evs)
  case Nil
  then show ?case by (simp add: honest_period_def)
next
  case (Cons e es)
  have others: "\<not> list_ex is_renew (rp_during e)" "list_all (\<lambda>p. \<not> list_ex is_renew (rq_others p)) (rp_polls e)"
    "only_task_renews es"
    using Cons.prems(2) by (simp_all add: only_task_renews_def)
  note sel = renewal_select_facts(3) [OF _ others(2)]
  from Cons.prems(1) show ?case
  proof (cases rule: async_renewal_cases)
    case (waits w)
    with sel [OF waits(1)] show ?thesis by (simp add: honest_period_same)
  next
    case (ended end_reason l1)
    from honest_period_from [OF renew_once_period [OF ended(2) others(1)] sel [OF ended(1)]] show ?thesis .
  next
    case (goes_on wait_start' wait' l1 l2 evs1 evs2)
    note sent = renew_once_goes_on [OF goes_on(2)]
    from honest_period_from [OF honest_period_trans [OF renew_once_period [OF goes_on(2) others(1)]
        Cons.IH [OF goes_on(3) others(3)]] sel [OF goes_on(1)]]
    show ?thesis by (simp add: goes_on(4) sent)
  qed
qed

lemma async_renewal_state:
  assumes "async_renewal request interval retry_interval ttl wait_start wait es l = (r, l', evs)"
  shows "l_state l \<le> l_state l' \<and>
    (\<forall>end_reason. r = Some end_reason \<longrightarrow> end_reason = Stop_Signal \<or> l_state l' \<noteq> Active)"
  using assms
proof (induction es arbitrary: wait_start wait l evs)
  case (Cons e es)
  from Cons.prems show ?case
  proof (cases rule: async_renewal_cases)
    case (waits w)
    with renewal_select_facts(1,2) [OF waits(1)] show ?thesis
      by (auto split: option.splits renewal_wake.splits)
  next
    case (ended end_reason l1)
    with renewal_select_facts(1) [OF ended(1)] renew_once_monotone [OF ended(2)] renew_once_end [OF ended(2)]
    show ?thesis by (auto intro: order_trans)
  next
    case (goes_on wait_start' wait' l1 l2 evs1 evs2)
    with renewal_select_facts(1) [OF goes_on(1)] renew_once_monotone [OF goes_on(2)] Cons.IH [OF goes_on(3)]
    show ?thesis by (blast intro: order_trans)
  qed
qed simp

text \<open>An inactive lease is never renewed.\<close>

lemma async_renewal_silent:
  assumes "l_state l \<noteq> Active"
    and "async_renewal request interval retry_interval ttl wait_start wait es l = (r, l', evs)"
  shows "evs = []"
proof (cases es)
  case (Cons e es')
  from assms(2) [unfolded Cons] show ?thesis
  proof (cases rule: async_renewal_cases)
    case (ended end_reason l1)
    with renewal_select_facts(1) [OF ended(1)] assms(1) renew_once_sends [OF ended(2)]
    show ?thesis by (cases "l_state l") auto
  next
    case (goes_on wait_start' wait' l1 l2 evs1 evs2)
    have "l_state l1 \<noteq> Active"
      using renewal_select_facts(1) [OF goes_on(1)] assms(1) by (cases "l_state l") auto
    with goes_on(2) show ?thesis by (cases rule: renew_once_cases) auto
  qed
qed (use assms(2) in simp)

subsection \<open>A punctual task keeps the lock\<close>

text \<open>
  The polls of a wait in which nobody stops the task or touches the lease except by reading it, no clock is
  read after \<open>t\<close>, and the timer of the next renewal fires.
\<close>

fun wakes_by :: "instant \<Rightarrow> duration \<Rightarrow> instant \<Rightarrow> renewal_poll list \<Rightarrow> bool" where
  "wakes_by wait_start wait t [] = False"
| "wakes_by wait_start wait t (p # ps) =
     (\<not> rq_stop p \<and> list_all (reads_until t) (rq_others p) \<and>
      (case rq_inactive p of None \<Rightarrow> True | Some (now, now1, now2) \<Rightarrow> now \<le> t \<and> now1 \<le> t) \<and>
      (fires wait_start (Some wait) (rq_deadline p) \<or> wakes_by wait_start wait t ps))"

text \<open>
  \<open>async_punctual lag interval start es\<close>: every wait ends in time, and every pass is prompt.
\<close>

fun async_punctual :: "duration \<Rightarrow> duration \<Rightarrow> instant \<Rightarrow> async_renew_pass list \<Rightarrow> bool" where
  "async_punctual lag interval start [] = True"
| "async_punctual lag interval start (e # es) =
     (wakes_by start interval (rp_state_now e) (rp_polls e) \<and>
      rp_state_now e \<le> start + interval + 2 * lag \<and> prompt lag e \<and>
      async_punctual lag interval (rp_attempt e) es)"

lemma async_punctual_paced: "async_punctual lag interval start es \<Longrightarrow> paced lag interval start es"
  by (induction es arbitrary: start) auto

lemma wakes_by_select:
  assumes "runs_from start ttl l" and "t < start + ttl"
  shows "wakes_by wait_start wait t ps \<Longrightarrow> renewal_select wait_start wait ps l = (Some Wake_Deadline, l)"
proof (induction ps)
  case (Cons p ps)
  have others: "lease_run (rq_others p) l = l"
    using Cons.prems runs_from_reads [OF assms] by simp
  have "poll_inactive p l = (False, l)"
  proof (cases "rq_inactive p")
    case (Some r)
    obtain now now1 now2 where r: "r = (now, now1, now2)" by (cases r)
    have "lease_refresh now l = l" "lease_refresh now1 l = l"
      using Cons.prems Some r assms(2) by (auto intro: runs_from_refresh [OF assms(1)])
    moreover have "l_state l = Active" using assms(1) by (simp add: runs_from_def)
    ultimately show ?thesis
      by (simp add: poll_inactive_def Some r lease_get_state_def lease_remaining_def Let_def)
  qed (simp add: poll_inactive_def)
  with Cons others show ?case by (auto simp: Let_def)
qed simp

lemma async_renewal_keeps:
  assumes "runs_from start ttl l" and "async_punctual lag interval start es" and "interval + 3 * lag < ttl"
    and "list_all (\<lambda>e. rp_reply e = Inr True) es"
  shows "\<exists>l' evs. async_renewal request interval retry_interval ttl start interval es l = (None, l', evs) \<and>
    runs_from (last (start # List.map rp_attempt es)) ttl l'"
  using assms(1,2,4)
proof (induction es arbitrary: start l)
  case (Cons e es)
  have pace: "prompt lag e" "rp_state_now e + lag < start + ttl" "rp_state_now e < start + ttl"
    using Cons.prems(2) assms(3) by auto
  have reply: "rp_reply e = Inr True" "lag < ttl" using Cons.prems(3) assms(3) by simp_all
  have "renewal_select start interval (rp_polls e) l = (Some Wake_Deadline, l)"
    using wakes_by_select [OF Cons.prems(1) pace(3)] Cons.prems(2) by simp
  moreover obtain l1 where "renew_once request interval retry_interval ttl e l =
      (Inr (rp_attempt e, interval), l1, [Sent_Renew request (Inr True)])" "runs_from (rp_attempt e) ttl l1"
    using prompt_renew_once [OF Cons.prems(1) pace(1,2) reply] by blast
  moreover from Cons.IH [OF this(2)] Cons.prems(2,3) obtain l2 evs where
    "async_renewal request interval retry_interval ttl (rp_attempt e) interval es l1 = (None, l2, evs)"
    "runs_from (last (rp_attempt e # List.map rp_attempt es)) ttl l2" by auto
  ultimately show ?case by auto
qed simp

subsection \<open>Properties\<close>

text \<open>
  C15: The renewal task never claims more time than Redis granted, through any replies, errors, late
  wake-ups and interference: the lease keeps its period, or has the full TTL from the instant before a
  renewal was sent that Redis confirmed. Its state only moves on, the task gives up only an inactive lease,
  and an inactive lease is never renewed.
\<close>

theorem async_renewal_honest:
  assumes "async_renewal_task request options start interval es l = (r, l', evs)"
    and "only_task_renews es"
  shows "honest_period (effective_ttl options) (renewals_sent es evs) l l' \<and> l_state l \<le> l_state l' \<and>
    (\<forall>end_reason. r = Some end_reason \<longrightarrow> end_reason = Stop_Signal \<or> l_state l' \<noteq> Active) \<and>
    (l_state l \<noteq> Active \<longrightarrow> evs = [])"
proof -
  note run = assms(1) [unfolded async_renewal_task_def]
  show ?thesis
    using async_renewal_period [OF run assms(2)] async_renewal_state [OF run] async_renewal_silent [OF _ run]
    by blast
qed

definition async_renewal_example :: "async_renew_pass list" where
  "async_renewal_example =
     [\<lparr>rp_state_now = 500, rp_attempt = 501, rp_reply = Inr True, rp_during = [], rp_renew_now1 = 502,
       rp_renew_now2 = 502, rp_error_now = 0, rp_left_now1 = 0, rp_left_now2 = 0,
       rp_polls = [\<lparr>rq_others = [], rq_stop = False, rq_inactive = Some (1, 1, 1), rq_deadline = Some 1\<rparr>,
                   \<lparr>rq_others = [Op_State 499], rq_stop = False, rq_inactive = None, rq_deadline = Some 500\<rparr>]\<rparr>,
      \<lparr>rp_state_now = 0, rp_attempt = 0, rp_reply = Inr True, rp_during = [], rp_renew_now1 = 0,
       rp_renew_now2 = 0, rp_error_now = 0, rp_left_now1 = 0, rp_left_now2 = 0,
       rp_polls = [\<lparr>rq_others = [Op_Lose], rq_stop = True, rq_inactive = None, rq_deadline = None\<rparr>]\<rparr>]"

definition async_renewal_options :: acquire_options where
  "async_renewal_options =
     \<lparr>ao_retry_interval = 100, ao_lock_timeout = None, ao_ttl = from_millis 1,
      ao_renew_interval = Some (Some 500)\<rparr>"

lemma async_renewal_options_ttl: "effective_ttl async_renewal_options = 1000000"
  by (simp add: effective_ttl_def async_renewal_options_def as_u64_def)
    (simp add: from_millis_def nanos_per_milli_def)

lemma async_renewal_example_run:
  "async_renewal_task async_request async_renewal_options 0 500 async_renewal_example (lease_new 0 1000000) =
     (Some Stop_Signal, \<lparr>l_state = Lost, l_start = 501, l_ttl = 1000000, l_changed = 2\<rparr>,
      [Sent_Renew async_request (Inr True)])"
  by (simp add: async_renewal_task_def async_renewal_options_ttl)
    (simp add: async_renewal_example_def renew_once_def poll_inactive_def fires_def deadline_elapsed_def
      lease_new_def lease_simps)

theorem async_renewal_honest_witness:
  "honest_period 1000000 [(501, Inr True)] (lease_new 0 1000000)
     \<lparr>l_state = Lost, l_start = 501, l_ttl = 1000000, l_changed = 2\<rparr>"
  using async_renewal_honest [OF async_renewal_example_run]
  by (simp add: async_renewal_options_ttl only_task_renews_def async_renewal_example_def renewals_sent_def)

end
