(* ===== verification/Async_Api.thy ===== *)
theory Async_Api
  imports Async_Guard Api_Calls
begin

text \<open>
  The locks of the async variant, \<open>src/async_lock/lock.rs\<close>, \<open>rw_lock.rs\<close>, \<open>multi_key_lock.rs\<close> and
  \<open>multi_key_rw_lock.rs\<close>: six kinds of guards around \<open>GuardData\<close>, each with four functions that acquire
  it. An \<open>async_call\<close> is what a call finds: whether it is a debug build, its uuid, its start and its
  environment.
\<close>

record async_call =
  ac_debug :: bool
  ac_uuid :: uuid
  ac_start :: instant
  ac_env :: async_env

text \<open>\<open>acquire_internal\<close> with its debug assertion, which runs when the future is polled first.\<close>

definition async_acquire :: "async_call \<Rightarrow> lock_target \<Rightarrow> acquire_options \<Rightarrow> bool \<Rightarrow>
    (acquire_failure, async_guard option) result call" where
  "async_acquire c target options once =
     assert_keys (ac_debug c) (target_keys target)
       (map_option (\<lambda>(r, evs). (case r of None \<Rightarrow> Is_Dropped | Some r \<Rightarrow> Completes r, evs))
          (async_acquire_internal (ac_uuid c) target options once (ac_start c) (ac_env c)))"

definition async_owns :: "async_call \<Rightarrow> lock_target \<Rightarrow> acquire_options \<Rightarrow> async_guard \<Rightarrow> bool" where
  "async_owns c target options g \<longleftrightarrow>
     async_guard_fresh \<lparr>lr_target = target, lr_uuid = ac_uuid c\<rparr> options g \<and>
     fst (lease_get_state (ae_lease_now (ac_env c)) (ag_lease g)) = Active"

lemma async_body_completes:
  "map_option (\<lambda>(r, evs). (case r of None \<Rightarrow> Is_Dropped | Some r \<Rightarrow> Completes r, evs)) x = Some (Completes r, evs) \<Longrightarrow>
     x = Some (Some r, evs)"
  by (auto split: option.splits)

interpretation async_acq: acquisition "async_acquire c" "async_owns c" "ac_debug c" for c
proof
  fix target options once evs
  assume "async_acquire c target options once = Some (Completes (Inr None), evs)"
  from async_body_completes [OF assert_keys_ends [OF this [unfolded async_acquire_def]]] show once
    using async_acquire_internal_facts by blast
next
  fix target options once d evs
  assume "async_acquire c target options once = Some (Completes (Inr (Some d)), evs)"
  from async_body_completes [OF assert_keys_ends [OF this [unfolded async_acquire_def]]]
  show "async_owns c target options d"
    using async_acquire_internal_facts by (auto simp: async_owns_def)
next
  fix target options once m evs
  assume "async_acquire c target options once = Some (Panics m, evs)"
  from assert_keys_panics [OF this [unfolded async_acquire_def]]
  show "ac_debug c \<and> validate (target_keys target) \<noteq> Inr () \<and> evs = []"
    by (auto split: option.splits)
qed

subsection \<open>Mutexes\<close>

datatype async_rlock_guard = Async_RLockGuard async_guard

fun async_rlock_guard_release :: "release_wait \<Rightarrow> async_rlock_guard \<Rightarrow>
    (release_failure, unit) result option \<times> async_rlock_guard \<times> guard_event list" where
  "async_rlock_guard_release reply (Async_RLockGuard data) =
     (case async_guard_release reply data of (r, data', evs) \<Rightarrow> (r, Async_RLockGuard data', evs))"

fun async_rlock_guard_is_released :: "async_rlock_guard \<Rightarrow> bool" where
  "async_rlock_guard_is_released (Async_RLockGuard data) = ag_is_released data"

fun async_rlock_guard_lease_state :: "instant \<Rightarrow> async_rlock_guard \<Rightarrow> lease_state \<times> async_rlock_guard" where
  "async_rlock_guard_lease_state now (Async_RLockGuard data) =
     (case lease_get_state now (ag_lease data) of (st, l) \<Rightarrow> (st, Async_RLockGuard (data\<lparr>ag_lease := l\<rparr>)))"

fun async_rlock_guard_wait_until_inactive :: "wait_pass list \<Rightarrow> async_rlock_guard \<Rightarrow> (lease_state \<times> async_rlock_guard) option" where
  "async_rlock_guard_wait_until_inactive ps (Async_RLockGuard data) =
     map_option (\<lambda>(st, l). (st, Async_RLockGuard (data\<lparr>ag_lease := l\<rparr>))) (wait_until_inactive ps (ag_lease data))"

definition async_acquire_mutex_with_options :: "async_call \<Rightarrow> redis_key \<Rightarrow> acquire_options \<Rightarrow>
    (acquire_failure, async_rlock_guard) result call" where
  "async_acquire_mutex_with_options c key options =
     expect_guard Async_RLockGuard (async_acquire c (Single key) options False)"

definition async_acquire_mutex :: "async_call \<Rightarrow> redis_key \<Rightarrow> (acquire_failure, async_rlock_guard) result call" where
  "async_acquire_mutex c key = async_acquire_mutex_with_options c key options_default"

definition async_try_acquire_mutex_with_options :: "async_call \<Rightarrow> redis_key \<Rightarrow> acquire_options \<Rightarrow>
    (acquire_failure, async_rlock_guard option) result call" where
  "async_try_acquire_mutex_with_options c key options =
     maybe_guard Async_RLockGuard (async_acquire c (Single key) options True)"

definition async_try_acquire_mutex :: "async_call \<Rightarrow> redis_key \<Rightarrow> (acquire_failure, async_rlock_guard option) result call" where
  "async_try_acquire_mutex c key = async_try_acquire_mutex_with_options c key options_default"

subsection \<open>Read locks\<close>

datatype async_read_lock_guard = Async_RReadLockGuard async_guard

fun async_read_lock_guard_release :: "release_wait \<Rightarrow> async_read_lock_guard \<Rightarrow>
    (release_failure, unit) result option \<times> async_read_lock_guard \<times> guard_event list" where
  "async_read_lock_guard_release reply (Async_RReadLockGuard data) =
     (case async_guard_release reply data of (r, data', evs) \<Rightarrow> (r, Async_RReadLockGuard data', evs))"

fun async_read_lock_guard_is_released :: "async_read_lock_guard \<Rightarrow> bool" where
  "async_read_lock_guard_is_released (Async_RReadLockGuard data) = ag_is_released data"

fun async_read_lock_guard_lease_state :: "instant \<Rightarrow> async_read_lock_guard \<Rightarrow> lease_state \<times> async_read_lock_guard" where
  "async_read_lock_guard_lease_state now (Async_RReadLockGuard data) =
     (case lease_get_state now (ag_lease data) of (st, l) \<Rightarrow> (st, Async_RReadLockGuard (data\<lparr>ag_lease := l\<rparr>)))"

fun async_read_lock_guard_wait_until_inactive :: "wait_pass list \<Rightarrow> async_read_lock_guard \<Rightarrow> (lease_state \<times> async_read_lock_guard) option" where
  "async_read_lock_guard_wait_until_inactive ps (Async_RReadLockGuard data) =
     map_option (\<lambda>(st, l). (st, Async_RReadLockGuard (data\<lparr>ag_lease := l\<rparr>))) (wait_until_inactive ps (ag_lease data))"

definition async_acquire_read_with_options :: "async_call \<Rightarrow> redis_key \<Rightarrow> acquire_options \<Rightarrow>
    (acquire_failure, async_read_lock_guard) result call" where
  "async_acquire_read_with_options c key options =
     expect_guard Async_RReadLockGuard (async_acquire c (Read key) options False)"

definition async_acquire_read :: "async_call \<Rightarrow> redis_key \<Rightarrow> (acquire_failure, async_read_lock_guard) result call" where
  "async_acquire_read c key = async_acquire_read_with_options c key options_default"

definition async_try_acquire_read_with_options :: "async_call \<Rightarrow> redis_key \<Rightarrow> acquire_options \<Rightarrow>
    (acquire_failure, async_read_lock_guard option) result call" where
  "async_try_acquire_read_with_options c key options =
     maybe_guard Async_RReadLockGuard (async_acquire c (Read key) options True)"

definition async_try_acquire_read :: "async_call \<Rightarrow> redis_key \<Rightarrow> (acquire_failure, async_read_lock_guard option) result call" where
  "async_try_acquire_read c key = async_try_acquire_read_with_options c key options_default"

subsection \<open>Write locks\<close>

datatype async_write_lock_guard = Async_RWriteLockGuard async_guard

fun async_write_lock_guard_release :: "release_wait \<Rightarrow> async_write_lock_guard \<Rightarrow>
    (release_failure, unit) result option \<times> async_write_lock_guard \<times> guard_event list" where
  "async_write_lock_guard_release reply (Async_RWriteLockGuard data) =
     (case async_guard_release reply data of (r, data', evs) \<Rightarrow> (r, Async_RWriteLockGuard data', evs))"

fun async_write_lock_guard_is_released :: "async_write_lock_guard \<Rightarrow> bool" where
  "async_write_lock_guard_is_released (Async_RWriteLockGuard data) = ag_is_released data"

fun async_write_lock_guard_lease_state :: "instant \<Rightarrow> async_write_lock_guard \<Rightarrow> lease_state \<times> async_write_lock_guard" where
  "async_write_lock_guard_lease_state now (Async_RWriteLockGuard data) =
     (case lease_get_state now (ag_lease data) of (st, l) \<Rightarrow> (st, Async_RWriteLockGuard (data\<lparr>ag_lease := l\<rparr>)))"

fun async_write_lock_guard_wait_until_inactive :: "wait_pass list \<Rightarrow> async_write_lock_guard \<Rightarrow> (lease_state \<times> async_write_lock_guard) option" where
  "async_write_lock_guard_wait_until_inactive ps (Async_RWriteLockGuard data) =
     map_option (\<lambda>(st, l). (st, Async_RWriteLockGuard (data\<lparr>ag_lease := l\<rparr>))) (wait_until_inactive ps (ag_lease data))"

definition async_acquire_write_with_options :: "async_call \<Rightarrow> redis_key \<Rightarrow> acquire_options \<Rightarrow>
    (acquire_failure, async_write_lock_guard) result call" where
  "async_acquire_write_with_options c key options =
     expect_guard Async_RWriteLockGuard (async_acquire c (Write key) options False)"

definition async_acquire_write :: "async_call \<Rightarrow> redis_key \<Rightarrow> (acquire_failure, async_write_lock_guard) result call" where
  "async_acquire_write c key = async_acquire_write_with_options c key options_default"

definition async_try_acquire_write_with_options :: "async_call \<Rightarrow> redis_key \<Rightarrow> acquire_options \<Rightarrow>
    (acquire_failure, async_write_lock_guard option) result call" where
  "async_try_acquire_write_with_options c key options =
     maybe_guard Async_RWriteLockGuard (async_acquire c (Write key) options True)"

definition async_try_acquire_write :: "async_call \<Rightarrow> redis_key \<Rightarrow> (acquire_failure, async_write_lock_guard option) result call" where
  "async_try_acquire_write c key = async_try_acquire_write_with_options c key options_default"

subsection \<open>Mutexes with many keys\<close>

datatype async_multi_key_lock_guard = Async_RMultiKeyLockGuard async_guard

fun async_multi_key_lock_guard_release :: "release_wait \<Rightarrow> async_multi_key_lock_guard \<Rightarrow>
    (release_failure, unit) result option \<times> async_multi_key_lock_guard \<times> guard_event list" where
  "async_multi_key_lock_guard_release reply (Async_RMultiKeyLockGuard data) =
     (case async_guard_release reply data of (r, data', evs) \<Rightarrow> (r, Async_RMultiKeyLockGuard data', evs))"

fun async_multi_key_lock_guard_is_released :: "async_multi_key_lock_guard \<Rightarrow> bool" where
  "async_multi_key_lock_guard_is_released (Async_RMultiKeyLockGuard data) = ag_is_released data"

fun async_multi_key_lock_guard_lease_state :: "instant \<Rightarrow> async_multi_key_lock_guard \<Rightarrow> lease_state \<times> async_multi_key_lock_guard" where
  "async_multi_key_lock_guard_lease_state now (Async_RMultiKeyLockGuard data) =
     (case lease_get_state now (ag_lease data) of (st, l) \<Rightarrow> (st, Async_RMultiKeyLockGuard (data\<lparr>ag_lease := l\<rparr>)))"

fun async_multi_key_lock_guard_wait_until_inactive :: "wait_pass list \<Rightarrow> async_multi_key_lock_guard \<Rightarrow> (lease_state \<times> async_multi_key_lock_guard) option" where
  "async_multi_key_lock_guard_wait_until_inactive ps (Async_RMultiKeyLockGuard data) =
     map_option (\<lambda>(st, l). (st, Async_RMultiKeyLockGuard (data\<lparr>ag_lease := l\<rparr>))) (wait_until_inactive ps (ag_lease data))"

definition async_acquire_multi_key_mutex_with_options :: "async_call \<Rightarrow> redis_key list \<Rightarrow> acquire_options \<Rightarrow>
    (acquire_failure, async_multi_key_lock_guard) result call" where
  "async_acquire_multi_key_mutex_with_options c keys options =
     expect_guard Async_RMultiKeyLockGuard (async_acquire c (Multiple keys) options False)"

definition async_acquire_multi_key_mutex :: "async_call \<Rightarrow> redis_key list \<Rightarrow> (acquire_failure, async_multi_key_lock_guard) result call" where
  "async_acquire_multi_key_mutex c keys = async_acquire_multi_key_mutex_with_options c keys options_default"

definition async_try_acquire_multi_key_mutex_with_options :: "async_call \<Rightarrow> redis_key list \<Rightarrow> acquire_options \<Rightarrow>
    (acquire_failure, async_multi_key_lock_guard option) result call" where
  "async_try_acquire_multi_key_mutex_with_options c keys options =
     maybe_guard Async_RMultiKeyLockGuard (async_acquire c (Multiple keys) options True)"

definition async_try_acquire_multi_key_mutex :: "async_call \<Rightarrow> redis_key list \<Rightarrow> (acquire_failure, async_multi_key_lock_guard option) result call" where
  "async_try_acquire_multi_key_mutex c keys = async_try_acquire_multi_key_mutex_with_options c keys options_default"

subsection \<open>Read locks with many keys\<close>

datatype async_multi_key_read_lock_guard = Async_RMultiKeyReadLockGuard async_guard

fun async_multi_key_read_lock_guard_release :: "release_wait \<Rightarrow> async_multi_key_read_lock_guard \<Rightarrow>
    (release_failure, unit) result option \<times> async_multi_key_read_lock_guard \<times> guard_event list" where
  "async_multi_key_read_lock_guard_release reply (Async_RMultiKeyReadLockGuard data) =
     (case async_guard_release reply data of (r, data', evs) \<Rightarrow> (r, Async_RMultiKeyReadLockGuard data', evs))"

fun async_multi_key_read_lock_guard_is_released :: "async_multi_key_read_lock_guard \<Rightarrow> bool" where
  "async_multi_key_read_lock_guard_is_released (Async_RMultiKeyReadLockGuard data) = ag_is_released data"

fun async_multi_key_read_lock_guard_lease_state :: "instant \<Rightarrow> async_multi_key_read_lock_guard \<Rightarrow> lease_state \<times> async_multi_key_read_lock_guard" where
  "async_multi_key_read_lock_guard_lease_state now (Async_RMultiKeyReadLockGuard data) =
     (case lease_get_state now (ag_lease data) of (st, l) \<Rightarrow> (st, Async_RMultiKeyReadLockGuard (data\<lparr>ag_lease := l\<rparr>)))"

fun async_multi_key_read_lock_guard_wait_until_inactive :: "wait_pass list \<Rightarrow> async_multi_key_read_lock_guard \<Rightarrow> (lease_state \<times> async_multi_key_read_lock_guard) option" where
  "async_multi_key_read_lock_guard_wait_until_inactive ps (Async_RMultiKeyReadLockGuard data) =
     map_option (\<lambda>(st, l). (st, Async_RMultiKeyReadLockGuard (data\<lparr>ag_lease := l\<rparr>))) (wait_until_inactive ps (ag_lease data))"

definition async_acquire_multi_key_read_with_options :: "async_call \<Rightarrow> redis_key list \<Rightarrow> acquire_options \<Rightarrow>
    (acquire_failure, async_multi_key_read_lock_guard) result call" where
  "async_acquire_multi_key_read_with_options c keys options =
     expect_guard Async_RMultiKeyReadLockGuard (async_acquire c (MultipleRead keys) options False)"

definition async_acquire_multi_key_read :: "async_call \<Rightarrow> redis_key list \<Rightarrow> (acquire_failure, async_multi_key_read_lock_guard) result call" where
  "async_acquire_multi_key_read c keys = async_acquire_multi_key_read_with_options c keys options_default"

definition async_try_acquire_multi_key_read_with_options :: "async_call \<Rightarrow> redis_key list \<Rightarrow> acquire_options \<Rightarrow>
    (acquire_failure, async_multi_key_read_lock_guard option) result call" where
  "async_try_acquire_multi_key_read_with_options c keys options =
     maybe_guard Async_RMultiKeyReadLockGuard (async_acquire c (MultipleRead keys) options True)"

definition async_try_acquire_multi_key_read :: "async_call \<Rightarrow> redis_key list \<Rightarrow> (acquire_failure, async_multi_key_read_lock_guard option) result call" where
  "async_try_acquire_multi_key_read c keys = async_try_acquire_multi_key_read_with_options c keys options_default"

subsection \<open>Write locks with many keys\<close>

datatype async_multi_key_write_lock_guard = Async_RMultiKeyWriteLockGuard async_guard

fun async_multi_key_write_lock_guard_release :: "release_wait \<Rightarrow> async_multi_key_write_lock_guard \<Rightarrow>
    (release_failure, unit) result option \<times> async_multi_key_write_lock_guard \<times> guard_event list" where
  "async_multi_key_write_lock_guard_release reply (Async_RMultiKeyWriteLockGuard data) =
     (case async_guard_release reply data of (r, data', evs) \<Rightarrow> (r, Async_RMultiKeyWriteLockGuard data', evs))"

fun async_multi_key_write_lock_guard_is_released :: "async_multi_key_write_lock_guard \<Rightarrow> bool" where
  "async_multi_key_write_lock_guard_is_released (Async_RMultiKeyWriteLockGuard data) = ag_is_released data"

fun async_multi_key_write_lock_guard_lease_state :: "instant \<Rightarrow> async_multi_key_write_lock_guard \<Rightarrow> lease_state \<times> async_multi_key_write_lock_guard" where
  "async_multi_key_write_lock_guard_lease_state now (Async_RMultiKeyWriteLockGuard data) =
     (case lease_get_state now (ag_lease data) of (st, l) \<Rightarrow> (st, Async_RMultiKeyWriteLockGuard (data\<lparr>ag_lease := l\<rparr>)))"

fun async_multi_key_write_lock_guard_wait_until_inactive :: "wait_pass list \<Rightarrow> async_multi_key_write_lock_guard \<Rightarrow> (lease_state \<times> async_multi_key_write_lock_guard) option" where
  "async_multi_key_write_lock_guard_wait_until_inactive ps (Async_RMultiKeyWriteLockGuard data) =
     map_option (\<lambda>(st, l). (st, Async_RMultiKeyWriteLockGuard (data\<lparr>ag_lease := l\<rparr>))) (wait_until_inactive ps (ag_lease data))"

definition async_acquire_multi_key_write_with_options :: "async_call \<Rightarrow> redis_key list \<Rightarrow> acquire_options \<Rightarrow>
    (acquire_failure, async_multi_key_write_lock_guard) result call" where
  "async_acquire_multi_key_write_with_options c keys options =
     expect_guard Async_RMultiKeyWriteLockGuard (async_acquire c (MultipleWrite keys) options False)"

definition async_acquire_multi_key_write :: "async_call \<Rightarrow> redis_key list \<Rightarrow> (acquire_failure, async_multi_key_write_lock_guard) result call" where
  "async_acquire_multi_key_write c keys = async_acquire_multi_key_write_with_options c keys options_default"

definition async_try_acquire_multi_key_write_with_options :: "async_call \<Rightarrow> redis_key list \<Rightarrow> acquire_options \<Rightarrow>
    (acquire_failure, async_multi_key_write_lock_guard option) result call" where
  "async_try_acquire_multi_key_write_with_options c keys options =
     maybe_guard Async_RMultiKeyWriteLockGuard (async_acquire c (MultipleWrite keys) options True)"

definition async_try_acquire_multi_key_write :: "async_call \<Rightarrow> redis_key list \<Rightarrow> (acquire_failure, async_multi_key_write_lock_guard option) result call" where
  "async_try_acquire_multi_key_write c keys = async_try_acquire_multi_key_write_with_options c keys options_default"

subsection \<open>Properties\<close>

text \<open>
  C31: No public async acquisition panics, and every guard it returns owns its lock. For keys that are not empty
  and distinct (a single key always is), in debug and in release builds, none of the twelve functions ends
  in the panic of \<open>debug_assert_lock_keys\<close> or of \<open>expect\<close>; and a guard of any of the six kinds is for a
  request on the given keys in the mode of its kind, with the given options and an active lease.
\<close>

theorem async_calls_sound:
  assumes "validate keys = Inr ()"
  shows "sound_call Async_RLockGuard (async_owns c (Single key) options) (async_acquire_mutex_with_options c key options) \<and>
    sound_attempt Async_RLockGuard (async_owns c (Single key) options) (async_try_acquire_mutex_with_options c key options) \<and>
    sound_call Async_RReadLockGuard (async_owns c (Read key) options) (async_acquire_read_with_options c key options) \<and>
    sound_attempt Async_RReadLockGuard (async_owns c (Read key) options) (async_try_acquire_read_with_options c key options) \<and>
    sound_call Async_RWriteLockGuard (async_owns c (Write key) options) (async_acquire_write_with_options c key options) \<and>
    sound_attempt Async_RWriteLockGuard (async_owns c (Write key) options) (async_try_acquire_write_with_options c key options) \<and>
    sound_call Async_RMultiKeyLockGuard (async_owns c (Multiple keys) options) (async_acquire_multi_key_mutex_with_options c keys options) \<and>
    sound_attempt Async_RMultiKeyLockGuard (async_owns c (Multiple keys) options) (async_try_acquire_multi_key_mutex_with_options c keys options) \<and>
    sound_call Async_RMultiKeyReadLockGuard (async_owns c (MultipleRead keys) options) (async_acquire_multi_key_read_with_options c keys options) \<and>
    sound_attempt Async_RMultiKeyReadLockGuard (async_owns c (MultipleRead keys) options) (async_try_acquire_multi_key_read_with_options c keys options) \<and>
    sound_call Async_RMultiKeyWriteLockGuard (async_owns c (MultipleWrite keys) options) (async_acquire_multi_key_write_with_options c keys options) \<and>
    sound_attempt Async_RMultiKeyWriteLockGuard (async_owns c (MultipleWrite keys) options) (async_try_acquire_multi_key_write_with_options c keys options)"
  unfolding async_acquire_mutex_with_options_def async_try_acquire_mutex_with_options_def
    async_acquire_read_with_options_def async_try_acquire_read_with_options_def
    async_acquire_write_with_options_def async_try_acquire_write_with_options_def
    async_acquire_multi_key_mutex_with_options_def async_try_acquire_multi_key_mutex_with_options_def
    async_acquire_multi_key_read_with_options_def async_try_acquire_multi_key_read_with_options_def
    async_acquire_multi_key_write_with_options_def async_try_acquire_multi_key_write_with_options_def
  using assms by (intro conjI async_acq.blocking_sound async_acq.attempt_sound) simp_all

text \<open>A write lock on two keys that a debug build gets at its second attempt.\<close>

definition async_example_call :: async_call where
  "async_example_call =
     \<lparr>ac_debug = True, ac_uuid = ''u'', ac_start = 0,
      ac_env = async_example [async_pass 0 (Inr False), async_pass 1000003 (Inr True)] Got_Result\<rparr>"

lemma async_example_call_gets:
  "\<exists>g evs. async_acquire_multi_key_write_with_options async_example_call [''a'', ''b''] async_options =
     Some (Completes (Inr (Async_RMultiKeyWriteLockGuard g)), evs)"
  by (simp add: async_acquire_multi_key_write_with_options_def expect_guard_def map_call_def async_acquire_def
      assert_keys_valid validate_def async_example_call_def async_example_defs)

theorem async_calls_sound_witness:
  "\<exists>g evs. async_acquire_multi_key_write_with_options async_example_call [''a'', ''b''] async_options =
     Some (Completes (Inr (Async_RMultiKeyWriteLockGuard g)), evs) \<and>
     async_owns async_example_call (MultipleWrite [''a'', ''b'']) async_options g"
proof -
  obtain g evs where got: "async_acquire_multi_key_write_with_options async_example_call [''a'', ''b''] async_options =
      Some (Completes (Inr (Async_RMultiKeyWriteLockGuard g)), evs)"
    using async_example_call_gets by blast
  have "validate [''a'', ''b''] = Inr ()" by (simp add: validate_def)
  from async_calls_sound [OF this, of async_example_call _ async_options] got show ?thesis
    by (auto simp: sound_call_def)
qed

end
