(* ===== verification/Guard_Safety.thy ===== *)
theory Guard_Safety
  imports Lease_Safety Sync_Renewal Async_Renewal
begin

text \<open>
  What a guard promises its owner, for both variants: from the acquisition on and through the automatic
  renewals, as long as the lease of the guard is active, nobody else gets the resource. The commands that
  the loops of the client send are executed by the server, between commands of other processes, after the
  instants the client read before it sent them.
\<close>

subsection \<open>Executing the commands of a loop\<close>

text \<open>
  \<open>executed now offset send ttl c s t\<close>: the command \<open>c\<close> takes the server from \<open>s\<close> to \<open>t\<close>. It was executed
  after it was sent, and its reply arrived or was lost; or it was lost itself.
\<close>

definition executed :: "('s \<Rightarrow> int) \<Rightarrow> nat \<Rightarrow> ('s \<Rightarrow> (string, bool) result \<times> 's) \<Rightarrow> duration \<Rightarrow>
    sent_command \<Rightarrow> 's \<Rightarrow> 's \<Rightarrow> bool" where
  "executed now offset send ttl c s t \<longleftrightarrow>
     ttl_in_range (now s) ttl \<and> server_millis offset (fst c) \<le> now s \<and>
       (send s = (snd c, t) \<or> isl (snd c) \<and> t = snd (send s)) \<or>
     isl (snd c) \<and> t = s"

inductive executes :: "'s redis_call \<Rightarrow> ('s \<Rightarrow> int) \<Rightarrow> (int \<Rightarrow> 's \<Rightarrow> 's) \<Rightarrow> nat \<Rightarrow> uuid \<Rightarrow>
    ('s \<Rightarrow> (string, bool) result \<times> 's) \<Rightarrow> duration \<Rightarrow> sent_command list \<Rightarrow> 's \<Rightarrow> 's \<Rightarrow> bool"
  for call now advance offset u send ttl where
  executes_end: "lock_path call now advance (\<lambda>a. a \<noteq> Some u) s s' \<Longrightarrow>
    executes call now advance offset u send ttl [] s s'"
| executes_next: "lock_path call now advance (\<lambda>a. a \<noteq> Some u) s t \<Longrightarrow>
    executed now offset send ttl c t t' \<Longrightarrow> executes call now advance offset u send ttl cs t' s' \<Longrightarrow>
    executes call now advance offset u send ttl (c # cs) s s'"

text \<open>
  \<open>covered target u ttl sent s\<close>: a command that the server executed no earlier than at \<open>sent\<close> still
  protects every key of the target at \<open>s\<close>, unless its TTL is over.
\<close>

definition covered :: "('s \<Rightarrow> int) \<Rightarrow> ('s \<Rightarrow> keyspace) \<Rightarrow> lock_target \<Rightarrow> uuid \<Rightarrow> duration \<Rightarrow> int \<Rightarrow> 's \<Rightarrow> bool" where
  "covered now view target u ttl sent s \<longleftrightarrow>
     sent \<le> now s \<and>
     (live (target_mode target) (now s) (expiry_at sent ttl) \<longrightarrow>
       (\<forall>k\<in>set (target_keys target).
         \<exists>e\<ge>expiry_at sent ttl. holds (target_mode target) u e (view s k)))"

lemma holds_live_owned: "holds m u e x \<Longrightarrow> live m now e \<Longrightarrow> owned m now u x \<and> kind_ok m x"
  by (cases m) (auto simp: owns_mutex_def reads_now_def writes_now_def dest: members_of_SomeD)

lemma honest_period_more: "honest_period ttl cs l l' \<Longrightarrow> honest_period ttl (cs @ cs') l l'"
  by (auto simp: honest_period_def)

context redis_clock
begin

lemma covered_path:
  assumes "lock_path call now advance (\<lambda>a. a \<noteq> Some u) s s'" and "table_ok (view s)"
    and "covered now view target u ttl sent s"
  shows "covered now view target u ttl sent s'"
proof -
  let ?m = "target_mode target" and ?e = "expiry_at sent ttl"
  have later: "now s \<le> now s'" using lock_path_now [OF assms(1)] .
  have "\<exists>e\<ge>?e. holds ?m u e (view s' k)"
    if live: "live ?m (now s') ?e" and k: "k \<in> set (target_keys target)" for k
  proof -
    have "live ?m (now s) ?e" using live later by (rule live_antimono)
    with assms(3) k obtain e where e: "?e \<le> e" "holds ?m u e (view s k)"
      by (auto simp: covered_def)
    have "holds ?m u e (view s' k)"
      using lock_path_holds [OF assms(1,2) e(2)] live_mono [OF live e(1)] .
    with e(1) show ?thesis by blast
  qed
  with later assms(3) show ?thesis by (auto simp: covered_def)
qed

text \<open>Whatever becomes of a renewal, it takes nothing away, and a confirmed command covers from its start.\<close>

lemma covered_renew:
  assumes "ttl_in_range (now s) ttl" and "covered now view target u ttl sent s"
  shows "covered now view target u ttl sent (snd (send_renew call target u ttl s))"
proof -
  let ?m = "target_mode target" and ?e = "expiry_at sent ttl"
  have same: "now (snd (send_renew call target u ttl s)) = now s" by simp
  have "\<exists>e\<ge>?e. holds ?m u e (view (snd (send_renew call target u ttl s)) k)"
    if live: "live ?m (now s) ?e" and k: "k \<in> set (target_keys target)" for k
  proof (cases "fst (send_renew call target u ttl s) = Inr True")
    case True
    have "?e \<le> expiry_at (now s) ttl" using assms(2) by (simp add: covered_def expiry_at_def)
    with renew_holds [OF True assms(1) k] show ?thesis by blast
  next
    case False
    obtain e where e: "?e \<le> e" "holds ?m u e (view s k)"
      using assms(2) live k by (auto simp: covered_def)
    with refused_renew_holds [OF False assms(1) live_mono [OF live e(1)]] show ?thesis by blast
  qed
  with same assms(2) show ?thesis by (auto simp: covered_def)
qed

lemma covered_confirmed:
  assumes "(Inr True, t) = send_acquire call target u ttl s \<or> (Inr True, t) = send_renew call target u ttl s"
    and "ttl_in_range (now s) ttl" and "table_ok (view s)" and "sent \<le> now s"
  shows "covered now view target u ttl sent t"
proof -
  have now: "now t = now s" using assms(1) by (elim disjE) (metis now_send snd_conv)+
  have "expiry_at sent ttl \<le> expiry_at (now s) ttl" using assms(4) by (simp add: expiry_at_def)
  then show ?thesis
    using confirmed_holds(1) [OF assms(1,2) _ assms(3)] assms(4) now by (auto simp: covered_def)
qed

lemma executed_ok:
  assumes "executed now offset send ttl c s t" and "table_ok (view s)"
    and "send = send_acquire call target u ttl \<or> send = send_renew call target u ttl"
  shows "table_ok (view t)"
proof -
  have "table_ok (view (snd (send s)))" if "ttl_in_range (now s) ttl"
    using assms(3) send_acquire_ok [OF assms(2) that] send_renew_ok [OF assms(2) that] by (elim disjE) simp_all
  then show ?thesis using assms(1,2) by (auto simp: executed_def)
qed

text \<open>The acquisitions of a loop whose last one was confirmed.\<close>

lemma acquires_cover:
  assumes "executes call now advance offset u (send_acquire call target u ttl) ttl cs s s'"
    and "table_ok (view s)" and "confirmed_at start cs"
  shows "covered now view target u ttl (server_millis offset start) s' \<and> table_ok (view s')"
  using assms
proof (induction rule: executes.induct)
  case (executes_end s s')
  then show ?case by (simp add: confirmed_at_def)
next
  case (executes_next s t c t' cs s')
  have ok: "table_ok (view t')"
    using executed_ok [OF executes_next.hyps(2) lock_path_ok [OF executes_next.hyps(1) executes_next.prems(1)]]
    by blast
  show ?case
  proof (cases "cs = []")
    case True
    with executes_next.hyps(3) have path: "lock_path call now advance (\<lambda>a. a \<noteq> Some u) t' s'"
      by (auto elim: executes.cases)
    have c: "c = (start, Inr True)" using executes_next.prems(2) True by simp
    have "covered now view target u ttl (server_millis offset start) t'"
      using executes_next.hyps(2) lock_path_ok [OF executes_next.hyps(1) executes_next.prems(1)]
      by (intro covered_confirmed [where s = t]) (auto simp: c executed_def)
    with covered_path [OF path] lock_path_ok [OF path] ok show ?thesis by simp
  next
    case False
    with executes_next ok show ?thesis by (simp add: confirmed_at_def)
  qed
qed

text \<open>The renewals of a loop.\<close>

lemma renewals_cover:
  assumes "executes call now advance offset u (send_renew call target u ttl) ttl cs s s'"
    and "table_ok (view s)"
  shows "(covered now view target u ttl sent s \<or> (\<exists>start. sent = server_millis offset start \<and> (start, Inr True) \<in> set cs) \<longrightarrow>
      covered now view target u ttl sent s') \<and> table_ok (view s')"
  using assms
proof (induction rule: executes.induct)
  case (executes_end s s')
  with covered_path lock_path_ok show ?case by simp
next
  case (executes_next s t c t' cs s')
  have ok: "table_ok (view t)" using lock_path_ok [OF executes_next.hyps(1) executes_next.prems] .
  have keep: "covered now view target u ttl sent t'" if "covered now view target u ttl sent s"
  proof -
    have "covered now view target u ttl sent t"
      using covered_path [OF executes_next.hyps(1) executes_next.prems that] .
    with executes_next.hyps(2) covered_renew show ?thesis by (auto simp: executed_def) (metis snd_conv)
  qed
  have new: "covered now view target u ttl sent t'" if "c = (start, Inr True)" "sent = server_millis offset start" for start
    using executes_next.hyps(2) ok that by (intro covered_confirmed [where s = t]) (auto simp: executed_def)
  show ?case
    using keep new executes_next.IH executed_ok [OF executes_next.hyps(2) ok] by auto
qed

lemma honest_covered:
  assumes "executes call now advance offset u (send_renew call target u ttl) ttl cs s s'"
    and "table_ok (view s)" and "covered now view target u ttl (server_millis offset (l_start l)) s"
    and "honest_period ttl cs l l'"
  shows "covered now view target u ttl (server_millis offset (l_start l')) s'"
  using renewals_cover [OF assms(1,2), of "server_millis offset (l_start l')"] assms(3,4)
  by (auto simp: honest_period_def)

text \<open>An active lease whose period is covered excludes everybody else, and can be renewed.\<close>

lemma covered_holds:
  assumes "covered now view target u (effective_ttl options) (server_millis offset (l_start l)) s"
    and "now s = server_millis offset t" and "l_ttl l = effective_ttl options"
    and "fst (lease_get_state (t + clock_margin (target_mode target)) l) = Active"
    and "k \<in> set (target_keys target)"
  shows "\<exists>e. holds (target_mode target) u e (view s k) \<and> live (target_mode target) (now s) e"
proof -
  let ?e = "expiry_at (server_millis offset (l_start l)) (effective_ttl options)"
  have live: "live (target_mode target) (now s) ?e"
    using active_lease_live [OF order_refl _ assms(4), of _ offset] assms(2,3) by (simp add: effective_ttl_def)
  with assms(1,5) obtain e where "?e \<le> e" "holds (target_mode target) u e (view s k)"
    by (auto simp: covered_def)
  with live_mono [OF live] show ?thesis by blast
qed

lemma held_renews:
  assumes "\<And>k. k \<in> set (target_keys target) \<Longrightarrow>
      \<exists>e. holds (target_mode target) u e (view s k) \<and> live (target_mode target) (now s) e"
    and "ttl_in_range (now s) ttl"
  shows "fst (send_renew call target u ttl s) = Inr True"
  using renew_iff_owned [OF assms(2), of target u] assms(1) holds_live_owned by blast

text \<open>The life of a guard: its acquisition, the renewals whose replies it has seen, and those on the way.\<close>

lemma guard_excludes:
  assumes "executes call now advance offset u (send_acquire call target u (effective_ttl options))
      (effective_ttl options) cs s mid"
    and "table_ok (view s)" and "confirmed_at (l_start initial) cs" and "l_ttl initial = effective_ttl options"
    and "executes call now advance offset u (send_renew call target u (effective_ttl options))
      (effective_ttl options) (rs @ on_the_way) mid s'"
    and "honest_period (effective_ttl options) rs initial l" and "now s' = server_millis offset t"
    and "fst (lease_get_state (t + clock_margin (target_mode target)) l) = Active"
    and "k \<in> set (target_keys target)" and "k \<in> set (target_keys target')"
    and "conflicts (target_mode target) (target_mode target')" and "ttl_in_range (now s') ttl'"
  shows "fst (send_acquire call target' u' ttl' s') \<noteq> Inr True \<and>
    (ttl_in_range (now s') (effective_ttl options) \<longrightarrow>
      fst (send_renew call target u (effective_ttl options) s') = Inr True)"
proof -
  have acquired: "covered now view target u (effective_ttl options) (server_millis offset (l_start initial)) mid"
    "table_ok (view mid)"
    using acquires_cover [OF assms(1-3)] by blast+
  have "covered now view target u (effective_ttl options) (server_millis offset (l_start l)) s'"
    using honest_covered [OF assms(5) acquired(2,1) honest_period_more [OF assms(6)]] .
  moreover have "l_ttl l = effective_ttl options"
    using assms(4,6) by (auto simp: honest_period_def)
  ultimately have held: "\<exists>e. holds (target_mode target) u e (view s' j) \<and> live (target_mode target) (now s') e"
    if "j \<in> set (target_keys target)" for j
    using covered_holds [OF _ assms(7) _ assms(8) that] by blast
  with assms(9) obtain e where "holds (target_mode target) u e (view s' k)" "live (target_mode target) (now s') e"
    by blast
  from acquire_blocked [OF this assms(10-12)] held_renews [OF held] show ?thesis by blast
qed

end

subsection \<open>Renewals that are answered in time\<close>

text \<open>
  The server executes the renewal of every pass between the instant before it was sent and the instant
  after its reply, and the reply is the one of the server.
\<close>

inductive answered :: "'s redis_call \<Rightarrow> ('s \<Rightarrow> int) \<Rightarrow> (int \<Rightarrow> 's \<Rightarrow> 's) \<Rightarrow> nat \<Rightarrow> lock_target \<Rightarrow> uuid \<Rightarrow>
    duration \<Rightarrow> 'x renew_pass_scheme list \<Rightarrow> 's \<Rightarrow> 's \<Rightarrow> bool"
  for call now advance offset target u ttl where
  answered_end: "lock_path call now advance (\<lambda>a. a \<noteq> Some u) s s' \<Longrightarrow>
    answered call now advance offset target u ttl [] s s'"
| answered_next: "lock_path call now advance (\<lambda>a. a \<noteq> Some u) s t \<Longrightarrow> ttl_in_range (now t) ttl \<Longrightarrow>
    server_millis offset (rp_attempt e) \<le> now t \<Longrightarrow> now t \<le> server_millis offset (rp_renew_now1 e) \<Longrightarrow>
    send_renew call target u ttl t = (rp_reply e, t') \<Longrightarrow>
    answered call now advance offset target u ttl es t' s' \<Longrightarrow>
    answered call now advance offset target u ttl (e # es) s s'"

lemma live_before:
  assumes "t + clock_margin m < start + from_millis n" and "0 < from_millis n"
  shows "live m (server_millis offset t) (expiry_at (server_millis offset start) (from_millis n))"
proof (rule active_lease_live [of "lease_new start (from_millis n)"])
  show "fst (lease_get_state (t + clock_margin m) (lease_new start (from_millis n))) = Active"
    using assms by (auto simp: lease_new_def lease_simps)
qed (simp_all add: lease_new_def)

context redis_clock
begin

lemma answered_confirmed:
  assumes "answered call now advance offset target u (from_millis n) es s s'" and "table_ok (view s)"
    and "covered now view target u (from_millis n) (server_millis offset start) s"
    and "paced lag interval start es"
    and "interval + 3 * lag + clock_margin (target_mode target) < from_millis n"
  shows "list_all (\<lambda>e. rp_reply e = Inr True) es \<and>
    covered now view target u (from_millis n) (server_millis offset (last (start # List.map rp_attempt es))) s'"
  using assms(1-4)
proof (induction arbitrary: start rule: answered.induct)
  case (answered_end s s')
  with covered_path show ?case by simp
next
  case (answered_next s t e t' es s')
  let ?m = "target_mode target" and ?ttl = "from_millis n"
  have ok: "table_ok (view t)" and cov: "covered now view target u ?ttl (server_millis offset start) t"
    using lock_path_ok covered_path answered_next by blast+
  have "rp_renew_now1 e + clock_margin ?m < start + ?ttl" "0 < ?ttl"
    using answered_next.prems(3) assms(5) by (auto simp: prompt_def)
  then have live: "live ?m (now t) (expiry_at (server_millis offset start) ?ttl)"
    using answered_next.hyps(4) by (intro live_antimono [OF live_before])
  have "fst (send_renew call target u ?ttl t) = Inr True"
  proof (rule held_renews [OF _ answered_next.hyps(2)])
    fix k assume "k \<in> set (target_keys target)"
    with cov live obtain e' where "expiry_at (server_millis offset start) ?ttl \<le> e'" "holds ?m u e' (view t k)"
      by (auto simp: covered_def)
    with live_mono [OF live] show "\<exists>e'. holds ?m u e' (view t k) \<and> live ?m (now t) e'" by blast
  qed
  then have reply: "rp_reply e = Inr True" and sent: "(Inr True, t') = send_renew call target u ?ttl t"
    using answered_next.hyps(5) by simp_all
  have "covered now view target u ?ttl (server_millis offset (rp_attempt e)) t'"
    using covered_confirmed sent answered_next.hyps(2,3) ok by blast
  moreover have "table_ok (view t')"
    using send_renew_ok [OF ok answered_next.hyps(2), of target u] sent by (metis snd_conv)
  ultimately show ?case
    using answered_next.IH [of "rp_attempt e"] answered_next.prems(3) reply by simp
qed

end

subsection \<open>Properties\<close>

text \<open>
  C3: A sync guard protects its resource. Let Redis execute what the acquisition of the guard and then its
  renewal thread send, each command no earlier than it was sent, among any commands of other processes;
  commands and replies can be lost, and renewals can be on the way whose replies the thread has not seen.
  Then after any number of passes of the thread, and at any time at which the lease of the guard is active and
  stays so for the margin of its mode - nothing for a mutex, one more millisecond for a read or write lock, without
  which this is false (C37) - no request for a conflicting mode on a shared key succeeds, and a renewal by the
  guard does.
\<close>

theorem sync_guard_protects:
  assumes "redis_clock call view now advance" and "table_ok (view s)"
    and "acquire_internal is_io u target options once start e = Some (Inr (Some g), evs)"
    and "executes call now advance offset u (send_acquire call target u (effective_ttl options))
      (effective_ttl options) (attempts_sent (ie_attempts e) evs) s mid"
    and "sync_renewal_thread (g_request g) options sent interval es (lease_new sent (effective_ttl options)) = (r, l, evs')"
    and "no_other_renewals es"
    and "executes call now advance offset u (send_renew call target u (effective_ttl options))
      (effective_ttl options) (renewals_sent es evs' @ on_the_way) mid s'"
    and "now s' = server_millis offset t"
    and "fst (lease_get_state (t + clock_margin (target_mode target)) l) = Active"
    and "k \<in> set (target_keys target)" and "k \<in> set (target_keys target')"
    and "conflicts (target_mode target) (target_mode target')" and "ttl_in_range (now s') ttl'"
    and "sent = acquired_at (attempts_sent (ie_attempts e) evs)"
  shows "fst (send_acquire call target' u' ttl' s') \<noteq> Inr True \<and>
    (ttl_in_range (now s') (effective_ttl options) \<longrightarrow>
      fst (send_renew call target u (effective_ttl options) s') = Inr True)"
proof -
  have got: "confirmed_at sent (attempts_sent (ie_attempts e) evs)"
    using acquire_internal_facts [OF assms(3), of g] assms(14) by (simp add: acquired_lease_def)
  have "honest_period (effective_ttl options) (renewals_sent es evs') (lease_new sent (effective_ttl options)) l"
    using sync_renewal_period [OF assms(5) [unfolded sync_renewal_thread_def] assms(6)] .
  then show ?thesis
    using redis_clock.guard_excludes [OF assms(1,4,2) _ _ assms(7) _ assms(8-13),
        where initial = "lease_new sent (effective_ttl options)"] got
    by (simp add: lease_new_def)
qed

text \<open>
  C4: An async guard protects its resource in the same way, from its acquisition on and through any number
  of passes of its renewal task, at any time at which its lease is active and stays so for the margin of its mode:
  nothing for a mutex, one more millisecond for a read or write lock.
\<close>

theorem async_guard_protects:
  assumes "redis_clock call view now advance" and "table_ok (view s)"
    and "async_acquire_internal u target options once start e = Some (Some (Inr (Some g)), evs)"
    and "executes call now advance offset u (send_acquire call target u (effective_ttl options))
      (effective_ttl options) (async_attempts_sent (ae_attempts e) evs) s mid"
    and "async_renewal_task (ag_request g) options sent interval es (lease_new sent (effective_ttl options)) = (r, l, evs')"
    and "only_task_renews es"
    and "executes call now advance offset u (send_renew call target u (effective_ttl options))
      (effective_ttl options) (renewals_sent es evs' @ on_the_way) mid s'"
    and "now s' = server_millis offset t"
    and "fst (lease_get_state (t + clock_margin (target_mode target)) l) = Active"
    and "k \<in> set (target_keys target)" and "k \<in> set (target_keys target')"
    and "conflicts (target_mode target) (target_mode target')" and "ttl_in_range (now s') ttl'"
    and "sent = acquired_at (async_attempts_sent (ae_attempts e) evs)"
  shows "fst (send_acquire call target' u' ttl' s') \<noteq> Inr True \<and>
    (ttl_in_range (now s') (effective_ttl options) \<longrightarrow>
      fst (send_renew call target u (effective_ttl options) s') = Inr True)"
proof -
  have got: "confirmed_at sent (async_attempts_sent (ae_attempts e) evs)"
    using async_acquire_internal_facts [OF assms(3), of g] assms(14) by (simp add: acquired_lease_def)
  have "honest_period (effective_ttl options) (renewals_sent es evs') (lease_new sent (effective_ttl options)) l"
    using async_renewal_period [OF assms(5) [unfolded async_renewal_task_def] assms(6)] .
  then show ?thesis
    using redis_clock.guard_excludes [OF assms(1,4,2) _ _ assms(7) _ assms(8-13),
        where initial = "lease_new sent (effective_ttl options)"] got
    by (simp add: lease_new_def)
qed

text \<open>
  C20: A punctual sync guard never loses its lock. Let Redis execute the acquisition of the guard, and each of
  its renewals between the readings of the clock before it was sent and after its reply, among any commands
  of other processes. If no step of the thread lags by more than \<open>lag\<close>, with \<open>interval + 3 * lag\<close> (for a
  read-write lock: and a millisecond) less than the TTL, then Redis confirms every renewal, the thread never
  ends, however many passes it makes, and its lease and the lock on the server last for the full TTL from
  the last attempt.
\<close>

theorem sync_guard_keeps_lock:
  assumes "redis_clock call view now advance" and "table_ok (view s)"
    and "acquire_internal is_io u target options once start e = Some (Inr (Some g), evs)"
    and "executes call now advance offset u (send_acquire call target u (effective_ttl options))
      (effective_ttl options) (attempts_sent (ie_attempts e) evs) s mid"
    and "punctual lag interval (effective_ttl options) sent es"
    and "answered call now advance offset target u (effective_ttl options) es mid s'"
    and "interval + 3 * lag + clock_margin (target_mode target) < effective_ttl options"
    and "sent = acquired_at (attempts_sent (ie_attempts e) evs)"
  shows "\<exists>l evs'. sync_renewal_thread (g_request g) options sent interval es (lease_new sent (effective_ttl options)) = (None, l, evs') \<and>
    runs_from (last (sent # List.map rp_attempt es)) (effective_ttl options) l \<and>
    covered now view target u (effective_ttl options)
      (server_millis offset (last (sent # List.map rp_attempt es))) s'"
proof -
  have got: "confirmed_at sent (attempts_sent (ie_attempts e) evs)"
    using acquire_internal_facts [OF assms(3), of g] assms(8) by (simp add: acquired_lease_def)
  have acquired: "covered now view target u (effective_ttl options) (server_millis offset sent) mid"
    "table_ok (view mid)"
    using redis_clock.acquires_cover [OF assms(1,4,2)] got by blast+
  have runs: "runs_from sent (effective_ttl options) (lease_new sent (effective_ttl options))"
    using assms(7) by (simp add: runs_from_def lease_new_def)
  have confirmed: "list_all (\<lambda>e. rp_reply e = Inr True) es \<and> covered now view target u (effective_ttl options)
      (server_millis offset (last (sent # List.map rp_attempt es))) s'"
    using redis_clock.answered_confirmed [OF assms(1) _ acquired(2) _ punctual_paced [OF assms(5)]] assms(6,7) acquired(1)
    by (simp add: effective_ttl_def)
  have "interval + 3 * lag < effective_ttl options" using assms(7) by simp
  from sync_renewal_keeps [OF runs assms(5) this] confirmed show ?thesis
    unfolding sync_renewal_thread_def by blast
qed

text \<open>
  C21: A punctual async guard never loses its lock, under the same conditions.
\<close>

theorem async_guard_keeps_lock:
  assumes "redis_clock call view now advance" and "table_ok (view s)"
    and "async_acquire_internal u target options once start e = Some (Some (Inr (Some g)), evs)"
    and "executes call now advance offset u (send_acquire call target u (effective_ttl options))
      (effective_ttl options) (async_attempts_sent (ae_attempts e) evs) s mid"
    and "async_punctual lag interval sent es"
    and "answered call now advance offset target u (effective_ttl options) es mid s'"
    and "interval + 3 * lag + clock_margin (target_mode target) < effective_ttl options"
    and "sent = acquired_at (async_attempts_sent (ae_attempts e) evs)"
  shows "\<exists>l evs'. async_renewal_task (ag_request g) options sent interval es (lease_new sent (effective_ttl options)) = (None, l, evs') \<and>
    runs_from (last (sent # List.map rp_attempt es)) (effective_ttl options) l \<and>
    covered now view target u (effective_ttl options)
      (server_millis offset (last (sent # List.map rp_attempt es))) s'"
proof -
  have got: "confirmed_at sent (async_attempts_sent (ae_attempts e) evs)"
    using async_acquire_internal_facts [OF assms(3), of g] assms(8) by (simp add: acquired_lease_def)
  have acquired: "covered now view target u (effective_ttl options) (server_millis offset sent) mid"
    "table_ok (view mid)"
    using redis_clock.acquires_cover [OF assms(1,4,2)] got by blast+
  have runs: "runs_from sent (effective_ttl options) (lease_new sent (effective_ttl options))"
    using assms(7) by (simp add: runs_from_def lease_new_def)
  have confirmed: "list_all (\<lambda>e. rp_reply e = Inr True) es \<and> covered now view target u (effective_ttl options)
      (server_millis offset (last (sent # List.map rp_attempt es))) s'"
    using redis_clock.answered_confirmed [OF assms(1) _ acquired(2) _ async_punctual_paced [OF assms(5)]] assms(6,7) acquired(1)
    by (simp add: effective_ttl_def)
  have "interval + 3 * lag < effective_ttl options" using assms(7) by simp
  from async_renewal_keeps [OF runs assms(5) this] confirmed show ?thesis
    unfolding async_renewal_task_def by blast
qed

subsection \<open>Examples\<close>

text \<open>
  A mutex that is acquired at 1 ns and renewed once, at 1001 ms, and a second renewal that is on its way at
  2000 ms: the thread has not seen its reply.
\<close>

definition renewed_guard :: guard_data where
  "renewed_guard = example_guard\<lparr>g_lease := lease_new 1 (from_millis 30000)\<rparr>"

lemma renewed_guard_run:
  "acquire_internal (\<lambda>_. True) ''u'' (Single ''job'') example_options False 0
     (example_internal [example_attempt 0 (Inr True)]) =
   Some (Inr (Some renewed_guard),
     [Sent_Acquire (g_request example_guard) (Inr True), Spawn_Renewal (g_request example_guard)])"
  by (simp add: example_defs example_guard_def renewed_guard_def)

definition renewed_pass :: sync_renew_pass where
  "renewed_pass =
     \<lparr>rp_state_now = from_millis 1001, rp_attempt = from_millis 1001, rp_reply = Inr True,
      rp_during = [Op_State (from_millis 1002)], rp_renew_now1 = from_millis 1003,
      rp_renew_now2 = from_millis 1003, rp_error_now = 0, rp_left_now1 = 0, rp_left_now2 = 0,
      rp_wait_now = from_millis 1, rp_sleep_now1 = from_millis 1, rp_sleep_now2 = from_millis 1,
      rp_waiting = [], rp_stop = False\<rparr>"

lemma renewed_thread_run:
  "sync_renewal_thread (g_request renewed_guard) example_options 1 (from_millis 1000) [renewed_pass]
     (lease_new 1 (effective_ttl example_options)) =
   (None,
    \<lparr>l_state = Active, l_start = from_millis 1001, l_ttl = from_millis 30000, l_changed = 1\<rparr>,
    [Waited 999000001, Sent_Renew (g_request renewed_guard) (Inr True)])"
  by (simp add: sync_renewal_thread_def renewed_guard_def renewed_pass_def renew_once_def sync_slept_def
      sync_sleep_def example_defs)

lemma example_ttls:
  "effective_ttl example_options = from_millis 30000" "effective_ttl async_options = from_millis 10"
  by (simp_all add: effective_ttl_def example_options_def async_options_def as_u64_def)

text \<open>The server while it executes the commands: 1001 ms after the acquisition, and after the renewal.\<close>

lemma example_end: "0 \<le> d \<Longrightarrow> executes mem_call m_now mem_advance offset u send ttl [] s (mem_advance d s)"
  by (intro executes_end path_step [OF path_refl step_tick]) simp_all

lemma example_confirmed:
  assumes "0 \<le> d" and "ttl_in_range (m_now s + d) ttl" and "server_millis offset t \<le> m_now s + d"
    and "fst (send (mem_advance d s)) = Inr True"
    and "executes mem_call m_now mem_advance offset u send ttl cs (snd (send (mem_advance d s))) s'"
  shows "executes mem_call m_now mem_advance offset u send ttl ((t, Inr True) # cs) s s'"
  using assms(1-4)
  by (intro executes_next [OF path_step [OF path_refl step_tick [OF assms(1)]] _ assms(5)])
    (simp_all add: executed_def prod_eq_iff memc.now_advance)

lemma example_unanswered:
  assumes "0 \<le> d" and "ttl_in_range (m_now s + d) ttl" and "server_millis offset t \<le> m_now s + d"
    and "executes mem_call m_now mem_advance offset u send ttl cs (snd (send (mem_advance d s))) s'"
  shows "executes mem_call m_now mem_advance offset u send ttl ((t, Inl error) # cs) s s'"
  using assms(1-3)
  by (intro executes_next [OF path_step [OF path_refl step_tick [OF assms(1)]] _ assms(4)])
    (simp_all add: executed_def memc.now_advance)

definition renewed_server :: mem where
  "renewed_server =
     mem_advance 1001 (snd (send_acquire mem_call (Single ''job'') ''u'' (from_millis 30000) (mem_init 0)))"

lemma renewed_server_now [simp]: "m_now renewed_server = 1001"
  by (simp add: renewed_server_def memc.now_advance)

lemma example_range: "0 \<le> t \<Longrightarrow> t \<le> 100000 \<Longrightarrow> n \<in> {1..100000} \<Longrightarrow> ttl_in_range t (from_millis n)"
  by (simp add: ttl_in_range_def max_exact_def)

lemma renewed_server_renews:
  "fst (send_renew mem_call (Single ''job'') ''u'' (from_millis 30000) renewed_server) = Inr True"
proof (rule memc.held_renews)
  let ?s = "snd (send_acquire mem_call (Single ''job'') ''u'' (from_millis 30000) (mem_init 0))"
  have "holds Mutex_Mode ''u'' 30000 (mem_view ?s ''job'')"
    using memc.acquire_holds [of "Single ''job''" "''u''" "from_millis 30000" "mem_init 0" "''job''"]
    by (simp add: mem_facts expiry_at_def example_range)
  then have "holds Mutex_Mode ''u'' 30000 (mem_view renewed_server ''job'')"
    by (simp add: renewed_server_def memc.view_advance expire_at_def)
  then show "k \<in> set (target_keys (Single ''job'')) \<Longrightarrow> \<exists>e. holds (target_mode (Single ''job'')) ''u'' e (mem_view renewed_server k) \<and>
      live (target_mode (Single ''job'')) (m_now renewed_server) e" for k
    by (auto intro!: exI [of _ 30000])
qed (simp add: example_range)


definition renewed_end :: mem where
  "renewed_end =
     mem_advance 1 (snd (send_renew mem_call (Single ''job'') ''u'' (from_millis 30000)
       (mem_advance 998 (snd (send_renew mem_call (Single ''job'') ''u'' (from_millis 30000) renewed_server)))))"

lemma mem_advance_0 [simp]: "mem_advance 0 s = s"
  by (simp add: mem_advance_def)

lemma example_millis [simp]: "server_millis 0 (from_millis n) = int n" "server_millis 0 (Suc 0) = 0"
  using server_millis_plus [of 0 0 n] by (simp_all add: server_millis_def nanos_per_milli_def)

lemma renewed_acquired:
  "executes mem_call m_now mem_advance 0 ''u'' (send_acquire mem_call (Single ''job'') ''u'' (from_millis 30000))
     (from_millis 30000) [(1, Inr True)] (mem_init 0) renewed_server"
  unfolding renewed_server_def
  by (rule example_confirmed [where d = 0]) (simp_all add: mem_facts example_range example_end)

lemma renewed_renewed:
  "executes mem_call m_now mem_advance 0 ''u'' (send_renew mem_call (Single ''job'') ''u'' (from_millis 30000))
     (from_millis 30000) [(from_millis 1001, Inr True), (from_millis 1999, Inl ''timeout'')] renewed_server renewed_end"
  unfolding renewed_end_def
  by (rule example_confirmed [where d = 0], simp_all add: renewed_server_renews example_range)
    (rule example_unanswered [where d = 998], simp_all add: example_range example_end)

lemma renewed_end_now [simp]: "m_now renewed_end = 2000"
  by (simp add: renewed_end_def memc.now_advance)

theorem sync_guard_protects_witness:
  "fst (send_acquire mem_call (Single ''job'') ''v'' (from_millis 1) renewed_end) \<noteq> Inr True"
proof -
  have "fst (lease_get_state (from_millis 2000)
      \<lparr>l_state = Active, l_start = from_millis 1001, l_ttl = from_millis 30000, l_changed = 1\<rparr>) = Active"
    by (simp add: lease_simps from_millis_def nanos_per_milli_def)
  moreover have "no_other_renewals [renewed_pass]"
    by (simp add: no_other_renewals_def renewed_pass_def)
  moreover have "renewals_sent [renewed_pass] [Waited 999000001, Sent_Renew (g_request renewed_guard) (Inr True)] =
      [(from_millis 1001, Inr True)]"
    by (simp add: renewals_sent_def renewed_pass_def)
  ultimately show ?thesis
    using sync_guard_protects [OF memc.redis_clock_axioms _ renewed_guard_run _ renewed_thread_run,
      where s = "mem_init 0" and mid = renewed_server and s' = renewed_end and offset = 0 and
        t = "from_millis 2000" and k = "''job''" and on_the_way = "[(from_millis 1999, Inl ''timeout'')]" and
        target' = "Single ''job''" and u' = "''v''" and ttl' = "from_millis 1"]
      renewed_acquired renewed_renewed
    by (simp add: example_ttls example_internal_def example_attempt_def acquired_at_def conflicts_def table_ok_empty example_range)
qed

text \<open>
  A write lock of the async variant. The reply of its first renewal is lost; the task tries again after the
  retry interval, and at 12 ms the lock is still held, although it was acquired for 10 ms.
\<close>

definition retried_options :: acquire_options where
  "retried_options =
     \<lparr>ao_retry_interval = from_millis 1, ao_lock_timeout = None, ao_ttl = from_millis 10,
      ao_renew_interval = Some (Some (from_millis 3))\<rparr>"

lemma retried_ttl: "effective_ttl retried_options = from_millis 10"
  by (simp add: effective_ttl_def retried_options_def as_u64_def)

definition retried_guard :: async_guard where
  "retried_guard =
     \<lparr>ag_request = async_request, ag_lease = lease_new 1 (from_millis 10), ag_sender = True,
      ag_stop_tx = True, ag_is_released = False\<rparr>"

lemma retried_guard_run:
  "async_acquire_internal ''u'' (Write ''doc'') retried_options False 0
     (async_example [async_pass 0 (Inr True)] Got_Result) =
   Some (Some (Inr (Some retried_guard)), [Sent_Acquire async_request (Inr True), Spawn_Renewal async_request])"
  by (simp add: async_example_defs async_request_def retried_options_def retried_guard_def)

definition retried_pass :: "instant \<Rightarrow> (string, bool) result \<Rightarrow> async_renew_pass" where
  "retried_pass now reply =
     \<lparr>rp_state_now = now, rp_attempt = now, rp_reply = reply, rp_during = [],
      rp_renew_now1 = now + 1, rp_renew_now2 = now + 1, rp_error_now = now + 1, rp_left_now1 = now + 1,
      rp_left_now2 = now + 1,
      rp_polls = [\<lparr>rq_others = [], rq_stop = False, rq_inactive = None, rq_deadline = Some now\<rparr>]\<rparr>"

definition retried_passes :: "async_renew_pass list" where
  "retried_passes = [retried_pass 3000001 (Inl ''timeout''), retried_pass (from_millis 5) (Inr True)]"

lemma retried_task_run:
  "async_renewal_task (ag_request retried_guard) retried_options 1 (from_millis 3) retried_passes
     (lease_new 1 (effective_ttl retried_options)) =
   (None,
    \<lparr>l_state = Active, l_start = from_millis 5, l_ttl = from_millis 10, l_changed = 1\<rparr>,
    [Sent_Renew async_request (Inl ''timeout''), Sent_Renew async_request (Inr True)])"
  unfolding async_renewal_task_def retried_ttl
  by (simp add: retried_passes_def retried_pass_def retried_guard_def retried_options_def renew_once_def
      poll_inactive_def fires_def deadline_elapsed_def lease_new_def lease_simps from_millis_def
      nanos_per_milli_def)

definition retried_server :: mem where
  "retried_server = snd (send_acquire mem_call (Write ''doc'') ''u'' (from_millis 10) (mem_init 0))"

definition retried_server1 :: mem where
  "retried_server1 =
     mem_advance 1 (snd (send_renew mem_call (Write ''doc'') ''u'' (from_millis 10) (mem_advance 4 retried_server)))"

definition retried_end :: mem where
  "retried_end = mem_advance 7 (snd (send_renew mem_call (Write ''doc'') ''u'' (from_millis 10) retried_server1))"

lemma retried_nows [simp]: "m_now retried_server = 0" "m_now retried_server1 = 5" "m_now retried_end = 12"
  by (simp_all add: retried_server_def retried_server1_def retried_end_def memc.now_advance)

lemma retried_acquired:
  "executes mem_call m_now mem_advance 0 ''u'' (send_acquire mem_call (Write ''doc'') ''u'' (from_millis 10))
     (from_millis 10) [(1, Inr True)] (mem_init 0) retried_server"
  unfolding retried_server_def
  by (rule example_confirmed [where d = 0])
    (simp_all add: mem_facts example_range example_end [where d = 0, simplified])

lemma retried_server_renews:
  "fst (send_renew mem_call (Write ''doc'') ''u'' (from_millis 10) retried_server1) = Inr True"
proof (rule memc.held_renews)
  have "executes mem_call m_now mem_advance 0 ''u'' (send_renew mem_call (Write ''doc'') ''u'' (from_millis 10))
      (from_millis 10) [(3000001, Inl ''timeout'')] retried_server retried_server1"
    unfolding retried_server1_def
    by (rule example_unanswered [where d = 4])
      (simp_all add: example_range example_end server_millis_def nanos_per_milli_def)
  with memc.acquires_cover [OF retried_acquired] have
    "covered m_now mem_view (Write ''doc'') ''u'' (from_millis 10) 0 retried_server1"
    using memc.renewals_cover [of 0 "''u''" "Write ''doc''" "from_millis 10"] by (simp add: table_ok_empty)
  then obtain e where "10 \<le> e" "holds Write_Mode ''u'' e (mem_view retried_server1 ''doc'')"
    by (auto simp: covered_def expiry_at_def)
  then show "k \<in> set (target_keys (Write ''doc'')) \<Longrightarrow> \<exists>e. holds (target_mode (Write ''doc'')) ''u'' e (mem_view retried_server1 k) \<and>
      live (target_mode (Write ''doc'')) (m_now retried_server1) e" for k
    by (auto intro!: exI [of _ e])
qed (simp add: example_range)

lemma retried_renewed:
  "executes mem_call m_now mem_advance 0 ''u'' (send_renew mem_call (Write ''doc'') ''u'' (from_millis 10))
     (from_millis 10) [(3000001, Inl ''timeout''), (from_millis 5, Inr True)] retried_server retried_end"
proof (rule example_unanswered [where d = 4])
  let ?s = "snd (send_renew mem_call (Write ''doc'') ''u'' (from_millis 10) (mem_advance 4 retried_server))"
  show "executes mem_call m_now mem_advance 0 ''u'' (send_renew mem_call (Write ''doc'') ''u'' (from_millis 10))
      (from_millis 10) [(from_millis 5, Inr True)] ?s retried_end"
    using retried_server_renews
    by (intro example_confirmed [where d = 1])
      (simp_all add: example_range example_end memc.now_advance retried_end_def flip: retried_server1_def)
qed (simp_all add: example_range server_millis_def nanos_per_milli_def)

theorem async_guard_protects_witness:
  "fst (send_acquire mem_call (MultipleRead [''doc'', ''toc'']) ''v'' (from_millis 1) retried_end) \<noteq> Inr True"
proof -
  have "fst (lease_get_state (from_millis 13)
      \<lparr>l_state = Active, l_start = from_millis 5, l_ttl = from_millis 10, l_changed = 1\<rparr>) = Active"
    "from_millis 12 + nanos_per_milli = from_millis 13"
    by (simp_all add: lease_simps from_millis_def nanos_per_milli_def)
  moreover have "only_task_renews retried_passes"
    by (simp add: only_task_renews_def retried_passes_def retried_pass_def)
  moreover have "renewals_sent retried_passes
      [Sent_Renew async_request (Inl ''timeout''), Sent_Renew async_request (Inr True)] =
      [(3000001, Inl ''timeout''), (from_millis 5, Inr True)]"
    by (simp add: renewals_sent_def retried_passes_def retried_pass_def)
  ultimately show ?thesis
    using async_guard_protects [OF memc.redis_clock_axioms _ retried_guard_run _ retried_task_run,
      where s = "mem_init 0" and mid = retried_server and s' = retried_end and offset = 0 and
        t = "from_millis 12" and k = "''doc''" and on_the_way = "[]" and
        target' = "MultipleRead [''doc'', ''toc'']" and u' = "''v''" and ttl' = "from_millis 1"]
      retried_acquired retried_renewed
    by (simp add: retried_ttl async_example_def async_pass_def acquired_at_def conflicts_def table_ok_empty example_range)
qed

text \<open>Both guards renew punctually; the reply is whatever the server answers.\<close>

lemma example_answered:
  assumes "0 \<le> d" and "ttl_in_range (m_now s + d) ttl" and "server_millis 0 (rp_attempt e) \<le> m_now s + d"
    and "m_now s + d \<le> server_millis 0 (rp_renew_now1 e)"
    and "rp_reply e = fst (send_renew mem_call target u ttl (mem_advance d s))"
  shows "answered mem_call m_now mem_advance 0 target u ttl [e] s (snd (send_renew mem_call target u ttl (mem_advance d s)))"
  using assms
  by (intro answered_next [OF path_step [OF path_refl step_tick [OF assms(1)]] _ _ _ _ answered_end [OF path_refl]])
    (simp_all add: prod_eq_iff memc.now_advance)

theorem sync_guard_keeps_lock_witness:
  "covered m_now mem_view (Single ''job'') ''u'' (from_millis 30000) 1001
     (snd (send_renew mem_call (Single ''job'') ''u'' (from_millis 30000) renewed_server))"
proof -
  have "punctual (from_millis 100) (from_millis 1000) (from_millis 30000) 1 [renewed_pass]"
    by (simp add: renewed_pass_def renewed_guard_def sync_sleep_def prompt_def lease_new_def lease_simps
        from_millis_def nanos_per_milli_def)
  moreover have "answered mem_call m_now mem_advance 0 (Single ''job'') ''u'' (from_millis 30000) [renewed_pass]
      renewed_server (snd (send_renew mem_call (Single ''job'') ''u'' (from_millis 30000) renewed_server))"
    using example_answered [of 0 renewed_server "from_millis 30000" renewed_pass "Single ''job''" "''u''"]
    by (simp add: renewed_pass_def renewed_server_renews example_range)
  moreover have "from_millis 1000 + 3 * from_millis 100 < from_millis 30000" "rp_attempt renewed_pass = from_millis 1001"
    by (simp_all add: renewed_pass_def) (simp add: from_millis_def nanos_per_milli_def)
  ultimately show ?thesis
    using sync_guard_keeps_lock [OF memc.redis_clock_axioms _ renewed_guard_run, where s = "mem_init 0" and
        mid = renewed_server and s' = "snd (send_renew mem_call (Single ''job'') ''u'' (from_millis 30000) renewed_server)"
        and offset = 0 and es = "[renewed_pass]" and lag = "from_millis 100" and
        interval = "from_millis 1000"] renewed_acquired
    by (auto simp: example_ttls example_internal_def example_attempt_def acquired_at_def table_ok_empty)
qed

definition kept_server :: mem where
  "kept_server =
     snd (send_renew mem_call (Write ''doc'') ''u'' (from_millis 10) (mem_advance 3 retried_server))"

definition kept_pass :: async_renew_pass where
  "kept_pass =
     retried_pass 3000001 (fst (send_renew mem_call (Write ''doc'') ''u'' (from_millis 10) (mem_advance 3 retried_server)))"

theorem async_guard_keeps_lock_witness:
  "covered m_now mem_view (Write ''doc'') ''u'' (from_millis 10) 3 kept_server"
proof -
  have "async_punctual 10 (from_millis 3) 1 [kept_pass]"
    by (simp add: kept_pass_def retried_pass_def retried_guard_def prompt_def fires_def deadline_elapsed_def
        lease_new_def elapsed_def from_millis_def nanos_per_milli_def)
  moreover have "answered mem_call m_now mem_advance 0 (Write ''doc'') ''u'' (from_millis 10) [kept_pass]
      retried_server kept_server"
    unfolding kept_server_def
    by (rule example_answered)
      (simp_all add: kept_pass_def retried_pass_def example_range server_millis_def nanos_per_milli_def)
  moreover have "from_millis 3 + 30 + nanos_per_milli < from_millis 10" "server_millis 0 3000001 = 3"
    "rp_attempt kept_pass = 3000001"
    by (simp_all add: from_millis_def server_millis_def nanos_per_milli_def kept_pass_def retried_pass_def)
  ultimately show ?thesis
    using async_guard_keeps_lock [OF memc.redis_clock_axioms _ retried_guard_run, where s = "mem_init 0" and
        mid = retried_server and s' = kept_server and offset = 0 and es = "[kept_pass]" and lag = 10 and interval = "from_millis 3"]
      retried_acquired
    by (auto simp: retried_ttl async_example_def async_pass_def acquired_at_def table_ok_empty)
qed

end
