(* ===== verification/Crash_Safety.thy ===== *)
theory Crash_Safety
  imports Server_Properties
begin

text \<open>
  What becomes of the lock of a process that crashed, or of a guard whose release was lost or did not fit in
  the queue: no command renews it any more, and when the TTL of its last command is over nobody has to wait
  for it. Here the entries of the lock table are followed backwards, to the command they come from.
\<close>

subsection \<open>Where a holder comes from\<close>

lemma holds_of_dropped: "holds m u e (dropped m' u' x) \<Longrightarrow> holds m u e x"
proof (cases "m' = Mutex_Mode \<or> \<not> is_zset x")
  case True
  then show "holds m u e (dropped m' u' x) \<Longrightarrow> holds m u e x"
    using holds_not_None [of m u e None]
    by (cases m') (auto simp: drop_mutex_def drop_member_def split: if_splits)
next
  case False
  then have "dropped m' u' x = put_zset x ((members_of x)(member_of m' u' := None))"
    by (cases m') (auto simp: drop_member_def)
  then show "holds m u e (dropped m' u' x) \<Longrightarrow> holds m u e x"
    by (cases m) (auto simp: put_zset_def split: if_splits)
qed

lemma holds_of_expire: "holds m u e (expire_at t x) \<Longrightarrow> holds m u e x"
  by (cases m) (auto simp: expire_at_def split: option.splits if_splits)

text \<open>A command with a new expiry writes no other holder than its own.\<close>

lemma holds_of_members:
  assumes "entry_ok x" and "m \<noteq> Mutex_Mode" and "0 < e"
    and "members_of x (member_of m u) = Some (if m = Read_Mode then e else - e)"
  shows "holds m u e x"
  using entry_ok_memberD(1) [OF assms(1,4)] assms by (cases m) auto

lemma holds_of_taken:
  assumes "holds m u e (taken m' u' n e' x)" and "entry_ok x"
  shows "holds m u e x \<or> u = u' \<and> e = e'"
proof (cases "m = Mutex_Mode \<or> m' = Mutex_Mode")
  case True
  with assms(1) show ?thesis
    by (cases m'; cases m)
      (auto simp: taken_abs claim_mutex_def claim_read_def claim_write_def members_of_def)
next
  case False
  let ?y = "checked m' n x"
  have "entry_ok ?y" using assms(2) by (rule entry_ok_checked)
  moreover have "0 < e"
    and "u = u' \<and> e = e' \<or> members_of ?y (member_of m u) = Some (if m = Read_Mode then e else - e)"
    using assms(1) False by (cases m; cases m'; auto simp: taken_def split: if_splits)+
  ultimately show ?thesis using False holds_of_members [of ?y m e u] holds_of_checked by blast
qed

subsection \<open>Steps with a bounded TTL\<close>

text \<open>
  \<open>ttl_path u ttl s s'\<close>: a path on which the commands of \<open>u\<close> have a TTL of at most \<open>ttl\<close>, as those of an
  acquisition and its renewals have the TTL of its options. All others send what they like.
\<close>

inductive ttl_path :: "'s redis_call \<Rightarrow> ('s \<Rightarrow> int) \<Rightarrow> (int \<Rightarrow> 's \<Rightarrow> 's) \<Rightarrow> uuid \<Rightarrow> duration \<Rightarrow>
    's \<Rightarrow> 's \<Rightarrow> bool" for call now advance u ttl where
  ttl_refl: "ttl_path call now advance u ttl s s"
| ttl_other: "ttl_path call now advance u ttl s t \<Longrightarrow> lock_step call now advance t a t' \<Longrightarrow> a \<noteq> Some u \<Longrightarrow>
    ttl_path call now advance u ttl s t'"
| ttl_acquire: "ttl_path call now advance u ttl s t \<Longrightarrow> ttl_in_range (now t) ttl' \<Longrightarrow> ttl' \<le> ttl \<Longrightarrow>
    ttl_path call now advance u ttl s (snd (send_acquire call target u ttl' t))"
| ttl_renew: "ttl_path call now advance u ttl s t \<Longrightarrow> ttl_in_range (now t) ttl' \<Longrightarrow> ttl' \<le> ttl \<Longrightarrow>
    ttl_path call now advance u ttl s (snd (send_renew call target u ttl' t))"
| ttl_release: "ttl_path call now advance u ttl s t \<Longrightarrow>
    ttl_path call now advance u ttl s (snd (send_release call target u t))"

text \<open>\<open>expires_by u t v\<close>: no holder \<open>u\<close> lasts longer than until \<open>t\<close>, on any key and in any mode.\<close>

definition expires_by :: "uuid \<Rightarrow> int \<Rightarrow> keyspace \<Rightarrow> bool" where
  "expires_by u t v \<longleftrightarrow> (\<forall>k m e. holds m u e (v k) \<longrightarrow> e \<le> t)"

lemma expires_by_later: "expires_by u t v \<Longrightarrow> t \<le> t' \<Longrightarrow> expires_by u t' v"
  by (fastforce simp: expires_by_def)

lemma as_millis_mono: "ttl' \<le> ttl \<Longrightarrow> as_millis ttl' \<le> as_millis ttl"
  by (simp add: as_millis_def div_le_mono)

lemma expiry_at_mono: "n \<le> n' \<Longrightarrow> ttl' \<le> ttl \<Longrightarrow> expiry_at n ttl' \<le> expiry_at n' ttl"
  using as_millis_mono [of ttl' ttl] by (simp add: expiry_at_def)

lemma holds_of_all_or_nothing:
  assumes "holds m u e (all_or_nothing bad (checked m' n) (taken m' u' n e') ks v k)" and "entry_ok (v k)"
  shows "holds m u e (v k) \<or> u = u' \<and> e = e'"
  by (rule all_or_nothing_cases [of bad "checked m' n" "taken m' u' n e'" ks v k])
    (use assms holds_of_checked holds_of_taken in auto)

context redis_clock
begin

lemma holds_of_acquire:
  assumes "holds m u e (view (snd (send_acquire call target u' ttl s)) k)" and "ttl_in_range (now s) ttl"
    and "table_ok (view s)"
  shows "holds m u e (view s k) \<or> u = u' \<and> e = expiry_at (now s) ttl"
proof (cases "\<forall>k\<in>set (target_keys target). kind_ok (target_mode target) (view s k)")
  case True
  with assms show ?thesis
    by (intro holds_of_all_or_nothing)
      (auto simp: send_acquire_table table_acquire_def Let_def table_ok_def)
next
  case False
  with assms(1) show ?thesis using send_wrong_kind(1) [of target s u' ttl] by auto
qed

lemma holds_of_renew:
  assumes "holds m u e (view (snd (send_renew call target u' ttl s)) k)" and "ttl_in_range (now s) ttl"
    and "table_ok (view s)"
  shows "holds m u e (view s k) \<or> u = u' \<and> e = expiry_at (now s) ttl"
proof (cases "\<forall>k\<in>set (target_keys target). kind_ok (target_mode target) (view s k)")
  case True
  with assms show ?thesis
    by (intro holds_of_all_or_nothing)
      (auto simp: send_renew_table table_renew_def Let_def table_ok_def)
next
  case False
  with assms(1) show ?thesis using send_wrong_kind(2) [of target s u' ttl] by auto
qed

lemma holds_of_release:
  "holds m u e (view (snd (send_release call target u' s)) k) \<Longrightarrow> holds m u e (view s k)"
  by (auto simp: send_release_table table_release_def Let_def update_at_apply split: if_splits
      intro: holds_of_dropped)

lemma holds_of_step:
  assumes "lock_step call now advance s a s'" and "a \<noteq> Some u" and "table_ok (view s)"
    and "holds m u e (view s' k)"
  shows "holds m u e (view s k)"
  using assms(1)
proof cases
  case step_acquire
  with assms holds_of_acquire show ?thesis by blast
next
  case step_renew
  with assms holds_of_renew show ?thesis by blast
next
  case step_release
  with assms holds_of_release show ?thesis by blast
next
  case step_tick
  with assms show ?thesis by (auto simp: view_advance intro: holds_of_expire)
qed

lemma expires_by_path:
  "lock_path call now advance (\<lambda>a. a \<noteq> Some u) s s' \<Longrightarrow> table_ok (view s) \<Longrightarrow> expires_by u t (view s) \<Longrightarrow>
     expires_by u t (view s')"
proof (induction rule: lock_path.induct)
  case (path_step s t' a s')
  with holds_of_step [OF path_step.hyps(2,3) lock_path_ok [OF path_step.hyps(1)]] show ?case
    by (simp add: expires_by_def) blast
qed simp

lemma ttl_path_facts:
  assumes "ttl_path call now advance u ttl s s'" and "table_ok (view s)"
    and "expires_by u (expiry_at (now s) ttl) (view s)"
  shows "table_ok (view s') \<and> expires_by u (expiry_at (now s') ttl) (view s')"
  using assms
proof (induction rule: ttl_path.induct)
  case (ttl_refl s)
  then show ?case by simp
next
  case (ttl_other s t a t')
  then have ok: "table_ok (view t)" and by_t: "expires_by u (expiry_at (now t) ttl) (view t)" by auto
  have "expires_by u (expiry_at (now t') ttl) (view t)"
    using by_t expiry_at_mono [OF lock_step_now [OF ttl_other.hyps(2)] order.refl] by (rule expires_by_later)
  with ok show ?case
    using lock_step_ok [OF ttl_other.hyps(2)] holds_of_step [OF ttl_other.hyps(2,3) ok]
    by (simp add: expires_by_def) blast
next
  case (ttl_acquire s t ttl' target)
  then have ok: "table_ok (view t)" "expires_by u (expiry_at (now t) ttl) (view t)" by auto
  then show ?case
    using send_acquire_ok holds_of_acquire [OF _ ttl_acquire.hyps(2)] expiry_at_mono [OF order.refl ttl_acquire.hyps(3)]
      ttl_acquire.hyps(2)
    by (simp add: expires_by_def) blast
next
  case (ttl_renew s t ttl' target)
  then have ok: "table_ok (view t)" "expires_by u (expiry_at (now t) ttl) (view t)" by auto
  then show ?case
    using send_renew_ok holds_of_renew [OF _ ttl_renew.hyps(2)] expiry_at_mono [OF order.refl ttl_renew.hyps(3)]
      ttl_renew.hyps(2)
    by (simp add: expires_by_def) blast
next
  case (ttl_release s t target)
  then show ?case using send_release_ok holds_of_release by (simp add: expires_by_def) blast
qed

lemma expired_is_dead: "expiry < now s \<Longrightarrow> e \<le> expiry \<Longrightarrow> \<not> live m (now s) e"
  by (cases m) simp_all

text \<open>
  A request is refused by a live holder. A mutex could also be refused by the set of a read-write lock, which
  can outlive its members, so its keys must not be used for both.
\<close>

lemma refused_by_holder:
  assumes "fst (send_acquire call target u ttl s) \<noteq> Inr True" and "table_ok (view s)" and "ttl_in_range (now s) ttl"
    and "target_mode target = Mutex_Mode \<longrightarrow>
      (\<forall>k\<in>set (target_keys target). is_zset (view s k) \<longrightarrow> view s k = None)"
  shows "\<exists>k\<in>set (target_keys target). \<exists>m w e. holds m w e (view s k) \<and> live m (now s) e"
proof (cases "target_mode target = Mutex_Mode")
  case True
  then obtain k where k: "k \<in> set (target_keys target)" "view s k \<noteq> None"
    using assms(1) send_acquire_table(1) [OF assms(3), of target u] by (auto simp: table_acquire_def Let_def)
  have ok: "entry_ok (view s k)" using assms(2) by (simp add: table_ok_def)
  obtain w t where v: "view s k = Some (RString w, Some t)"
    using k True assms(4) by (cases rule: entry_ok_cases [OF ok]) auto
  then have "holds Mutex_Mode w t (view s k) \<and> live Mutex_Mode (now s) t" using view_live [OF v] by simp
  with k(1) show ?thesis by blast
next
  case False
  with acquire_after_expiry [OF assms(2,3)] assms(1) show ?thesis by blast
qed

end

subsection \<open>Properties\<close>

text \<open>
  C11: A crashed process blocks nobody for longer than its TTL. Let a request start without any lock, and let
  all its commands have a TTL of at most \<open>ttl\<close>, whatever they are, whatever their replies and among any commands
  of others. If nothing of it arrives after \<open>t\<close>, because its process crashed, its connection broke, or the
  release of its guard did not fit in the queue, then after more than \<open>ttl\<close> any acquisition of any target
  succeeds, or a live holder with another uuid refuses it. Keys of mutexes must not be used for read-write locks.
\<close>

theorem abandoned_lock_blocks_nobody:
  assumes "redis_clock call view now advance" and "table_ok (view s)" and "\<forall>k m e. \<not> holds m u e (view s k)"
    and "ttl_path call now advance u ttl s t" and "lock_path call now advance (\<lambda>a. a \<noteq> Some u) t s'"
    and "expiry_at (now t) ttl < now s'" and "ttl_in_range (now s') ttl'"
    and "target_mode target = Mutex_Mode \<longrightarrow>
      (\<forall>k\<in>set (target_keys target). is_zset (view s' k) \<longrightarrow> view s' k = None)"
  shows "fst (send_acquire call target u' ttl' s') = Inr True \<or>
    (\<exists>k\<in>set (target_keys target). \<exists>m w e. w \<noteq> u \<and> holds m w e (view s' k) \<and> live m (now s') e)"
proof (rule disjCI)
  assume free: "\<not> (\<exists>k\<in>set (target_keys target). \<exists>m w e. w \<noteq> u \<and> holds m w e (view s' k) \<and> live m (now s') e)"
  have "expires_by u (expiry_at (now s) ttl) (view s)" using assms(3) by (simp add: expires_by_def)
  then have t: "table_ok (view t)" "expires_by u (expiry_at (now t) ttl) (view t)"
    using redis_clock.ttl_path_facts [OF assms(1,4,2)] by simp_all
  have ok: "table_ok (view s')" by (rule redis_clock.lock_path_ok [OF assms(1,5) t(1)])
  have "expires_by u (expiry_at (now t) ttl) (view s')"
    by (rule redis_clock.expires_by_path [OF assms(1,5) t])
  then have dead: "\<not> live m (now s') e" if "holds m u e (view s' k)" for m e k
    using that by (intro redis_clock.expired_is_dead [OF assms(1,6)]) (simp add: expires_by_def)
  show "fst (send_acquire call target u' ttl' s') = Inr True"
  proof (rule ccontr)
    assume "fst (send_acquire call target u' ttl' s') \<noteq> Inr True"
    from redis_clock.refused_by_holder [OF assms(1) this ok assms(7,8)]
    obtain k m w e where "k \<in> set (target_keys target)" "holds m w e (view s' k)" "live m (now s') e" by blast
    with free dead [of m e k] show False by (cases "w = u") auto
  qed
qed

text \<open>The owner of a mutex sends nothing any more; after six milliseconds another request gets the lock.\<close>

theorem abandoned_lock_blocks_nobody_witness:
  "fst (send_acquire mem_call (Single ''k'') ''v'' (from_millis 5)
     (mem_advance 6 (snd (send_acquire mem_call (Single ''k'') ''u'' (from_millis 5) (mem_init 0))))) = Inr True"
proof -
  let ?t = "snd (send_acquire mem_call (Single ''k'') ''u'' (from_millis 5) (mem_init 0))"
  have "holds Mutex_Mode ''u'' 5 (mem_view ?t ''k'')"
    using memc.acquire_holds [of "Single ''k''" "''u''" "from_millis 5" "mem_init 0" "''k''"]
    by (simp add: mem_facts expiry_at_def)
  then have "mem_view (mem_advance 6 ?t) ''k'' = None"
    by (simp add: memc.view_advance expire_at_def)
  moreover have "\<not> holds m w e None" for m w e using holds_not_None by blast
  moreover have "ttl_path mem_call m_now mem_advance ''u'' (from_millis 5) (mem_init 0) ?t"
    by (rule ttl_acquire [OF ttl_refl]) (simp_all add: mem_facts)
  moreover have "lock_path mem_call m_now mem_advance (\<lambda>a. a \<noteq> Some ''u'') ?t (mem_advance 6 ?t)"
    by (rule path_step [OF path_refl step_tick]) simp_all
  ultimately show ?thesis
    using abandoned_lock_blocks_nobody [OF memc.redis_clock_axioms, of "mem_init 0" "''u''" "from_millis 5" ?t
        "mem_advance 6 ?t" "from_millis 5" "Single ''k''" "''v''"]
    by (simp add: mem_facts memc.now_advance expiry_at_def ttl_in_range_def max_exact_def)
qed

end
