(* ===== verification/End_To_End.thy ===== *)
theory End_To_End
  imports Crash_Safety Sync_Guard Async_Guard
begin

text \<open>
  Acquisitions of both variants against a server: the events of an acquisition are executed by Redis, in
  their order, among the commands of other processes and renewals of the request; commands can be lost on the
  way, acquisitions as well as releases, and their replies on the way back.
\<close>

subsection \<open>Executing the events of a request\<close>

text \<open>
  \<open>served call now advance is_io r ttl lost evs s s'\<close>: the events \<open>evs\<close> of the request \<open>r\<close> take the server from
  \<open>s\<close> to \<open>s'\<close>, and \<open>lost\<close> says whether a release among them was not executed. A command that was answered has the
  reply of the server. One that failed was not executed, or it was; for an acquisition only an I/O error can
  hide that. A release in the queue is executed when the worker gets to it, or it is lost there: the
  command of the worker fails, or the worker is gone. A release that did not fit in the queue is lost.
\<close>

inductive served :: "'s redis_call \<Rightarrow> ('s \<Rightarrow> int) \<Rightarrow> (int \<Rightarrow> 's \<Rightarrow> 's) \<Rightarrow> (string \<Rightarrow> bool) \<Rightarrow>
    lock_request \<Rightarrow> duration \<Rightarrow> bool \<Rightarrow> guard_event list \<Rightarrow> 's \<Rightarrow> 's \<Rightarrow> bool"
  for call now advance is_io r ttl where
  served_done: "served call now advance is_io r ttl False [] s s"
| served_other: "lock_step call now advance s a t \<Longrightarrow> a \<noteq> Some (lr_uuid r) \<Longrightarrow>
    served call now advance is_io r ttl lost evs t s' \<Longrightarrow> served call now advance is_io r ttl lost evs s s'"
| served_renewal: "t = snd (send_renew call (lr_target r) (lr_uuid r) ttl s) \<Longrightarrow> ttl_in_range (now s) ttl \<Longrightarrow>
    served call now advance is_io r ttl lost evs t s' \<Longrightarrow> served call now advance is_io r ttl lost evs s s'"
| served_acquire: "send_acquire call (lr_target r) (lr_uuid r) ttl s = (reply, t) \<Longrightarrow> ttl_in_range (now s) ttl \<Longrightarrow>
    served call now advance is_io r ttl lost evs t s' \<Longrightarrow>
    served call now advance is_io r ttl lost (Sent_Acquire r reply # evs) s s'"
| served_reply_lost: "t = snd (send_acquire call (lr_target r) (lr_uuid r) ttl s) \<Longrightarrow> ttl_in_range (now s) ttl \<Longrightarrow>
    is_io error \<Longrightarrow> served call now advance is_io r ttl lost evs t s' \<Longrightarrow>
    served call now advance is_io r ttl lost (Sent_Acquire r (Inl error) # evs) s s'"
| served_not_executed: "served call now advance is_io r ttl lost evs s s' \<Longrightarrow>
    served call now advance is_io r ttl lost (Sent_Acquire r (Inl error) # evs) s s'"
| served_release: "send_release call (lr_target r) (lr_uuid r) s = (reply, t) \<Longrightarrow>
    served call now advance is_io r ttl lost evs t s' \<Longrightarrow>
    served call now advance is_io r ttl lost (Sent_Release r reply # evs) s s'"
| served_release_unseen: "t = snd (send_release call (lr_target r) (lr_uuid r) s) \<Longrightarrow>
    served call now advance is_io r ttl lost evs t s' \<Longrightarrow>
    served call now advance is_io r ttl lost (Sent_Release r (Inl error) # evs) s s'"
| served_release_lost: "served call now advance is_io r ttl lost evs s s' \<Longrightarrow>
    served call now advance is_io r ttl True (Sent_Release r (Inl error) # evs) s s'"
| served_queued: "t = snd (send_release call (lr_target r) (lr_uuid r) s) \<Longrightarrow>
    served call now advance is_io r ttl lost evs t s' \<Longrightarrow>
    served call now advance is_io r ttl lost (Queue_Release r (Inr ()) # evs) s s'"
| served_queue_lost: "served call now advance is_io r ttl lost evs s s' \<Longrightarrow>
    served call now advance is_io r ttl True (Queue_Release r queued # evs) s s'"
| served_spawn: "served call now advance is_io r ttl lost evs s s' \<Longrightarrow>
    served call now advance is_io r ttl lost (Spawn_Renewal r # evs) s s'"
| served_wait: "served call now advance is_io r ttl lost evs s s' \<Longrightarrow>
    served call now advance is_io r ttl lost (Waited d # evs) s s'"

text \<open>No key of the target has a trace of the request.\<close>

definition gone :: "lock_target \<Rightarrow> uuid \<Rightarrow> keyspace \<Rightarrow> bool" where
  "gone target u v \<longleftrightarrow> list_all (\<lambda>k. \<not> present (target_mode target) u (v k)) (target_keys target)"

lemma gone_iff: "gone target u v \<longleftrightarrow> (\<forall>k\<in>set (target_keys target). \<not> present (target_mode target) u (v k))"
  by (simp add: gone_def list_all_iff)

subsection \<open>Nobody else brings a request back\<close>

lemma members_put_zset [simp]: "members_of (put_zset x z) = (if z = Map.empty then Map.empty else z)"
  by (auto simp: put_zset_def members_of_def)

lemma absent_checked: "\<not> present m u x \<Longrightarrow> \<not> present m u (checked m' n x)"
proof (cases "m' = Mutex_Mode \<or> \<not> is_zset x")
  case True
  then show "\<not> present m u x \<Longrightarrow> \<not> present m u (checked m' n x)"
    by (cases m') (auto simp: purge_entry_def)
next
  case False
  then have c: "checked m' n x = put_zset x (zset_purge (- n) n (members_of x))"
    by (cases m') (auto simp: purge_entry_def)
  show "\<not> present m u x \<Longrightarrow> \<not> present m u (checked m' n x)"
    unfolding c
    by (cases m) (auto simp: zset_purge_def owns_mutex_def put_zset_def split: if_splits)
qed

lemma absent_taken: "\<not> present m u x \<Longrightarrow> u' \<noteq> u \<Longrightarrow> \<not> present m u (taken m' u' n e x)"
  using absent_checked [of m u x m' n]
  by (cases m; cases m')
    (auto simp: taken_def claim_mutex_def claim_read_def claim_write_def owns_mutex_def members_of_def)

lemma absent_all_or_nothing:
  assumes "\<not> present m u (v k)" and "u' \<noteq> u"
  shows "\<not> present m u (all_or_nothing bad (checked m' n) (taken m' u' n e) ks v k)"
  by (rule all_or_nothing_cases [of bad "checked m' n" "taken m' u' n e" ks v k])
    (use assms absent_checked absent_taken in simp_all)

lemma absent_dropped: "\<not> present m u x \<Longrightarrow> \<not> present m u (dropped m' u' x)"
  by (cases m; cases m') (auto simp: drop_mutex_def drop_member_def owns_mutex_def put_zset_def members_of_def split: if_splits)

lemma absent_dropped_own: "\<not> present m u (dropped m u x)"
  by (cases m) (auto simp: drop_mutex_def drop_member_def owns_mutex_def members_of_def is_zset_def put_zset_def
      split: option.splits)

lemma absent_expire: "\<not> present m u x \<Longrightarrow> \<not> present m u (expire_at t x)"
  by (cases m) (auto simp: expire_at_def owns_mutex_def members_of_def split: option.splits if_splits)

lemma holds_present: "holds m u e x \<Longrightarrow> present m u x"
  by (cases m) (auto simp: owns_mutex_def members_of_def)

lemma owned_present: "owned m now u x \<Longrightarrow> present m u x"
  by (cases m) (auto simp: reads_now_def writes_now_def)

context redis_clock
begin

lemma absent_refused_acquire:
  assumes "fst (send_acquire call target u' ttl s) \<noteq> Inr True" and "ttl_in_range (now s) ttl"
    and "\<not> present m u (view s k)"
  shows "\<not> present m u (view (snd (send_acquire call target u' ttl s)) k)"
proof (cases "\<forall>k\<in>set (target_keys target). kind_ok (target_mode target) (view s k)")
  case True
  let ?mode = "target_mode target"
  have "\<exists>k\<in>set (target_keys target). blocked ?mode (now s) (view s k)"
    using assms(1) send_acquire_table(1) [OF assms(2) True] by (auto simp: table_acquire_def Let_def)
  then have "view (snd (send_acquire call target u' ttl s)) k \<in> {view s k, checked ?mode (now s) (view s k)}"
    using all_or_nothing_refused [of "target_keys target" "blocked ?mode (now s)"]
    by (simp add: send_acquire_table(2) [OF assms(2) True] table_acquire_def Let_def)
  then show ?thesis using assms(3) absent_checked by (elim insertE emptyE) simp_all
next
  case False
  then show ?thesis using send_wrong_kind(1) [of target s u' ttl] assms(3) by auto
qed

lemma absent_step:
  assumes "lock_step call now advance s a t" and "a \<noteq> Some u" and "\<not> present m u (view s k)"
  shows "\<not> present m u (view t k)"
  using assms(1)
proof cases
  case (step_acquire ttl u' target)
  show ?thesis
  proof (cases "\<forall>k\<in>set (target_keys target). kind_ok (target_mode target) (view s k)")
    case True
    have "u' \<noteq> u" using step_acquire assms(2) by simp
    then show ?thesis
      using step_acquire assms(3)
      by (simp add: send_acquire_table [OF _ True] table_acquire_def Let_def absent_all_or_nothing)
  next
    case False
    with step_acquire assms(3) send_wrong_kind(1) [of target s u' ttl] show ?thesis by auto
  qed
next
  case (step_renew ttl u' target)
  show ?thesis
  proof (cases "\<forall>k\<in>set (target_keys target). kind_ok (target_mode target) (view s k)")
    case True
    have "u' \<noteq> u" using step_renew assms(2) by simp
    then show ?thesis
      using step_renew assms(3)
      by (simp add: send_renew_table [OF _ True] table_renew_def Let_def absent_all_or_nothing)
  next
    case False
    with step_renew assms(3) send_wrong_kind(2) [of target s u' ttl] show ?thesis by auto
  qed
next
  case (step_release u' target)
  with assms(3) absent_dropped show ?thesis
    by (simp add: send_release_table table_release_def Let_def update_at_apply)
next
  case (step_tick d)
  with assms(3) absent_expire show ?thesis by (simp add: view_advance)
qed

lemma gone_after_release: "gone target u (view (snd (send_release call target u s)))"
  by (simp add: gone_iff send_release_table table_release_def Let_def absent_dropped_own)

lemma gone_renewal:
  assumes "gone target u (view s)" and "ttl_in_range (now s) ttl"
  shows "gone target u (view (snd (send_renew call target u ttl s)))"
proof -
  let ?mode = "target_mode target" and ?s' = "snd (send_renew call target u ttl s)"
  have "\<not> present ?mode u (view ?s' k)" if k: "k \<in> set (target_keys target)" for k
  proof (cases "\<forall>k\<in>set (target_keys target). kind_ok ?mode (view s k)")
    case True
    have absent: "\<not> present ?mode u (view s k)" using assms(1) k by (simp add: gone_iff)
    then have "\<exists>k\<in>set (target_keys target). \<not> owned ?mode (now s) u (view s k)"
      using owned_present k by blast
    then have "view ?s' k \<in> {view s k, checked ?mode (now s) (view s k)}"
      using all_or_nothing_refused [of "target_keys target" "\<lambda>x. \<not> owned ?mode (now s) u x"]
      by (simp add: send_renew_table(2) [OF assms(2) True] table_renew_def Let_def)
    then show ?thesis using absent absent_checked by (elim insertE emptyE) simp_all
  next
    case False
    with assms(1) k show ?thesis using send_wrong_kind(2) [of target s u ttl] by (auto simp: gone_iff)
  qed
  then show ?thesis by (simp add: gone_iff)
qed

text \<open>
  Where every acquisition is followed by a release, and no release is lost, the server has no trace of the request.
\<close>

lemma served_gone:
  assumes "served call now advance is_io r ttl lost evs s s'" and "\<not> lost"
    and "b \<or> gone (lr_target r) (lr_uuid r) (view s)" and "\<not> pending_after is_io b evs"
  shows "gone (lr_target r) (lr_uuid r) (view s')"
  using assms
proof (induction arbitrary: b rule: served.induct)
  case (served_other s a t lost evs s')
  then show ?case using absent_step by (fastforce simp: gone_iff)
next
  case (served_renewal t s lost evs s')
  then show ?case using gone_renewal by blast
next
  case (served_acquire s reply t lost evs s')
  show ?case
  proof (rule served_acquire.IH)
    show "\<not> pending_after is_io (b \<or> may_hold is_io reply) evs" using served_acquire.prems by simp
    show "(b \<or> may_hold is_io reply) \<or> gone (lr_target r) (lr_uuid r) (view t)"
    proof (cases "reply = Inr True")
      case False
      with served_acquire.hyps served_acquire.prems(2)
        absent_refused_acquire [of "lr_target r" "lr_uuid r" ttl s "target_mode (lr_target r)" "lr_uuid r"]
      show ?thesis by (auto simp: gone_iff)
    qed simp
  qed (rule served_acquire.prems(1))
next
  case (served_release s reply t lost evs s')
  then show ?case using gone_after_release [of "lr_target r" "lr_uuid r" s] by auto
next
  case (served_release_unseen t s lost evs s' error)
  then show ?case using gone_after_release by auto
next
  case (served_queued t s lost evs s')
  then show ?case using gone_after_release by auto
qed (fastforce simp: gone_iff)+

text \<open>In every case the commands of the request have its TTL, and its holders are over after it.\<close>

lemma ttl_path_trans:
  "ttl_path call now advance u ttl t s' \<Longrightarrow> ttl_path call now advance u ttl s t \<Longrightarrow> ttl_path call now advance u ttl s s'"
  by (induction rule: ttl_path.induct) (auto intro: ttl_path.intros)

lemma served_ttl_path:
  "served call now advance is_io r ttl lost evs s s' \<Longrightarrow> ttl_path call now advance (lr_uuid r) ttl s s'"
proof (induction rule: served.induct)
  case (served_acquire s reply t lost evs s')
  then show ?case
    using ttl_path_trans [OF served_acquire.IH] ttl_acquire [OF ttl_refl, of now s ttl ttl call advance "lr_uuid r" "lr_target r"]
    by simp
next
  case (served_release s reply t lost evs s')
  then show ?case
    using ttl_path_trans [OF served_release.IH] ttl_release [OF ttl_refl, of call now advance "lr_uuid r" ttl s "lr_target r"]
    by simp
qed (auto intro: ttl_refl ttl_path_trans ttl_other [OF ttl_refl] ttl_acquire [OF ttl_refl] ttl_renew [OF ttl_refl]
    ttl_release [OF ttl_refl])

lemma served_expires:
  assumes "served call now advance is_io r ttl lost evs s s'" and "table_ok (view s)"
    and "\<forall>k m. \<not> present m (lr_uuid r) (view s k)"
  shows "expires_by (lr_uuid r) (expiry_at (now s') ttl) (view s')"
proof -
  have "expires_by (lr_uuid r) (expiry_at (now s) ttl) (view s)"
    using assms(3) holds_present by (fastforce simp: expires_by_def)
  with ttl_path_facts [OF served_ttl_path [OF assms(1)] assms(2)] show ?thesis by simp
qed

end

subsection \<open>Properties\<close>

text \<open>
  C7: A sync acquisition that does not return a guard leaves no trace in Redis. Let Redis execute the
  events of the acquisition and of its worker thread in their order, among any commands of other processes and
  renewals of the request, where acquisitions, releases and their replies can be lost, but no acquisition arrives
  after a later command of its request (C11 covers that). If no key had a trace of
  the uuid before, none of the target has one afterwards, whether the acquisition ended with an error, a timeout,
  a shutdown or because the lock is taken, provided that no release of the request was lost (or refused by the
  queue) and the worker did not panic. In every case a holder with this uuid lasts no longer than the TTL.
\<close>

theorem sync_failed_acquire_leaves_nothing:
  assumes "redis_clock call view now advance" and "table_ok (view s)"
    and "acquire_internal is_io uuid target options once start e = Some (r, evs)" and "\<not> got_guard r"
    and "served call now advance is_io \<lparr>lr_target = target, lr_uuid = uuid\<rparr> (effective_ttl options) lost evs s s'"
    and "\<forall>k m. \<not> present m uuid (view s k)"
  shows "(\<not> lost \<and> \<not> worker_panicked options e \<longrightarrow> gone target uuid (view s')) \<and>
    expires_by uuid (expiry_at (now s') (effective_ttl options)) (view s')"
proof -
  have "gone target uuid (view s')" if "\<not> lost" "\<not> worker_panicked options e"
  proof -
    have "\<not> pending_after is_io False evs"
      using acquire_internal_facts [OF assms(3)] assms(4) that(2) by blast
    from redis_clock.served_gone [OF assms(1,5) that(1) _ this] assms(6) show ?thesis by (simp add: gone_iff)
  qed
  moreover have "expires_by uuid (expiry_at (now s') (effective_ttl options)) (view s')"
    using redis_clock.served_expires [OF assms(1,5,2)] assms(6) by simp
  ultimately show ?thesis by blast
qed

text \<open>
  C8: An async acquisition that does not return a guard leaves no trace in Redis, under the same conditions,
  whether it ended with an error, a timeout, a shutdown, because the lock is taken or because its future was
  dropped: provided that no release was lost and the task was not stopped half-way. In every case a holder with this
  uuid lasts no longer than the TTL.
\<close>

theorem async_failed_acquire_leaves_nothing:
  assumes "redis_clock call view now advance" and "table_ok (view s)"
    and "async_acquire_internal uuid target options once start e = Some (r, evs)" and "\<not> sent_guard r"
    and "served call now advance (\<lambda>_. True) \<lparr>lr_target = target, lr_uuid = uuid\<rparr> (effective_ttl options) lost
      evs s s'"
    and "\<forall>k m. \<not> present m uuid (view s k)"
  shows "(\<not> lost \<and> \<not> task_stopped e \<longrightarrow> gone target uuid (view s')) \<and>
    expires_by uuid (expiry_at (now s') (effective_ttl options)) (view s')"
proof -
  have "gone target uuid (view s')" if "\<not> lost" "\<not> task_stopped e"
  proof -
    have "\<not> pending_after (\<lambda>_. True) False evs"
      using async_acquire_internal_facts [OF assms(3)] assms(4) that(2) by blast
    from redis_clock.served_gone [OF assms(1,5) that(1) _ this] assms(6) show ?thesis by (simp add: gone_iff)
  qed
  moreover have "expires_by uuid (expiry_at (now s') (effective_ttl options)) (view s')"
    using redis_clock.served_expires [OF assms(1,5,2)] assms(6) by simp
  ultimately show ?thesis by blast
qed

subsection \<open>Examples\<close>

lemma end_to_end_ttl:
  "effective_ttl example_options = from_millis 30000" "effective_ttl async_options = from_millis 10"
  "ttl_in_range 0 (from_millis 30000)" "ttl_in_range 0 (from_millis 10)"
  by (simp_all add: effective_ttl_def example_options_def async_options_def as_u64_def ttl_in_range_def max_exact_def)

lemma nothing_present: "\<not> present m u None"
  by (cases m) (simp_all add: owns_mutex_def members_of_def)

text \<open>The manager is shut down while the command is on its way, and the lock is released.\<close>

definition late_shutdown :: "(string, bool) result \<Rightarrow> internal_env" where
  "late_shutdown reply =
     example_internal [(example_attempt 0 (Inr True))\<lparr>at_shutdown2 := True, at_release := reply\<rparr>]"

lemma late_shutdown_run:
  "acquire_internal (\<lambda>_. True) ''u'' (Single ''job'') example_options False 0 (late_shutdown reply) =
     (let r = \<lparr>lr_target = Single ''job'', lr_uuid = ''u''\<rparr>
      in Some (Inl Shutdown, [Sent_Acquire r (Inr True), Sent_Release r reply]))"
  by (simp add: late_shutdown_def example_defs)

lemma late_shutdown_sane: "\<not> worker_panicked options (late_shutdown reply)"
  by (simp add: late_shutdown_def worker_panicked_def example_internal_def)

definition job_server :: mem where
  "job_server = snd (send_acquire mem_call (Single ''job'') ''u'' (from_millis 30000) (mem_init 0))"

lemma job_server_now [simp]: "m_now job_server = 0"
  by (simp add: job_server_def mem.now_send)

lemma late_shutdown_served:
  assumes "served mem_call m_now mem_advance (\<lambda>_. True) \<lparr>lr_target = Single ''job'', lr_uuid = ''u''\<rparr>
      (effective_ttl example_options) lost evs job_server s'"
  shows "served mem_call m_now mem_advance (\<lambda>_. True) \<lparr>lr_target = Single ''job'', lr_uuid = ''u''\<rparr>
      (effective_ttl example_options) lost
      (Sent_Acquire \<lparr>lr_target = Single ''job'', lr_uuid = ''u''\<rparr> (Inr True) # evs) (mem_init 0) s'"
  by (rule served_acquire [OF _ _ assms]) (simp_all add: end_to_end_ttl prod_eq_iff mem_facts job_server_def)

text \<open>The release gets through, but not its reply; or it is lost, and the lock stays for at most 30 seconds.\<close>

theorem sync_failed_acquire_leaves_nothing_witness:
  "gone (Single ''job'') ''u'' (mem_view (snd (send_release mem_call (Single ''job'') ''u'' job_server))) \<and>
   expires_by ''u'' 30000 (mem_view job_server)"
proof
  let ?r = "\<lparr>lr_target = Single ''job'', lr_uuid = ''u''\<rparr>" and ?ttl = "effective_ttl example_options"
  let ?s = "snd (send_release mem_call (Single ''job'') ''u'' job_server)"
  note failed = sync_failed_acquire_leaves_nothing [OF memc.redis_clock_axioms _
      late_shutdown_run [of "Inl ''reset''", unfolded Let_def], where s = "mem_init 0"]
  have "served mem_call m_now mem_advance (\<lambda>_. True) ?r ?ttl False [Sent_Release ?r (Inl ''reset'')] job_server ?s"
    by (rule served_release_unseen [OF _ served_done]) simp
  from failed [OF _ _ late_shutdown_served [OF this]]
  show "gone (Single ''job'') ''u'' (mem_view ?s)"
    by (simp add: got_guard_def nothing_present table_ok_empty late_shutdown_sane)
  have "served mem_call m_now mem_advance (\<lambda>_. True) ?r ?ttl True [Sent_Release ?r (Inl ''reset'')] job_server job_server"
    by (rule served_release_lost [OF served_done])
  from failed [OF _ _ late_shutdown_served [OF this]]
  show "expires_by ''u'' 30000 (mem_view job_server)"
    by (simp add: got_guard_def nothing_present table_ok_empty end_to_end_ttl expiry_at_def)
qed

text \<open>The command is executed and its reply is lost.\<close>

lemma lost_reply_run:
  "async_acquire_internal ''u'' (Write ''doc'') async_options False 0
     (async_example [async_pass 0 (Inl ''reset'')] Got_Result) =
   Some (Some (Inl (acquire_error_from ''reset'')),
     [Sent_Acquire async_request (Inl ''reset''), Sent_Release async_request (Inr True)])"
  by (simp add: async_example_defs async_request_def)

definition doc_server :: mem where
  "doc_server = snd (send_acquire mem_call (Write ''doc'') ''u'' (from_millis 10) (mem_init 0))"

theorem async_failed_acquire_leaves_nothing_witness:
  "gone (Write ''doc'') ''u'' (mem_view (snd (send_release mem_call (Write ''doc'') ''u'' doc_server)))"
proof -
  have "holds Write_Mode ''u'' 10 (mem_view doc_server ''doc'')"
    using memc.acquire_holds [of "Write ''doc''" "''u''" "from_millis 10" "mem_init 0" "''doc''"]
    by (simp add: doc_server_def mem_facts expiry_at_def end_to_end_ttl)
  then have "{k. k = ''doc'' \<and> present Write_Mode ''u'' (mem_view doc_server k)} = {''doc''}"
    using holds_present [of Write_Mode "''u''" 10 "mem_view doc_server ''doc''"] by blast
  then have released: "fst (send_release mem_call (Write ''doc'') ''u'' doc_server) = Inr True"
    by (simp add: mem.send_release_table table_release_def)
  have "served mem_call m_now mem_advance (\<lambda>_. True) \<lparr>lr_target = Write ''doc'', lr_uuid = ''u''\<rparr>
      (effective_ttl async_options) False [Sent_Acquire async_request (Inl ''reset''), Sent_Release async_request (Inr True)]
      (mem_init 0) (snd (send_release mem_call (Write ''doc'') ''u'' doc_server))"
    unfolding async_request_def
    by (rule served_reply_lost [where t = doc_server], simp_all add: end_to_end_ttl doc_server_def [symmetric])
      (rule served_release [OF _ served_done], simp add: prod_eq_iff released)
  from async_failed_acquire_leaves_nothing [OF memc.redis_clock_axioms _ lost_reply_run _ this] show ?thesis
    by (simp add: nothing_present table_ok_empty task_stopped_def async_example_def)
qed

end
