(* ===== verification/Release_System.thy ===== *)
theory Release_System
  imports End_To_End Sync_Manager Async_Manager
begin

text \<open>
  A manager together with the server, for the requests of dropped guards: the steps of the state machine of
  the manager run among the commands that reach the server, and whenever its release worker is done with a
  request, its release was executed or lost.
\<close>

subsection \<open>The composed system\<close>

text \<open>
  \<open>drop_step call now advance queue step fails r\<close>: a step of the pair of a server and a manager after the guard of
  the request \<open>r\<close> was dropped. The rest of the world sends anything but commands of \<open>r\<close>; of those only a
  renewal or a release that was on its way can still arrive. The worker executes releases; those of the requests
  \<open>fails\<close> may also be lost, which the worker only logs.
\<close>

inductive drop_step :: "'s redis_call \<Rightarrow> ('s \<Rightarrow> int) \<Rightarrow> (int \<Rightarrow> 's \<Rightarrow> 's) \<Rightarrow> ('m \<Rightarrow> release_queue) \<Rightarrow>
    ('m \<Rightarrow> 'm \<Rightarrow> bool) \<Rightarrow> (lock_request \<Rightarrow> bool) \<Rightarrow> lock_request \<Rightarrow> 's \<times> 'm \<Rightarrow> 's \<times> 'm \<Rightarrow> bool"
  for call now advance queue step fails r where
  drop_other: "lock_step call now advance s a s' \<Longrightarrow> a \<noteq> Some (lr_uuid r) \<Longrightarrow>
    drop_step call now advance queue step fails r (s, m) (s', m)"
| drop_renewal: "ttl_in_range (now s) ttl \<Longrightarrow>
    drop_step call now advance queue step fails r (s, m) (snd (send_renew call (lr_target r) (lr_uuid r) ttl s), m)"
| drop_release: "drop_step call now advance queue step fails r (s, m) (snd (send_release call (lr_target r) (lr_uuid r) s), m)"
| drop_manager: "step m m' \<Longrightarrow> rq_released (queue m') = rq_released (queue m) \<Longrightarrow>
    drop_step call now advance queue step fails r (s, m) (s, m')"
| drop_worker: "step m m' \<Longrightarrow> rq_released (queue m') = rq_released (queue m) @ [r'] \<Longrightarrow>
    drop_step call now advance queue step fails r (s, m) (snd (send_release call (lr_target r') (lr_uuid r') s), m')"
| drop_worker_fails: "step m m' \<Longrightarrow> rq_released (queue m') = rq_released (queue m) @ [r'] \<Longrightarrow> fails r' \<Longrightarrow>
    drop_step call now advance queue step fails r (s, m) (s, m')"

inductive_cases drop_stepE: "drop_step call now advance queue step fails r (s, m) (s', m')"

definition drop_path :: "'s redis_call \<Rightarrow> ('s \<Rightarrow> int) \<Rightarrow> (int \<Rightarrow> 's \<Rightarrow> 's) \<Rightarrow> ('m \<Rightarrow> release_queue) \<Rightarrow>
    ('m \<Rightarrow> 'm \<Rightarrow> bool) \<Rightarrow> (lock_request \<Rightarrow> bool) \<Rightarrow> lock_request \<Rightarrow> 's \<times> 'm \<Rightarrow> 's \<times> 'm \<Rightarrow> bool" where
  "drop_path call now advance queue step fails r = (drop_step call now advance queue step fails r)\<^sup>*\<^sup>*"

lemma drop_path_refl [simp]: "drop_path call now advance queue step fails r c c"
  by (simp add: drop_path_def)

lemma drop_path_next: "drop_step call now advance queue step fails r c c' \<Longrightarrow>
    drop_path call now advance queue step fails r c' d \<Longrightarrow> drop_path call now advance queue step fails r c d"
  by (simp add: drop_path_def converse_rtranclp_into_rtranclp)

subsection \<open>Nobody brings a released request back\<close>

context redis_clock
begin

lemma gone_step:
  "lock_step call now advance s a s' \<Longrightarrow> a \<noteq> Some u \<Longrightarrow> gone target u (view s) \<Longrightarrow> gone target u (view s')"
  using absent_step by (fastforce simp: gone_iff)

lemma gone_releases:
  "gone target u (view s) \<Longrightarrow> gone target u (view (snd (send_release call target' u' s)))"
  by (auto simp: gone_iff send_release_table table_release_def Let_def update_at_apply absent_dropped)

end

subsection \<open>The contract of a manager\<close>

text \<open>
  What the system relies on of a manager with a release queue: \<open>is_open\<close> until a shutdown closes it, with
  \<open>closed_at\<close> the requests that had entered the queue by then; it is \<open>finished\<close> only when they are released.
\<close>

locale release_service =
  fixes queue :: "'m \<Rightarrow> release_queue"
    and step :: "'m \<Rightarrow> 'm \<Rightarrow> bool"
    and inv :: "'m \<Rightarrow> bool"
    and accepting :: "'m \<Rightarrow> bool"
    and closed_at :: "'m \<Rightarrow> lock_request list"
    and finished :: "'m \<Rightarrow> bool"
  assumes inv_step: "step m m' \<Longrightarrow> inv m \<Longrightarrow> inv m'"
    and inv_queue: "inv m \<Longrightarrow> queue_ok (queue m)"
    and queue_grows: "step m m' \<Longrightarrow> prefix (rq_enqueued (queue m)) (rq_enqueued (queue m'))"
    and closing: "step m m' \<Longrightarrow> accepting m \<Longrightarrow> accepting m' \<or> closed_at m' = rq_enqueued (queue m')"
    and closed: "step m m' \<Longrightarrow> \<not> accepting m \<Longrightarrow> \<not> accepting m' \<and> closed_at m' = closed_at m"
    and finished_closed: "inv m \<Longrightarrow> finished m \<Longrightarrow> \<not> accepting m"
    and finished_done: "inv m \<Longrightarrow> finished m \<Longrightarrow> prefix (closed_at m) (rq_released (queue m))"
begin

text \<open>\<open>waited_for before m\<close>: the requests \<open>before\<close> entered the queue in time.\<close>

definition waited_for :: "lock_request list \<Rightarrow> 'm \<Rightarrow> bool" where
  "waited_for before m \<longleftrightarrow>
     inv m \<and> prefix before (rq_enqueued (queue m)) \<and> (accepting m \<or> prefix before (closed_at m))"

lemma waited_for_step: "step m m' \<Longrightarrow> waited_for before m \<Longrightarrow> waited_for before m'"
  unfolding waited_for_def
  by (metis inv_step queue_grows closing closed prefix_order.trans)

lemma waited_for_finished: "waited_for before m \<Longrightarrow> finished m \<Longrightarrow> prefix before (rq_released (queue m))"
  unfolding waited_for_def by (metis finished_closed finished_done prefix_order.trans)

text \<open>The worker comes to the requests in their order.\<close>

lemma worker_in_order:
  assumes "waited_for (before @ [r]) m" and "rq_released (queue m) = past @ [r']" and "length past = length before"
  shows "r' = r"
proof -
  have "prefix (past @ [r']) (rq_enqueued (queue m))"
    using assms(1,2) inv_queue [of m] by (simp add: waited_for_def queue_ok_def)
  moreover have "prefix (before @ [r]) (rq_enqueued (queue m))" using assms(1) by (simp add: waited_for_def)
  ultimately show ?thesis using assms(3) by (auto simp: prefix_def)
qed

end

locale release_system = redis_clock + release_service
begin

text \<open>As soon as the worker is past the request, the server has no trace of it, unless its release was lost.\<close>

definition dropped_ok :: "(lock_request \<Rightarrow> bool) \<Rightarrow> lock_request list \<Rightarrow> lock_request \<Rightarrow> 'a \<Rightarrow> 'b \<Rightarrow> bool" where
  "dropped_ok fails before r s m \<longleftrightarrow>
     waited_for (before @ [r]) m \<and>
     (length (rq_released (queue m)) \<le> length before \<or> fails r \<or>
       gone (lr_target r) (lr_uuid r) (view s))"

lemma dropped_ok_step:
  assumes "drop_step call now advance queue step fails r (s, m) (s', m')" and "dropped_ok fails before r s m"
  shows "dropped_ok fails before r s' m'"
proof -
  have later: "waited_for (before @ [r]) m'" if "step m m'"
    using waited_for_step [OF that] assms(2) by (simp add: dropped_ok_def)
  show ?thesis
    using assms(1)
  proof cases
    case (drop_other a)
    with assms(2) gone_step show ?thesis by (auto simp: dropped_ok_def)
  next
    case (drop_renewal ttl)
    with assms(2) gone_renewal show ?thesis by (auto simp: dropped_ok_def)
  next
    case drop_release
    with assms(2) gone_releases show ?thesis by (auto simp: dropped_ok_def)
  next
    case drop_manager
    with assms(2) later show ?thesis by (simp add: dropped_ok_def)
  next
    case (drop_worker r')
    show ?thesis
    proof (cases "length (rq_released (queue m)) = length before")
      case True
      have r: "r' = r" by (rule worker_in_order [OF later [OF drop_worker(2)] drop_worker(3) True])
      then show ?thesis using drop_worker later gone_after_release by (simp add: dropped_ok_def)
    next
      case False
      with assms(2) drop_worker later gone_releases show ?thesis by (auto simp: dropped_ok_def)
    qed
  next
    case (drop_worker_fails r')
    then have "length (rq_released (queue m)) \<noteq> length before \<or> fails r"
      using worker_in_order [OF later [OF drop_worker_fails(2)] drop_worker_fails(3)] by blast
    with assms(2) drop_worker_fails later show ?thesis by (auto simp: dropped_ok_def)
  qed
qed

lemma dropped_ok_path:
  assumes "drop_path call now advance queue step fails r (s, m) (s', m')" and "dropped_ok fails before r s m"
  shows "dropped_ok fails before r s' m'"
proof -
  have "case d of (s', m') \<Rightarrow> dropped_ok fails before r s' m'"
    if "(drop_step call now advance queue step fails r)\<^sup>*\<^sup>* (s, m) d" for d
    using that
  proof (induction rule: rtranclp_induct)
    case base
    with assms(2) show ?case by simp
  next
    case (step c d)
    then show ?case using dropped_ok_step by (cases c; cases d) auto
  qed
  from this [OF assms(1) [unfolded drop_path_def]] show ?thesis by simp
qed

lemma dropped_then_finished:
  assumes "inv m" and "accepting m" and "rq_enqueued (queue m) = before @ [r]"
    and "length (rq_released (queue m)) \<le> length before"
    and "drop_path call now advance queue step fails r (s, m) (s', m')" and "finished m'"
  shows "\<not> fails r \<Longrightarrow> gone (lr_target r) (lr_uuid r) (view s')" and "prefix (before @ [r]) (rq_released (queue m'))"
proof -
  have "dropped_ok fails before r s m" using assms(1-4) by (simp add: dropped_ok_def waited_for_def)
  then have ok: "dropped_ok fails before r s' m'" by (rule dropped_ok_path [OF assms(5)])
  then show all: "prefix (before @ [r]) (rq_released (queue m'))"
    using waited_for_finished assms(6) by (simp add: dropped_ok_def)
  from ok prefix_length_le [OF all] show "\<not> fails r \<Longrightarrow> gone (lr_target r) (lr_uuid r) (view s')"
    by (simp add: dropped_ok_def)
qed

end

subsection \<open>Both managers\<close>

lemma try_send_grows: "prefix (rq_enqueued q) (rq_enqueued (snd (queue_try_send c q)))"
  by (simp add: queue_try_send_def queue_push_def)

lemma queue_send_grows: "queue_send c q = Some (r, q') \<Longrightarrow> prefix (rq_enqueued q) (rq_enqueued q')"
  using try_send_grows [of q c]
  by (auto simp: queue_send_def split: prod.splits sum.splits send_error.splits)

lemma worker_keeps_entered:
  "worker_recv alive q = Some q' \<Longrightarrow> rq_enqueued q' = rq_enqueued q"
  "worker_release q = Some q' \<Longrightarrow> rq_enqueued q' = rq_enqueued q"
  "rq_enqueued (worker_dies q) = rq_enqueued q"
  by (auto simp: worker_recv_def worker_release_def worker_dies_def
      split: if_splits list.splits release_command.splits release_worker.splits)

lemma sync_step_grows:
  "sync_manager_step m m' \<Longrightarrow> prefix (rq_enqueued (sm_queue m)) (rq_enqueued (sm_queue m'))"
proof (induction rule: sync_manager_step.induct)
  case (sm_step_release r m res m')
  then show ?case
    using try_send_grows [of "sm_queue m" "Release r"] by (auto simp: sm_try_release_def split: if_splits prod.splits)
next
  case (sm_step_send c m m')
  then show ?case
    by (auto simp: shutdown_send_def sm_goto_def dest: queue_send_grows split: if_splits option.splits prod.splits sum.splits)
qed (auto simp: sm_admit_def sm_drop_sender_def shutdown_take_def shutdown_wake_def shutdown_recv_def
    shutdown_publish_def shutdown_wait_def sm_goto_def worker_keeps_entered split: if_splits shutdown_pc.splits)

lemma sync_step_closing:
  "sync_manager_step m m' \<Longrightarrow> sm_release_tx m \<Longrightarrow> sm_release_tx m' \<or> sm_closed_at m' = rq_enqueued (sm_queue m')"
  by (erule sync_manager_stepE)
    (auto simp: sm_admit_def sm_try_release_def sm_drop_sender_def shutdown_take_def shutdown_wake_def
      shutdown_send_def shutdown_recv_def shutdown_publish_def shutdown_wait_def sm_goto_def
      split: if_splits prod.splits option.splits sum.splits shutdown_pc.splits)

lemma returned_is_closed: "sync_manager_ok m \<Longrightarrow> sm_calls m c = Returned \<Longrightarrow> \<not> sm_release_tx m"
  using called_has_closer [of m c] by (auto simp: sync_manager_ok_def)

interpretation sync_service: release_service sm_queue sync_manager_step sync_manager_ok sm_release_tx
  sm_closed_at "\<lambda>m. \<exists>c. sm_calls m c = Returned"
proof (unfold_locales, goal_cases)
  case (2 m)
  then show ?case by (simp add: sync_manager_ok_def)
qed (use sync_manager_step_ok sync_step_grows sync_step_closing closed_stays_closed returned_is_closed
    returned_barrier_done in \<open>auto simp: barrier_done_def\<close>)

lemma async_step_grows:
  "async_manager_step m m' \<Longrightarrow> prefix (rq_enqueued (am_queue m)) (rq_enqueued (am_queue m'))"
proof (induction rule: async_manager_step.induct)
  case (am_step_release r m res m')
  then show ?case
    using try_send_grows [of "am_queue m" "Release r"] by (auto simp: am_try_release_def split: if_splits prod.splits)
next
  case (am_step_send m m')
  then show ?case
    by (auto simp: coordinator_send_def dest: queue_send_grows split: if_splits option.splits prod.splits sum.splits)
qed (auto simp: am_admit_def am_drop_sender_def async_shutdown_def async_shutdown_wait_def coordinator_await_def
    coordinator_complete_def monitor_failed_def worker_keeps_entered
    split: if_splits shutdown_state.splits coordinator_pc.splits)

lemma async_step_closing:
  "async_manager_step m m' \<Longrightarrow> am_admission m \<Longrightarrow> am_admission m' \<or> am_closed_at m' = rq_enqueued (am_queue m')"
  by (erule async_manager_stepE)
    (auto simp: am_admit_def am_try_release_def am_drop_sender_def async_shutdown_def
      async_shutdown_wait_def coordinator_send_def coordinator_await_def coordinator_complete_def
      monitor_failed_def
      split: if_splits prod.splits option.splits sum.splits shutdown_state.splits coordinator_pc.splits)

lemma async_returned_is_closed: "async_manager_ok m \<Longrightarrow> am_calls m c = Async_Returned \<Longrightarrow> \<not> am_admission m"
  by (cases "am_coordinator m") (auto simp: async_manager_ok_def dest: spec [of _ c])

interpretation async_service: release_service am_queue async_manager_step async_manager_ok am_admission
  am_closed_at "\<lambda>m. \<exists>c. am_calls m c = Async_Returned"
proof (unfold_locales, goal_cases)
  case (2 m)
  then show ?case by (simp add: async_manager_ok_def)
qed (use async_manager_step_ok async_step_grows async_step_closing am_closed_stays_closed
    async_returned_is_closed async_returned_done in \<open>auto simp: am_barrier_done_def\<close>)

interpretation sync_system: release_system mem_call mem_view m_now mem_advance sm_queue sync_manager_step
  sync_manager_ok sm_release_tx sm_closed_at "\<lambda>m. \<exists>c. sm_calls m c = Returned" ..

interpretation async_system: release_system mem_call mem_view m_now mem_advance am_queue async_manager_step
  async_manager_ok am_admission am_closed_at "\<lambda>m. \<exists>c. am_calls m c = Async_Returned" ..

text \<open>What is known when the release of a dropped guard was accepted.\<close>

lemma try_send_accepted:
  assumes "queue_try_send (Release r) q = (Inr (), q')" and "queue_ok q"
  shows "rq_enqueued q' = rq_enqueued q @ [r]" and "length (rq_released q') \<le> length (rq_enqueued q)"
  using try_send_okD [OF assms(1)] assms(2) prefix_length_le
  by (auto simp: queue_push_def queue_ok_def)

lemma sm_accepted:
  assumes "sync_manager_reach m" and "sm_release_tx m" and "sm_try_release r m = Some (Inr (), m')"
  shows "sync_manager_ok m'" and "sm_release_tx m'"
    and "rq_enqueued (sm_queue m') = rq_enqueued (sm_queue m) @ [r]"
    and "length (rq_released (sm_queue m')) \<le> length (rq_enqueued (sm_queue m))"
proof -
  obtain q where q: "queue_try_send (Release r) (sm_queue m) = (Inr (), q)" "m' = m\<lparr>sm_queue := q\<rparr>"
    using assms(3) by (auto simp: sm_try_release_def split: if_splits prod.splits)
  have ok: "sync_manager_ok m" using assms(1) by (rule sync_manager_reach_ok)
  then show "sync_manager_ok m'" using assms(3) by (rule sm_release_ok)
  show "sm_release_tx m'" using assms(2) q(2) by simp
  have "queue_ok (sm_queue m)" using ok by (simp add: sync_manager_ok_def)
  from try_send_accepted [OF q(1) this] q(2)
  show "rq_enqueued (sm_queue m') = rq_enqueued (sm_queue m) @ [r]"
    and "length (rq_released (sm_queue m')) \<le> length (rq_enqueued (sm_queue m))" by simp_all
qed

lemma am_accepted:
  assumes "async_manager_reach m" and "am_admission m" and "am_try_release r m = Some (Inr (), m')"
  shows "async_manager_ok m'" and "am_admission m'"
    and "rq_enqueued (am_queue m') = rq_enqueued (am_queue m) @ [r]"
    and "length (rq_released (am_queue m')) \<le> length (rq_enqueued (am_queue m))"
proof -
  obtain q where q: "queue_try_send (Release r) (am_queue m) = (Inr (), q)" "m' = m\<lparr>am_queue := q\<rparr>"
    using assms(3) by (auto simp: am_try_release_def split: if_splits prod.splits)
  have ok: "async_manager_ok m" using assms(1) by (rule async_manager_reach_ok)
  then show "async_manager_ok m'" using assms(3) by (rule am_release_ok)
  show "am_admission m'" using assms(2) q(2) by simp
  have "queue_ok (am_queue m)" using ok by (simp add: async_manager_ok_def)
  from try_send_accepted [OF q(1) this] q(2)
  show "rq_enqueued (am_queue m') = rq_enqueued (am_queue m) @ [r]"
    and "length (rq_released (am_queue m')) \<le> length (rq_enqueued (am_queue m))" by simp_all
qed

subsection \<open>Properties\<close>

text \<open>
  C9: Shutting down a sync manager gives back every lock whose guard was dropped, if the release was accepted and
  reaches the server. Let the queue of a manager that is not shut down accept the release of a dropped guard (a
  queue that is full or closed refuses it, and the lock stays until its TTL). Whatever the manager, its worker,
  other processes and the clock do then, in any order, and whichever commands of the guard arrive late: when a call
  of \<open>shutdown\<close> has returned, the worker has come to all requests up to this one in the order of the queue, and no
  key of the guard has a trace of it, unless its own release was lost on the way, which the worker only logs.
\<close>

theorem sync_shutdown_frees_dropped:
  assumes "redis_clock call view now advance"
    and "sync_manager_reach m" and "sm_release_tx m"
    and "snd (guard_drop (Inr ()) g) = [Queue_Release r (Inr ())]" and "sm_try_release r m = Some (Inr (), m1)"
    and "drop_path call now advance sm_queue sync_manager_step fails r (s, m1) (s', m')" and "sm_calls m' c = Returned"
  shows "(\<not> fails (g_request g) \<longrightarrow> gone (lr_target (g_request g)) (lr_uuid (g_request g)) (view s')) \<and>
    prefix (rq_enqueued (sm_queue m) @ [g_request g]) (rq_released (sm_queue m'))"
proof -
  have system: "release_system call view now advance sm_queue sync_manager_step sync_manager_ok sm_release_tx
      sm_closed_at (\<lambda>m. \<exists>c. sm_calls m c = Returned)"
    by (rule release_system.intro [OF assms(1) sync_service.release_service_axioms])
  have "r = g_request g" using assms(4) by (auto simp: guard_drop_def split: if_splits)
  moreover note release_system.dropped_then_finished [OF system sm_accepted [OF assms(2,3,5)] assms(6)]
  ultimately show ?thesis using assms(7) by blast
qed

text \<open>
  C10: Shutting down an async manager gives back every lock whose guard was dropped, under the same
  conditions (the queue accepted the release, and it was not lost on the way), also when the worker fails after it
  sent the release.
\<close>

theorem async_shutdown_frees_dropped:
  assumes "redis_clock call view now advance"
    and "async_manager_reach m" and "am_admission m"
    and "snd (async_guard_drop (Inr ()) g) = [Queue_Release r (Inr ())]" and "am_try_release r m = Some (Inr (), m1)"
    and "drop_path call now advance am_queue async_manager_step fails r (s, m1) (s', m')"
    and "am_calls m' c = Async_Returned"
  shows "(\<not> fails (ag_request g) \<longrightarrow> gone (lr_target (ag_request g)) (lr_uuid (ag_request g)) (view s')) \<and>
    prefix (rq_enqueued (am_queue m) @ [ag_request g]) (rq_released (am_queue m'))"
proof -
  have system: "release_system call view now advance am_queue async_manager_step async_manager_ok am_admission
      am_closed_at (\<lambda>m. \<exists>c. am_calls m c = Async_Returned)"
    by (rule release_system.intro [OF assms(1) async_service.release_service_axioms])
  have "r = ag_request g" using assms(4) by (auto simp: async_guard_drop_def split: if_splits)
  moreover note release_system.dropped_then_finished [OF system am_accepted [OF assms(2,3,5)] assms(6)]
  ultimately show ?thesis using assms(7) by blast
qed

subsection \<open>Examples\<close>

text \<open>
  The lock is held in Redis when its guard is dropped; call 7 shuts the manager down while the release is in
  the queue.
\<close>

lemma sm_apply_drop:
  assumes "sm_apply e m = Some m'" and "e \<noteq> E_Worker_Release"
  shows "drop_step call now advance sm_queue sync_manager_step fails r (s, m) (s, m')"
proof (rule drop_manager [where step = sync_manager_step and queue = sm_queue, OF sm_apply_step [OF assms(1)]])
  show "rq_released (sm_queue m') = rq_released (sm_queue m)"
    using assms
    by (cases e) (auto simp: sm_run_defs sm_drop_sender_def split: if_splits prod.splits option.splits
        sum.splits list.splits release_command.splits shutdown_pc.splits send_error.splits)
qed

lemma sm_exec_drop: "sm_exec es m = Some m' \<Longrightarrow> E_Worker_Release \<notin> set es \<Longrightarrow>
    drop_path call now advance sm_queue sync_manager_step fails r (s, m') d \<Longrightarrow>
    drop_path call now advance sm_queue sync_manager_step fails r (s, m) d"
  by (induction es arbitrary: m) (auto split: option.splits intro: drop_path_next sm_apply_drop)

definition sm_admitted :: sync_manager where
  "sm_admitted = the (sm_exec [E_Admit] sync_manager_new)"

definition sm_releasing :: sync_manager where
  "sm_releasing = the (sm_exec [E_Take 7, E_Wake 7, E_Send 7, E_Worker_Recv] sm_queued)"

definition sm_released :: sync_manager where
  "sm_released = the (sm_exec [E_Worker_Release] sm_releasing)"

lemmas sm_drop_defs = sm_admitted_def sm_queued_def sm_releasing_def sm_released_def sm_ended_def sm_taken_def

lemma sm_drop_runs:
  "sm_exec [E_Admit] sync_manager_new = Some sm_admitted"
  "sm_try_release example_request sm_admitted = Some (Inr (), sm_queued)"
  "sm_exec [E_Take 7, E_Wake 7, E_Send 7, E_Worker_Recv] sm_queued = Some sm_releasing"
  "sm_apply E_Worker_Release sm_releasing = Some sm_released"
  "sm_exec [E_Worker_Recv, E_Recv 7, E_Publish 7, E_Wait 7] sm_released = Some sm_ended"
  "rq_released (sm_queue sm_releasing) = []" "rq_released (sm_queue sm_released) = [example_request]"
  "sm_release_tx sm_admitted" "rq_enqueued (sm_queue sm_admitted) = []"
  by (simp_all add: sm_drop_defs sm_run_defs)

definition held_server :: "lock_target \<Rightarrow> mem" where
  "held_server target = snd (send_acquire mem_call target ''u'' (from_millis 5) (mem_init 0))"

theorem sync_shutdown_frees_dropped_witness:
  "gone (Single ''k'') ''u'' (mem_view (snd (send_release mem_call (Single ''k'') ''u'' (held_server (Single ''k'')))))"
proof -
  define g where "g = \<lparr>g_request = example_request, g_release_tx = True, g_is_released = False,
    g_lease = lease_new 1 (from_millis 5), g_stop_tx = False\<rparr>"
  let ?s = "held_server (Single ''k'')" and ?s' = "snd (send_release mem_call (Single ''k'') ''u'' (held_server (Single ''k'')))"
  have "drop_step mem_call m_now mem_advance sm_queue sync_manager_step (\<lambda>r. r \<noteq> example_request) example_request
      (?s, sm_releasing) (?s', sm_released)"
    using drop_worker [where step = sync_manager_step and queue = sm_queue, OF sm_apply_step [OF sm_drop_runs(4)], of example_request] sm_drop_runs(6,7)
    by (simp add: example_request_def)
  from drop_path_next [OF this sm_exec_drop [OF sm_drop_runs(5) _ drop_path_refl]]
  have "drop_path mem_call m_now mem_advance sm_queue sync_manager_step (\<lambda>r. r \<noteq> example_request) example_request
      (?s, sm_queued) (?s', sm_ended)"
    by (intro sm_exec_drop [OF sm_drop_runs(3)]) simp_all
  from sync_shutdown_frees_dropped [OF memc.redis_clock_axioms sm_exec_reach [OF sm_drop_runs(1)]
      sm_drop_runs(8) _ sm_drop_runs(2) this sm_example_facts(4), of g]
  show ?thesis by (simp add: g_def guard_drop_def example_request_def)
qed

lemma am_apply_drop:
  assumes "am_apply e m = Some m'" and "e \<noteq> A_Worker_Release"
  shows "drop_step call now advance am_queue async_manager_step fails r (s, m) (s, m')"
proof (rule drop_manager [where step = async_manager_step and queue = am_queue, OF am_apply_step [OF assms(1)]])
  show "rq_released (am_queue m') = rq_released (am_queue m)"
    using assms
    by (cases e) (auto simp: am_run_defs am_drop_sender_def split: if_splits prod.splits option.splits
        sum.splits list.splits release_command.splits shutdown_state.splits coordinator_pc.splits send_error.splits)
qed

lemma am_exec_drop: "am_exec es m = Some m' \<Longrightarrow> A_Worker_Release \<notin> set es \<Longrightarrow>
    drop_path call now advance am_queue async_manager_step fails r (s, m') d \<Longrightarrow>
    drop_path call now advance am_queue async_manager_step fails r (s, m) d"
  by (induction es arbitrary: m) (auto split: option.splits intro: drop_path_next am_apply_drop)

text \<open>A read lock; the worker dies after it acknowledged the barrier.\<close>

abbreviation read_request :: lock_request where
  "read_request \<equiv> \<lparr>lr_target = Read ''k'', lr_uuid = ''u''\<rparr>"

definition am_admitted :: async_manager where
  "am_admitted = the (am_exec [A_Admit] async_manager_new)"

definition am_releasing :: async_manager where
  "am_releasing = the (am_exec [A_Shutdown 7, A_Send, A_Worker_Recv] am_queued)"

definition am_released :: async_manager where
  "am_released = the (am_exec [A_Worker_Release] am_releasing)"

lemmas am_drop_defs = am_admitted_def am_queued_def am_releasing_def am_released_def am_ended_def am_called_def

lemma am_drop_runs:
  "am_exec [A_Admit] async_manager_new = Some am_admitted"
  "am_try_release read_request am_admitted = Some (Inr (), am_queued)"
  "am_exec [A_Shutdown 7, A_Send, A_Worker_Recv] am_queued = Some am_releasing"
  "am_apply A_Worker_Release am_releasing = Some am_released"
  "am_exec [A_Worker_Recv, A_Await, A_Complete, A_Worker_Dies, A_Monitor, A_Wait 7] am_released = Some am_ended"
  "rq_released (am_queue am_releasing) = []" "rq_released (am_queue am_released) = [read_request]"
  "am_admission am_admitted"
  by (simp_all add: am_drop_defs am_run_defs)

text \<open>A renewal of the guard arrives after the release.\<close>

theorem async_shutdown_frees_dropped_witness:
  "gone (Read ''k'') ''u'' (mem_view (snd (send_renew mem_call (Read ''k'') ''u'' (from_millis 5)
     (snd (send_release mem_call (Read ''k'') ''u'' (held_server (Read ''k'')))))))"
proof -
  define g where "g = \<lparr>ag_request = read_request, ag_lease = lease_new 1 (from_millis 5), ag_sender = True,
    ag_stop_tx = False, ag_is_released = False\<rparr>"
  let ?s = "held_server (Read ''k'')" and ?s' = "snd (send_release mem_call (Read ''k'') ''u'' (held_server (Read ''k'')))"
  let ?s'' = "snd (send_renew mem_call (Read ''k'') ''u'' (from_millis 5) ?s')"
  have "m_now ?s' = 0" by (simp add: held_server_def mem.now_send)
  then have "drop_step mem_call m_now mem_advance am_queue async_manager_step (\<lambda>r. r \<noteq> read_request) read_request
      (?s', am_released) (?s'', am_released)"
    using drop_renewal [of m_now ?s' "from_millis 5" mem_call mem_advance am_queue async_manager_step "\<lambda>r. r \<noteq> read_request" read_request]
    by (simp add: mem_ttl_in_range)
  then have "drop_path mem_call m_now mem_advance am_queue async_manager_step (\<lambda>r. r \<noteq> read_request) read_request
      (?s', am_released) (?s'', am_ended)"
    by (rule drop_path_next [OF _ am_exec_drop [OF am_drop_runs(5) _ drop_path_refl]]) simp
  moreover have "drop_step mem_call m_now mem_advance am_queue async_manager_step (\<lambda>r. r \<noteq> read_request) read_request
      (?s, am_releasing) (?s', am_released)"
    using drop_worker [where step = async_manager_step and queue = am_queue, OF am_apply_step [OF am_drop_runs(4)], of read_request] am_drop_runs(6,7)
    by simp
  ultimately have "drop_path mem_call m_now mem_advance am_queue async_manager_step (\<lambda>r. r \<noteq> read_request) read_request
      (?s, am_queued) (?s'', am_ended)"
    by (intro am_exec_drop [OF am_drop_runs(3)]) (simp_all add: drop_path_next)
  from async_shutdown_frees_dropped [OF memc.redis_clock_axioms am_exec_reach [OF am_drop_runs(1)]
      am_drop_runs(8) _ am_drop_runs(2) this am_example_facts(3), of g]
  show ?thesis by (simp add: g_def async_guard_drop_def)
qed

end
