(* ===== verification/Shutdown_Liveness.thy ===== *)
theory Shutdown_Liveness
  imports Sync_Manager Async_Manager
begin

text \<open>
  A shutdown comes to its end: from every state in which a call of \<open>shutdown\<close> is on its way, a bounded number
  of steps of the calls that were made and of the worker ends it. A measure counts the work that is left in
  the queue and ahead of the calls; as long as the call has not ended one of these steps is enabled and makes
  the measure smaller.
\<close>

subsection \<open>The work that is left\<close>

fun worker_work :: "release_worker \<Rightarrow> nat" where
  "worker_work (Releasing r) = 1"
| "worker_work Receiving = 0"
| "worker_work Stopped = 0"

definition queue_work :: "release_queue \<Rightarrow> nat" where
  "queue_work q = 2 * length (rq_items q) + worker_work (rq_worker q)"

lemma queue_work_bound: "queue_ok q \<Longrightarrow> queue_work q \<le> 2 * RECYCLE_CHANNEL_BUFFER + 1"
  by (cases "rq_worker q") (auto simp: queue_work_def queue_ok_def)

lemma worker_recv_work: "worker_recv alive q = Some q' \<Longrightarrow> rq_items q \<noteq> [] \<Longrightarrow> queue_work q' < queue_work q"
  by (auto simp: worker_recv_def queue_work_def split: if_splits list.splits release_command.splits)

lemma worker_release_work: "worker_release q = Some q' \<Longrightarrow> queue_work q' < queue_work q"
  by (auto simp: worker_release_def queue_work_def split: release_worker.splits)

lemma queue_send_work: "queue_send c q = Some (res, q') \<Longrightarrow> queue_work q' \<le> queue_work q + 2"
  by (auto simp: queue_send_def queue_try_send_def queue_push_def queue_work_def
      split: if_splits)

fun pc_work :: "shutdown_pc \<Rightarrow> nat" where
  "pc_work Not_Called = 0"
| "pc_work (Waking b) = 7"
| "pc_work Sending_Barrier = 6"
| "pc_work Awaiting_Ack = 3"
| "pc_work (Publishing b) = 2"
| "pc_work Waiting_Result = 1"
| "pc_work Returned = 0"
| "pc_work Panicked = 0"

lemma pc_work_bound: "pc_work pc \<le> 7"
  by (cases pc) simp_all

text \<open>The work before the call \<open>c\<close> can end, where \<open>t\<close> is the call that took the sender.\<close>

definition sm_work :: "nat \<Rightarrow> nat \<Rightarrow> sync_manager \<Rightarrow> nat" where
  "sm_work t c m = queue_work (sm_queue m) + (\<Sum>d\<in>{t, c}. pc_work (sm_calls m d))"

text \<open>Steps of calls of \<open>shutdown\<close> that were made, and of the worker.\<close>

fun sm_internal :: "sm_event \<Rightarrow> bool" where
  "sm_internal E_Admit = False"
| "sm_internal (E_Release r) = False"
| "sm_internal E_Drop = False"
| "sm_internal (E_Take c) = False"
| "sm_internal e = True"

lemma sm_goto_simps [simp]:
  "sm_calls (sm_goto c pc m) = (sm_calls m)(c := pc)" "sm_queue (sm_goto c pc m) = sm_queue m"
  "sm_closer (sm_goto c pc m) = sm_closer m"
  by (simp_all add: sm_goto_def)

lemma call_decreases:
  assumes "call_enabled d m"
  obtains e m' where "sm_internal e" "sm_apply e m = Some m'"
    "queue_work (sm_queue m') + pc_work (sm_calls m' d) < queue_work (sm_queue m) + pc_work (sm_calls m d)"
    "\<And>c. c \<noteq> d \<Longrightarrow> sm_calls m' c = sm_calls m c"
proof -
  note that' = that [of "E_Wake d"] that [of "E_Send d"] that [of "E_Recv d"] that [of "E_Publish d"] that [of "E_Wait d"]
  from assms consider (wake) m' where "shutdown_wake d m = Some m'" | (send) m' where "shutdown_send d m = Some m'"
    | (recv) m' where "shutdown_recv d m = Some m'" | (publish) m' where "shutdown_publish d m = Some m'"
    | (wait) m' where "shutdown_wait d m = Some m'" by (auto simp: call_enabled_def)
  then show thesis
  proof cases
    case wake
    then show ?thesis using that'(1) by (auto simp: shutdown_wake_def split: shutdown_pc.splits)
  next
    case send
    then obtain res q where q: "queue_send (Barrier d) (sm_queue m) = Some (res, q)"
      and pc: "sm_calls m d = Sending_Barrier"
      by (auto simp: shutdown_send_def split: if_splits option.splits)
    from q have "queue_work q \<le> queue_work (sm_queue m) + 2" by (rule queue_send_work)
    then show ?thesis using send that'(2) q pc
      by (cases res) (auto simp: shutdown_send_def)
  next
    case recv
    then show ?thesis using that'(3) by (auto simp: shutdown_recv_def split: if_splits)
  next
    case publish
    then show ?thesis using that'(4) by (auto simp: shutdown_publish_def split: shutdown_pc.splits)
  next
    case wait
    then show ?thesis using that'(5) by (auto simp: shutdown_wait_def split: if_splits)
  qed
qed

lemma worker_decreases:
  assumes "queue_ok q" and "rq_items q \<noteq> []"
  obtains q' where "worker_recv alive q = Some q'" and "queue_work q' < queue_work q"
  | q' where "worker_release q = Some q'" and "queue_work q' < queue_work q"
  using worker_enabled [OF assms, of alive] worker_recv_work [OF _ assms(2)] worker_release_work that by blast

subsection \<open>The sync shutdown\<close>

lemma sm_internal_keeps:
  assumes "sm_internal e" and "sm_apply e m = Some m'" and "sync_manager_ok m" and "sm_closer m = Some t"
    and "sm_calls m c \<noteq> Not_Called"
  shows "sync_manager_ok m'" and "sm_closer m' = Some t" and "sm_calls m' c \<noteq> Not_Called"
proof -
  show "sync_manager_ok m'" using sync_manager_step_ok [OF sm_apply_step [OF assms(2)] assms(3)] .
  show "sm_closer m' = Some t" "sm_calls m' c \<noteq> Not_Called"
    using assms(1,2,4,5)
    by (cases e; auto simp: shutdown_wake_def shutdown_send_def shutdown_recv_def shutdown_publish_def
        shutdown_wait_def sm_goto_def split: if_splits option.splits prod.splits sum.splits shutdown_pc.splits)+
qed

lemma sm_progress:
  assumes "sync_manager_ok m" and "sm_closer m = Some t" and "sm_calls m c \<notin> {Not_Called, Returned, Panicked}"
  obtains e m' where "sm_internal e" "sm_apply e m = Some m'" "sm_work t c m' < sm_work t c m"
proof -
  consider (call) d where "d \<in> {t, c}" "call_enabled d m" | (worker) "rq_items (sm_queue m) \<noteq> []"
    using closer_waits [OF assms(1,2)] waiter_enabled [OF assms(1,2) _ assms(3)]
    by (cases "sm_shutdown_result m") auto
  then show thesis
  proof cases
    case (call d)
    obtain e m' where e: "sm_internal e" "sm_apply e m = Some m'"
      "queue_work (sm_queue m') + pc_work (sm_calls m' d) < queue_work (sm_queue m) + pc_work (sm_calls m d)"
      "\<And>c. c \<noteq> d \<Longrightarrow> sm_calls m' c = sm_calls m c"
      using call_decreases [OF call(2)] by blast
    have "(\<Sum>x\<in>{t, c} - {d}. pc_work (sm_calls m' x)) = (\<Sum>x\<in>{t, c} - {d}. pc_work (sm_calls m x))"
      by (rule sum.cong) (use e(4) in auto)
    then have "sm_work t c m' < sm_work t c m"
      using e(3) call(1) by (simp add: sm_work_def sum.remove [of "{t, c}" d])
    with e that show ?thesis by blast
  next
    case worker
    have ok: "queue_ok (sm_queue m)" using assms(1) by (simp add: sync_manager_ok_def)
    show ?thesis
    proof (rule worker_decreases [OF ok worker, of "sm_senders_alive m"], goal_cases)
      case (1 q)
      then show ?case using that [of E_Worker_Recv "m\<lparr>sm_queue := q\<rparr>"] by (simp add: sm_work_def)
    next
      case (2 q)
      then show ?case using that [of E_Worker_Release "m\<lparr>sm_queue := q\<rparr>"] by (simp add: sm_work_def)
    qed
  qed
qed

lemma sm_can_end:
  assumes "sync_manager_ok m" and "sm_closer m = Some t" and "sm_calls m c \<noteq> Not_Called"
  shows "\<exists>es m'. list_all sm_internal es \<and> length es \<le> sm_work t c m \<and> sm_exec es m = Some m' \<and>
    sm_calls m' c \<in> {Returned, Panicked}"
  using assms
proof (induction "sm_work t c m" arbitrary: m rule: less_induct)
  case less
  show ?case
  proof (cases "sm_calls m c \<in> {Returned, Panicked}")
    case True
    then show ?thesis by (intro exI [of _ "[]"]) auto
  next
    case False
    with less.prems(3) have "sm_calls m c \<notin> {Not_Called, Returned, Panicked}" by simp
    then obtain e m' where e: "sm_internal e" "sm_apply e m = Some m'" "sm_work t c m' < sm_work t c m"
      using sm_progress [OF less.prems(1,2)] by blast
    obtain es m'' where "list_all sm_internal es" "length es \<le> sm_work t c m'" "sm_exec es m' = Some m''"
      "sm_calls m'' c \<in> {Returned, Panicked}"
      using less.hyps [OF e(3) sm_internal_keeps [OF e(1,2) less.prems]] by blast
    with e show ?thesis by (intro exI [of _ "e # es"] exI [of _ m'']) simp
  qed
qed

text \<open>A shutdown fails only without a worker.\<close>

definition sm_sound :: "sync_manager \<Rightarrow> bool" where
  "sm_sound m \<longleftrightarrow> sm_shutdown_result m \<noteq> Some False \<and> (\<forall>c. sm_calls m c \<noteq> Publishing False)"

lemma recv_sound:
  assumes "sync_manager_ok m" and "sm_calls m c = Awaiting_Ack" and "rq_worker (sm_queue m) \<noteq> Stopped"
  shows "queue_await_ack c (sm_queue m) \<noteq> Some False"
proof -
  have "closer_ok c Awaiting_Ack m" using closer_pc(2) [OF assms(1), of c] assms(2) by simp
  then obtain before where "barrier_ok c before (sm_queue m)" by auto
  with assms(3) show ?thesis by (auto simp: barrier_ok_def queue_await_ack_def split: if_splits)
qed

lemma send_sound: "queue_send c q = Some (Inl e, q') \<Longrightarrow> rq_worker q = Stopped"
  by (auto simp: queue_send_def queue_try_send_def split: if_splits)

lemma push_worker: "queue_try_send c q = (res, q') \<Longrightarrow> rq_worker q' = rq_worker q"
  by (auto simp: queue_try_send_def queue_push_def split: if_splits)

lemma send_worker: "queue_send c q = Some (res, q') \<Longrightarrow> rq_worker q' = rq_worker q"
  by (auto simp: queue_send_def queue_try_send_def queue_push_def split: if_splits)

lemma stopped_worker:
  "worker_recv alive q = Some q' \<Longrightarrow> rq_worker q \<noteq> Stopped"
  "worker_release q = Some q' \<Longrightarrow> rq_worker q \<noteq> Stopped"
  by (auto simp: worker_recv_def worker_release_def split: if_splits)

lemma sm_step_sound:
  assumes "sync_manager_step m m'" and "sync_manager_ok m"
    and "rq_worker (sm_queue m) \<noteq> Stopped \<longrightarrow> sm_sound m" and "rq_worker (sm_queue m') \<noteq> Stopped"
  shows "sm_sound m'"
  using assms(1)
proof cases
  case (sm_step_release r res)
  with assms(3,4) push_worker show ?thesis
    by (auto simp: sm_try_release_def sm_sound_def split: if_splits prod.splits)
next
  case (sm_step_send c)
  with assms(3,4) send_worker send_sound show ?thesis
    by (auto simp: shutdown_send_def sm_sound_def sm_goto_def split: if_splits option.splits prod.splits sum.splits)
next
  case (sm_step_recv c)
  with assms(3,4) recv_sound [OF assms(2), of c] show ?thesis
    by (auto simp: shutdown_recv_def sm_sound_def sm_goto_def split: if_splits)
next
  case (sm_step_publish c)
  with assms(3,4) show ?thesis
    by (auto simp: shutdown_publish_def sm_sound_def sm_goto_def split: shutdown_pc.splits if_splits)
next
  case sm_step_worker_dies
  with assms(4) show ?thesis by (simp add: worker_dies_def)
qed (use assms(3,4) stopped_worker in \<open>auto simp: sm_admit_def sm_drop_sender_def shutdown_take_def shutdown_wake_def
    shutdown_wait_def sm_sound_def sm_goto_def split: if_splits shutdown_pc.splits\<close>)

lemma sm_reach_sound: "sync_manager_reach m \<Longrightarrow> rq_worker (sm_queue m) \<noteq> Stopped \<longrightarrow> sm_sound m"
proof (induction rule: sync_manager_reach.induct)
  case sm_reach_new
  then show ?case by (simp add: sm_sound_def sync_manager_new_def)
next
  case (sm_reach_step m m')
  then show ?case using sm_step_sound sync_manager_reach_ok by blast
qed

text \<open>While no verdict is there the shutdown holds a sender, so the worker goes on.\<close>

lemma closing_before_verdict:
  assumes "sync_manager_ok m" and "sm_closer m = Some t" and "sm_shutdown_result m = None"
  shows "sm_senders_alive m"
proof -
  have "closer_ok t (sm_calls m t) m" using assms(1,2) by (simp add: sync_manager_ok_def)
  with assms(3) show ?thesis by (cases "sm_calls m t") (auto simp: sm_senders_alive_def)
qed

definition sm_will_return :: "sync_manager \<Rightarrow> bool" where
  "sm_will_return m \<longleftrightarrow>
     sm_shutdown_result m = Some True \<or>
     sm_shutdown_result m = None \<and> rq_worker (sm_queue m) \<noteq> Stopped \<and> sm_sound m"

lemma sm_apply_will_return:
  assumes "sm_internal e" and "sm_apply e m = Some m'" and "sync_manager_ok m" and "sm_closer m = Some t"
    and "sm_will_return m"
  shows "sm_will_return m'"
proof (cases "sm_shutdown_result m")
  case None
  then have alive: "rq_worker (sm_queue m) \<noteq> Stopped" "sm_sound m" "sm_senders_alive m"
    using assms(5) closing_before_verdict [OF assms(3,4)] by (auto simp: sm_will_return_def)
  have still: "rq_worker (sm_queue m') \<noteq> Stopped"
    using assms(1,2) alive send_worker
    by (cases e)
      (auto simp: shutdown_wake_def shutdown_send_def shutdown_recv_def shutdown_publish_def shutdown_wait_def
        worker_recv_def worker_release_def sm_goto_def
        split: if_splits option.splits prod.splits sum.splits shutdown_pc.splits list.splits release_command.splits
          release_worker.splits)
  have "sm_sound m'"
    using sm_step_sound [OF sm_apply_step [OF assms(2)] assms(3)] alive(2) still by simp
  then show ?thesis using still by (auto simp: sm_will_return_def sm_sound_def)
next
  case (Some b)
  have t: "closer_ok t (sm_calls m t) m" using assms(3,4) by (simp add: sync_manager_ok_def)
  have "sm_calls m d \<noteq> Publishing b'" for d b'
  proof
    assume d: "sm_calls m d = Publishing b'"
    then have "sm_closer m = Some d" using closer_pc(1) [OF assms(3), of d] by simp
    with d t assms(4) Some show False by simp
  qed
  with Some assms(1,2,5) show ?thesis
    by (cases e) (auto simp: sm_will_return_def shutdown_wake_def shutdown_send_def shutdown_recv_def
        shutdown_publish_def shutdown_wait_def sm_goto_def
        split: if_splits option.splits prod.splits sum.splits shutdown_pc.splits)
qed

lemma sm_exec_will_return:
  "sm_exec es m = Some m' \<Longrightarrow> list_all sm_internal es \<Longrightarrow> sync_manager_ok m \<Longrightarrow> sm_closer m = Some t \<Longrightarrow>
     sm_calls m c \<noteq> Not_Called \<Longrightarrow> sm_will_return m \<Longrightarrow> sm_will_return m' \<and> sync_manager_ok m'"
proof (induction es arbitrary: m)
  case (Cons e es)
  from Cons.prems obtain m1 where m1: "sm_apply e m = Some m1" "sm_exec es m1 = Some m'" "sm_internal e"
    by (auto split: option.splits)
  show ?case
    using Cons.IH [OF m1(2)] Cons.prems(2) sm_internal_keeps [OF m1(3,1) Cons.prems(3,4,5)]
      sm_apply_will_return [OF m1(3,1) Cons.prems(3,4,6)] by simp
qed simp

lemma sm_shutdown_ends:
  assumes "sync_manager_reach m" and "sm_calls m c \<noteq> Not_Called"
  shows "\<exists>es m'. list_all sm_internal es \<and> length es \<le> 2 * RECYCLE_CHANNEL_BUFFER + 15 \<and> sm_exec es m = Some m' \<and>
    (sm_calls m' c = Returned \<or> sm_calls m' c = Panicked \<and> rq_worker (sm_queue m) = Stopped)"
proof -
  have ok: "sync_manager_ok m" using assms(1) by (rule sync_manager_reach_ok)
  then obtain t where t: "sm_closer m = Some t" using called_has_closer assms(2) by blast
  obtain es m' where es: "list_all sm_internal es" "length es \<le> sm_work t c m" "sm_exec es m = Some m'"
    "sm_calls m' c \<in> {Returned, Panicked}"
    using sm_can_end [OF ok t assms(2)] by blast
  have "queue_work (sm_queue m) \<le> 2 * RECYCLE_CHANNEL_BUFFER + 1"
    using ok queue_work_bound by (simp add: sync_manager_ok_def)
  moreover have "(\<Sum>d\<in>{t, c}. pc_work (sm_calls m d)) \<le> 14"
    using pc_work_bound [of "sm_calls m t"] pc_work_bound [of "sm_calls m c"] by (cases "t = c") simp_all
  ultimately have bound: "length es \<le> 2 * RECYCLE_CHANNEL_BUFFER + 15" using es(2) by (simp add: sm_work_def)
  have "sm_calls m' c \<noteq> Panicked" if "rq_worker (sm_queue m) \<noteq> Stopped"
  proof
    assume panic: "sm_calls m' c = Panicked"
    have "sm_sound m" using sm_reach_sound [OF assms(1)] that by blast
    then have "sm_will_return m" using that by (cases "sm_shutdown_result m") (auto simp: sm_will_return_def sm_sound_def)
    then have m': "sm_will_return m'" "sync_manager_ok m'"
      using sm_exec_will_return [OF es(3,1) ok t assms(2)] by simp_all
    have "verdict_ok (sm_shutdown_result m') (sm_calls m' c)" using m'(2) by (simp add: sync_manager_ok_def)
    with panic m'(1) show False by (auto simp: sm_will_return_def)
  qed
  with es bound show ?thesis by blast
qed

subsection \<open>The async shutdown\<close>

fun coordinator_work :: "coordinator_pc \<Rightarrow> nat" where
  "coordinator_work No_Coordinator = 0"
| "coordinator_work Coord_Sending = 5"
| "coordinator_work Coord_Awaiting = 2"
| "coordinator_work (Coord_Completing b) = 1"
| "coordinator_work Coord_Done = 0"

fun async_call_work :: "async_call_pc \<Rightarrow> nat" where
  "async_call_work Async_Waiting = 1"
| "async_call_work pc = 0"

definition am_work :: "nat \<Rightarrow> async_manager \<Rightarrow> nat" where
  "am_work c m = queue_work (am_queue m) + coordinator_work (am_coordinator m) + async_call_work (am_calls m c)"

fun am_internal :: "am_event \<Rightarrow> bool" where
  "am_internal (A_Wait c) = True"
| "am_internal A_Send = True"
| "am_internal A_Await = True"
| "am_internal A_Complete = True"
| "am_internal A_Worker_Recv = True"
| "am_internal A_Worker_Release = True"
| "am_internal e = False"

lemma coordinator_decreases:
  assumes "coordinator_enabled m"
  obtains e m' where "am_internal e" "am_apply e m = Some m'" "am_work c m' < am_work c m"
proof -
  from assms consider (send) m' where "coordinator_send m = Some m'" | (await) m' where "coordinator_await m = Some m'"
    | (complete) m' where "coordinator_complete m = Some m'" by (auto simp: coordinator_enabled_def)
  then show thesis
  proof cases
    case send
    then obtain res q where q: "queue_send (Barrier 0) (am_queue m) = Some (res, q)"
      and pc: "am_coordinator m = Coord_Sending"
      by (auto simp: coordinator_send_def split: if_splits option.splits)
    from q have "queue_work q \<le> queue_work (am_queue m) + 2" by (rule queue_send_work)
    then show ?thesis using send that [of A_Send] q pc
      by (cases res) (auto simp: coordinator_send_def am_work_def)
  next
    case await
    then show ?thesis using that [of A_Await] by (auto simp: coordinator_await_def am_work_def split: if_splits)
  next
    case complete
    then show ?thesis using that [of A_Complete]
      by (auto simp: coordinator_complete_def am_work_def split: coordinator_pc.splits)
  qed
qed

lemma am_progress:
  assumes "async_manager_ok m" and "am_calls m c = Async_Waiting"
  obtains e m' where "am_internal e" "am_apply e m = Some m'" "am_work c m' < am_work c m"
proof -
  from async_waits [OF assms] consider (wait) m' where "async_shutdown_wait c m = Some m'"
    | (coordinator) "coordinator_enabled m" | (worker) "rq_items (am_queue m) \<noteq> []" by auto
  then show thesis
  proof cases
    case wait
    then show ?thesis using that [of "A_Wait c"] assms(2)
      by (auto simp: async_shutdown_wait_def am_work_def split: shutdown_state.splits)
  next
    case coordinator
    with coordinator_decreases that show ?thesis by blast
  next
    case worker
    have ok: "queue_ok (am_queue m)" using assms(1) by (simp add: async_manager_ok_def)
    show ?thesis
    proof (rule worker_decreases [OF ok worker, of "am_senders_alive m"], goal_cases)
      case (1 q)
      then show ?case using that [of A_Worker_Recv "m\<lparr>am_queue := q\<rparr>"] by (simp add: am_work_def)
    next
      case (2 q)
      then show ?case using that [of A_Worker_Release "m\<lparr>am_queue := q\<rparr>"] by (simp add: am_work_def)
    qed
  qed
qed

lemma am_internal_called:
  "am_internal e \<Longrightarrow> am_apply e m = Some m' \<Longrightarrow> am_calls m c \<noteq> Async_Not_Called \<Longrightarrow> am_calls m' c \<noteq> Async_Not_Called"
  by (cases e) (auto simp: async_shutdown_wait_def coordinator_send_def coordinator_await_def coordinator_complete_def
      split: if_splits option.splits prod.splits sum.splits shutdown_state.splits coordinator_pc.splits)

lemma am_can_end:
  assumes "async_manager_ok m" and "am_calls m c \<noteq> Async_Not_Called"
  shows "\<exists>es m'. list_all am_internal es \<and> length es \<le> am_work c m \<and> am_exec es m = Some m' \<and>
    am_calls m' c \<in> {Async_Returned, Async_Panicked}"
  using assms
proof (induction "am_work c m" arbitrary: m rule: less_induct)
  case less
  show ?case
  proof (cases "am_calls m c = Async_Waiting")
    case True
    then obtain e m' where e: "am_internal e" "am_apply e m = Some m'" "am_work c m' < am_work c m"
      using am_progress [OF less.prems(1)] by blast
    obtain es m'' where "list_all am_internal es" "length es \<le> am_work c m'" "am_exec es m' = Some m''"
      "am_calls m'' c \<in> {Async_Returned, Async_Panicked}"
      using less.hyps [OF e(3) async_manager_step_ok [OF am_apply_step [OF e(2)] less.prems(1)]
          am_internal_called [OF e(1,2) less.prems(2)]] by blast
    with e show ?thesis by (intro exI [of _ "e # es"] exI [of _ m'']) simp
  next
    case False
    then show ?thesis using less.prems(2) by (cases "am_calls m c") (auto intro: exI [of _ "[]"])
  qed
qed

definition am_sound :: "async_manager \<Rightarrow> bool" where
  "am_sound m \<longleftrightarrow> am_shutdown m \<noteq> Failed \<and> am_coordinator m \<noteq> Coord_Completing False \<and> \<not> am_crashed m"

lemma await_sound:
  assumes "async_manager_ok m" and "am_coordinator m = Coord_Awaiting" and "rq_worker (am_queue m) \<noteq> Stopped"
  shows "queue_await_ack 0 (am_queue m) \<noteq> Some False"
proof -
  obtain before where "barrier_ok 0 before (am_queue m)" using assms(1,2) by (auto simp: async_manager_ok_def)
  with assms(3) show ?thesis by (auto simp: barrier_ok_def queue_await_ack_def split: if_splits)
qed

lemma am_step_sound:
  assumes "async_manager_step m m'" and "async_manager_ok m"
    and "rq_worker (am_queue m) \<noteq> Stopped \<longrightarrow> am_sound m" and "rq_worker (am_queue m') \<noteq> Stopped"
  shows "am_sound m'"
  using assms(1)
proof cases
  case (am_step_release r res)
  with assms(3,4) push_worker show ?thesis
    by (auto simp: am_try_release_def am_sound_def split: if_splits prod.splits)
next
  case am_step_send
  with assms(3,4) send_worker send_sound show ?thesis
    by (auto simp: coordinator_send_def am_sound_def split: if_splits option.splits prod.splits sum.splits)
next
  case am_step_await
  with assms(3,4) await_sound [OF assms(2)] show ?thesis
    by (auto simp: coordinator_await_def am_sound_def split: if_splits)
next
  case am_step_worker_dies
  with assms(4) show ?thesis by (simp add: worker_dies_def)
qed (use assms(3,4) stopped_worker in \<open>auto simp: am_admit_def am_drop_sender_def async_shutdown_def
    async_shutdown_wait_def coordinator_complete_def monitor_failed_def am_sound_def
    split: if_splits shutdown_state.splits coordinator_pc.splits\<close>)

lemma am_reach_sound: "async_manager_reach m \<Longrightarrow> rq_worker (am_queue m) \<noteq> Stopped \<longrightarrow> am_sound m"
proof (induction rule: async_manager_reach.induct)
  case am_reach_new
  then show ?case by (simp add: am_sound_def async_manager_new_def)
next
  case (am_reach_step m m')
  then show ?case using am_step_sound async_manager_reach_ok by blast
qed

definition am_will_return :: "async_manager \<Rightarrow> bool" where
  "am_will_return m \<longleftrightarrow>
     am_shutdown m = Completed \<or> am_shutdown m = Closing \<and> rq_worker (am_queue m) \<noteq> Stopped \<and> am_sound m"

lemma coordinator_until_verdict: "async_manager_ok m \<Longrightarrow> am_shutdown m = Closing \<Longrightarrow> am_senders_alive m"
  by (cases "am_coordinator m") (auto simp: async_manager_ok_def am_senders_alive_def)

lemma am_apply_will_return:
  assumes "am_internal e" and "am_apply e m = Some m'" and "async_manager_ok m" and "am_will_return m"
  shows "am_will_return m'"
proof (cases "am_shutdown m = Completed")
  case True
  then have "am_coordinator m = Coord_Done" using assms(3) by (cases "am_coordinator m") (auto simp: async_manager_ok_def)
  with True assms(1,2) show ?thesis
    by (cases e) (auto simp: am_will_return_def async_shutdown_wait_def coordinator_send_def coordinator_await_def
        coordinator_complete_def split: if_splits)
next
  case False
  then have alive: "am_shutdown m = Closing" "rq_worker (am_queue m) \<noteq> Stopped" "am_sound m" "am_senders_alive m"
    using assms(4) coordinator_until_verdict [OF assms(3)] by (auto simp: am_will_return_def)
  have still: "rq_worker (am_queue m') \<noteq> Stopped"
    using assms(1,2) alive(2,4) send_worker
    by (cases e)
      (auto simp: async_shutdown_wait_def coordinator_send_def coordinator_await_def coordinator_complete_def
        worker_recv_def worker_release_def
        split: if_splits option.splits prod.splits sum.splits shutdown_state.splits coordinator_pc.splits
          list.splits release_command.splits release_worker.splits)
  have sound: "am_sound m'" using am_step_sound [OF am_apply_step [OF assms(2)] assms(3)] alive(3) still by simp
  have "am_shutdown m' \<in> {Closing, Completed, Failed}"
    using assms(1,2) alive(1)
    by (cases e)
      (auto simp: async_shutdown_wait_def coordinator_send_def coordinator_await_def coordinator_complete_def
        split: if_splits option.splits prod.splits sum.splits shutdown_state.splits coordinator_pc.splits)
  with still sound show ?thesis by (auto simp: am_will_return_def am_sound_def)
qed

lemma am_exec_will_return:
  "am_exec es m = Some m' \<Longrightarrow> list_all am_internal es \<Longrightarrow> async_manager_ok m \<Longrightarrow> am_will_return m \<Longrightarrow>
     am_will_return m' \<and> async_manager_ok m'"
proof (induction es arbitrary: m)
  case (Cons e es)
  from Cons.prems obtain m1 where m1: "am_apply e m = Some m1" "am_exec es m1 = Some m'" "am_internal e"
    by (auto split: option.splits)
  show ?case
    using Cons.IH [OF m1(2)] Cons.prems(2) async_manager_step_ok [OF am_apply_step [OF m1(1)] Cons.prems(3)]
      am_apply_will_return [OF m1(3,1) Cons.prems(3,4)] by simp
qed simp

lemma am_shutdown_ends:
  assumes "async_manager_reach m" and "am_calls m c \<noteq> Async_Not_Called"
  shows "\<exists>es m'. list_all am_internal es \<and> length es \<le> 2 * RECYCLE_CHANNEL_BUFFER + 7 \<and> am_exec es m = Some m' \<and>
    (am_calls m' c = Async_Returned \<or> am_calls m' c = Async_Panicked \<and> rq_worker (am_queue m) = Stopped)"
proof -
  have ok: "async_manager_ok m" using assms(1) by (rule async_manager_reach_ok)
  obtain es m' where es: "list_all am_internal es" "length es \<le> am_work c m" "am_exec es m = Some m'"
    "am_calls m' c \<in> {Async_Returned, Async_Panicked}"
    using am_can_end [OF ok assms(2)] by blast
  have "queue_work (am_queue m) \<le> 2 * RECYCLE_CHANNEL_BUFFER + 1"
    using ok queue_work_bound by (simp add: async_manager_ok_def)
  moreover have "coordinator_work (am_coordinator m) \<le> 5" by (cases "am_coordinator m") simp_all
  moreover have "async_call_work (am_calls m c) \<le> 1" by (cases "am_calls m c") simp_all
  ultimately have bound: "length es \<le> 2 * RECYCLE_CHANNEL_BUFFER + 7" using es(2) by (simp add: am_work_def)
  have "am_calls m' c \<noteq> Async_Panicked" if "rq_worker (am_queue m) \<noteq> Stopped"
  proof
    assume panic: "am_calls m' c = Async_Panicked"
    have sound: "am_sound m" using am_reach_sound [OF assms(1)] that by blast
    have "am_shutdown m \<noteq> Open"
      using ok assms(2) by (cases "am_coordinator m") (auto simp: async_manager_ok_def)
    with sound that have "am_will_return m" by (cases "am_shutdown m") (auto simp: am_will_return_def am_sound_def)
    then have m': "am_will_return m'" "async_manager_ok m'"
      using am_exec_will_return [OF es(3,1) ok] by simp_all
    have "async_verdict_ok (am_shutdown m') (am_calls m' c)" using m'(2) by (simp add: async_manager_ok_def)
    with panic m'(1) show False by (auto simp: am_will_return_def)
  qed
  with es bound show ?thesis by blast
qed

subsection \<open>Properties\<close>

text \<open>
  C33: The sync shutdown comes to its end. In every reachable state, also with a full queue, at most 2063 steps of
  the worker and of calls of \<open>shutdown\<close> that were already made end a call; it returns normally unless the worker
  was gone. So in no state does a call wait for something that cannot come.
\<close>

theorem sync_shutdown_can_end:
  assumes "sync_manager_reach m" and "sm_calls m c \<noteq> Not_Called"
  shows "\<exists>es m'. list_all sm_internal es \<and> length es \<le> 2063 \<and> sm_exec es m = Some m' \<and>
    (sm_calls m' c = Returned \<or> sm_calls m' c = Panicked \<and> rq_worker (sm_queue m) = Stopped)"
  using sm_shutdown_ends [OF assms] by (simp add: RECYCLE_CHANNEL_BUFFER_def)

text \<open>The manager whose shutdown has just taken the sender while a release is in the queue.\<close>

theorem sync_shutdown_can_end_witness:
  "\<exists>es m'. sm_exec es sm_taken = Some m' \<and> sm_calls m' 7 = Returned"
proof -
  have "rq_worker (sm_queue sm_taken) \<noteq> Stopped" by (simp add: sm_taken_def sm_queued_def sm_run_defs)
  then show ?thesis using sync_shutdown_can_end [OF sm_taken_reach, of 7] sm_example_facts(5) by auto
qed

text \<open>
  C34: The async shutdown comes to its end. In every reachable state at most 2055 steps of the worker, the
  coordinator and the call end a call of \<open>shutdown\<close>; it returns normally unless the worker was gone.
\<close>

theorem async_shutdown_can_end:
  assumes "async_manager_reach m" and "am_calls m c \<noteq> Async_Not_Called"
  shows "\<exists>es m'. list_all am_internal es \<and> length es \<le> 2055 \<and> am_exec es m = Some m' \<and>
    (am_calls m' c = Async_Returned \<or> am_calls m' c = Async_Panicked \<and> rq_worker (am_queue m) = Stopped)"
  using am_shutdown_ends [OF assms] by (simp add: RECYCLE_CHANNEL_BUFFER_def)

theorem async_shutdown_can_end_witness:
  "\<exists>es m'. am_exec es am_called = Some m' \<and> am_calls m' 7 = Async_Returned"
proof -
  have "rq_worker (am_queue am_called) \<noteq> Stopped" by (simp add: am_called_def am_queued_def am_run_defs)
  then show ?thesis using async_shutdown_can_end [OF am_called_reach, of 7] am_example_facts(4) by auto
qed

end
