(* ===== verification/Acquisition_Liveness.thy ===== *)
theory Acquisition_Liveness
  imports Crash_Safety Guard_Safety
begin

text \<open>
  An acquisition gets a lock that is free in time. The server answers the attempts of the acquisition, between
  any commands of others; if the target is free for one of them, and until then nothing disturbs the client, no
  error, no shutdown, no cancellation, no deadline, then the caller gets a guard.
\<close>

subsection \<open>Attempts and their replies\<close>

inductive replied :: "'s redis_call \<Rightarrow> ('s \<Rightarrow> int) \<Rightarrow> (int \<Rightarrow> 's \<Rightarrow> 's) \<Rightarrow> lock_target \<Rightarrow> uuid \<Rightarrow>
    duration \<Rightarrow> (string, bool) result list \<Rightarrow> 's \<Rightarrow> 's \<Rightarrow> bool"
  for call now advance target u ttl where
  replied_end: "lock_path call now advance (\<lambda>a. a \<noteq> Some u) s s' \<Longrightarrow>
    replied call now advance target u ttl [] s s'"
| replied_next: "lock_path call now advance (\<lambda>a. a \<noteq> Some u) s t \<Longrightarrow> ttl_in_range (now t) ttl \<Longrightarrow>
    send_acquire call target u ttl t = (reply, t') \<Longrightarrow> replied call now advance target u ttl replies t' s' \<Longrightarrow>
    replied call now advance target u ttl (reply # replies) s s'"

text \<open>No key of the target has a live holder, and no key of a mutex is used for a read-write lock.\<close>

definition free_target :: "('s \<Rightarrow> int) \<Rightarrow> ('s \<Rightarrow> keyspace) \<Rightarrow> lock_target \<Rightarrow> 's \<Rightarrow> bool" where
  "free_target now view target s \<longleftrightarrow>
     (\<forall>k\<in>set (target_keys target). \<forall>m u e. holds m u e (view s k) \<longrightarrow> \<not> live m (now s) e) \<and>
     (target_mode target = Mutex_Mode \<longrightarrow>
       (\<forall>k\<in>set (target_keys target). is_zset (view s k) \<longrightarrow> view s k = None))"

context redis_clock
begin

lemma replied_ok: "replied call now advance target u ttl replies s s' \<Longrightarrow> table_ok (view s) \<Longrightarrow> table_ok (view s')"
proof (induction rule: replied.induct)
  case (replied_next s t reply t' replies s')
  then have "table_ok (view t)" using lock_path_ok by blast
  from send_acquire_ok [OF this replied_next.hyps(2)] replied_next.hyps(3) have "table_ok (view t')"
    by (metis snd_conv)
  then show ?case by (rule replied_next.IH)
qed (rule lock_path_ok)

lemma free_target_acquired:
  "free_target now view target s \<Longrightarrow> table_ok (view s) \<Longrightarrow> ttl_in_range (now s) ttl \<Longrightarrow>
     fst (send_acquire call target u ttl s) = Inr True"
  using refused_by_holder [of target u ttl s] unfolding free_target_def by blast

end

text \<open>The attempt that gets the lock, in any list of passes with their replies.\<close>

definition first_success :: "('e \<Rightarrow> (string, bool) result) \<Rightarrow> 'e list \<Rightarrow> 'e" where
  "first_success reply es = hd (dropWhile (\<lambda>e. reply e \<noteq> Inr True) es)"

lemma first_success_split:
  assumes "\<exists>e\<in>set es. reply e = Inr True" and "list_all (\<lambda>e. \<not> isl (reply e)) es"
  obtains xs ys where "es = xs @ first_success reply es # ys" and "list_all (\<lambda>e. reply e = Inr False) xs"
    and "reply (first_success reply es) = Inr True"
proof -
  obtain xs e ys where es: "es = xs @ e # ys" "reply e = Inr True" "\<forall>x\<in>set xs. reply x \<noteq> Inr True"
    using split_list_first_prop [OF assms(1)] by blast
  have "reply x = Inr False" if "x \<in> set xs" for x
  proof -
    have "\<not> isl (reply x)" "reply x \<noteq> Inr True" using that es assms(2) by (simp_all add: list_all_iff)
    then show ?thesis by (cases "reply x") simp_all
  qed
  moreover have "dropWhile (\<lambda>e. reply e \<noteq> Inr True) es = e # ys"
    using es by (simp add: dropWhile_append)
  ultimately show thesis using that [of xs ys] es by (simp add: first_success_def list_all_iff)
qed

subsection \<open>The sync variant\<close>

definition attempt_undisturbed :: "acquire_options \<Rightarrow> instant \<Rightarrow> attempt_env \<Rightarrow> bool" where
  "attempt_undisturbed options start e \<longleftrightarrow>
     \<not> at_canceled1 e \<and> \<not> timed_out options start (at_now1 e) \<and> \<not> at_shutdown1 e \<and> \<not> isl (at_checkout e) \<and>
     late_failure options start e = None \<and> \<not> isl (at_spawned e) \<and>
     \<not> at_shutdown3 e \<and> \<not> timed_out options start (at_now3 e)"

lemma guard_new_spawned:
  assumes "\<not> isl spawned"
  obtains g evs where "guard_new request lease options spawned queued = (Inr g, evs)" and "g_lease g = lease"
  using assms that by (cases spawned; cases "effective_renew_interval options") (auto simp: guard_new_def Let_def)

lemma acquired_undisturbed:
  assumes "attempt_undisturbed options start e"
  obtains g evs where "acquired_outcome request options start e = (Inr (Some g), evs)"
    and "g_lease g = lease_new (at_attempt e) (effective_ttl options)"
proof -
  let ?l = "lease_new (at_attempt e) (effective_ttl options)"
  have none: "late_failure options start e = None" and spawned: "\<not> isl (at_spawned e)"
    using assms by (simp_all add: attempt_undisturbed_def)
  then have "fst (lease_get_state (at_lease_now e) ?l) = Active"
    by (simp add: late_failure_def split: if_splits)
  then have same: "snd (lease_get_state (at_lease_now e) ?l) = ?l"
    by (auto simp: lease_get_state_def lease_refresh_def Let_def lease_notify_def)
  obtain g evs where "guard_new request ?l options (at_spawned e) (at_queued e) = (Inr g, evs)" "g_lease g = ?l"
    using guard_new_spawned [OF spawned] by blast
  with none same that show thesis by (simp add: acquired_outcome_def)
qed

lemma loop_passes:
  assumes "list_all (attempt_undisturbed options start) xs" and "list_all (\<lambda>e. at_reply e = Inr False) xs"
    and "\<not> once \<or> xs = []"
  shows "\<exists>pre. acquire_loop is_io request options once start (xs @ es) =
    map_option (more_events pre) (acquire_loop is_io request options once start es)"
  using assms
proof (induction xs)
  case Nil
  have "map_option (more_events []) r = r" for r
    by (cases r) (simp_all add: more_events_def)
  then show ?case by (metis append_Nil)
next
  case (Cons x xs)
  then obtain pre where "acquire_loop is_io request options once start (xs @ es) =
      map_option (more_events pre) (acquire_loop is_io request options once start es)" by auto
  moreover obtain conn where "at_checkout x = Inr conn"
    using Cons.prems(1) by (cases "at_checkout x") (auto simp: attempt_undisturbed_def)
  ultimately show ?case
    using Cons.prems
    by (intro exI [of _ "[Sent_Acquire request (at_reply x), Waited (retry_wait options start (at_now4 x))] @ pre"])
      (auto simp: attempt_undisturbed_def more_events_def option.map_comp comp_def)
qed

lemma loop_acquires:
  assumes "list_all (attempt_undisturbed options start) es" and "list_all (\<lambda>e. \<not> isl (at_reply e)) es"
    and "\<exists>e\<in>set es. at_reply e = Inr True" and "\<not> once \<or> length es = 1"
  obtains g evs where "acquire_loop is_io request options once start es = Some (Inr (Some g), evs)"
    and "g_lease g = lease_new (at_attempt (first_success at_reply es)) (effective_ttl options)"
proof -
  let ?w = "first_success at_reply es"
  obtain xs ys where es: "es = xs @ ?w # ys" "list_all (\<lambda>e. at_reply e = Inr False) xs" "at_reply ?w = Inr True"
    using first_success_split [OF assms(3,2)] by blast
  have und: "list_all (attempt_undisturbed options start) xs" "attempt_undisturbed options start ?w"
    using assms(1) by (subst (asm) es(1), simp)+
  have "\<not> once \<or> xs = []"
  proof (cases xs)
    case (Cons x xs')
    then have "length es \<noteq> 1" by (subst es(1)) simp
    with assms(4) show ?thesis by simp
  qed simp
  from loop_passes [OF und(1) es(2) this] obtain pre where
    loop: "acquire_loop is_io request options once start es =
      map_option (more_events pre) (acquire_loop is_io request options once start (?w # ys))"
    using es(1) by metis
  obtain g evs where g: "acquired_outcome request options start ?w = (Inr (Some g), evs)"
    "g_lease g = lease_new (at_attempt ?w) (effective_ttl options)"
    using acquired_undisturbed [OF und(2)] by blast
  obtain conn where "at_checkout ?w = Inr conn"
    using und(2) by (cases "at_checkout ?w") (auto simp: attempt_undisturbed_def)
  with und(2) es(3) g(1) loop that [OF _ g(2)] show thesis
    by (simp add: attempt_undisturbed_def more_events_def)
qed

text \<open>
  The caller gets the result in time, and the lease is still active at its checks, after what the renewal thread
  did to it meanwhile.
\<close>

definition caller_undisturbed :: "acquire_options \<Rightarrow> instant \<Rightarrow> internal_env \<Rightarrow> bool" where
  "caller_undisturbed options start e \<longleftrightarrow>
     (let l = lease_new (at_attempt (first_success at_reply (ie_attempts e))) (effective_ttl options) in
      \<not> isl (ie_admitted e) \<and>
      (ao_lock_timeout options \<noteq> None \<longrightarrow>
        \<not> isl (ie_worker_spawned e) \<and> ie_received e = Got () \<and>
        \<not> timed_out options start (ce_now (ie_caller e)) \<and> \<not> ce_shutdown (ie_caller e) \<and>
        fst (lease_get_state (ce_lease_now (ie_caller e)) (lease_run (ce_renewals (ie_caller e)) l)) = Active) \<and>
      fst (lease_get_state (ie_final_now e) (lease_run (handover options e) l)) = Active)"

lemma internal_acquires:
  assumes "list_all (attempt_undisturbed options start) (ie_attempts e)"
    and "list_all (\<lambda>a. \<not> isl (at_reply a)) (ie_attempts e)"
    and "\<exists>a\<in>set (ie_attempts e). at_reply a = Inr True" and "\<not> once \<or> length (ie_attempts e) = 1"
    and "caller_undisturbed options start e"
  shows "\<exists>g evs. acquire_internal is_io uuid target options once start e = Some (Inr (Some g), evs)"
proof -
  let ?request = "\<lparr>lr_target = target, lr_uuid = uuid\<rparr>"
  obtain g evs where loop: "acquire_loop is_io ?request options once start (ie_attempts e) = Some (Inr (Some g), evs)"
    and lease: "g_lease g = lease_new (at_attempt (first_success at_reply (ie_attempts e))) (effective_ttl options)"
    using loop_acquires [OF assms(1-4)] by blast
  have nonzero: "ao_lock_timeout options \<noteq> Some 0"
    using assms(1,3) by (cases "ie_attempts e") (auto simp: attempt_undisturbed_def timed_out_def)
  note caller = assms(5) [unfolded caller_undisturbed_def Let_def, folded lease]
  obtain u where "ie_admitted e = Inr u" using caller by (cases "ie_admitted e") auto
  then show ?thesis
  proof (cases "ao_lock_timeout options")
    case None
    with caller loop \<open>ie_admitted e = Inr u\<close> show ?thesis
      by (simp add: acquire_internal_def Let_def last_check_def final_check_def worker_panicked_def lease_inactive_def guard_after_def handover_def)
  next
    case (Some timeout)
    moreover obtain w where "ie_worker_spawned e = Inr w"
      using caller Some by (cases "ie_worker_spawned e") auto
    ultimately show ?thesis
      using caller loop nonzero \<open>ie_admitted e = Inr u\<close>
      by (simp add: acquire_internal_def acquire_timed_def receive_result_def Let_def last_check_def final_check_def worker_panicked_def
          lease_inactive_def guard_after_def handover_def lease_run_append)
  qed
qed

subsection \<open>The async variant\<close>

text \<open>After a refused attempt the wait ends because the retry interval is over.\<close>

definition async_undisturbed :: "acquire_options \<Rightarrow> instant \<Rightarrow> async_attempt \<Rightarrow> bool" where
  "async_undisturbed options start a \<longleftrightarrow>
     \<not> aa_closed a \<and> aa_open1 a \<and> \<not> deadline_elapsed start (ao_lock_timeout options) (aa_now1 a) \<and>
     (if aa_reply a = Inr True
      then aa_admission a \<and> aa_open2 a \<and> \<not> deadline_elapsed start (ao_lock_timeout options) (aa_now2 a) \<and>
        fst (lease_get_state (aa_lease_now a) (lease_new (aa_attempt a) (effective_ttl options))) = Active \<and>
        aa_delivered a
      else retry_select options start (aa_retry_start a) (aa_polls a) = Some Retry_Due)"

lemma async_acquired_undisturbed:
  assumes "async_undisturbed options start a" and "aa_reply a = Inr True"
  obtains g evs where "async_acquired request options start a = (Some (Inr (Some g)), evs)"
    and "ag_lease g = lease_new (aa_attempt a) (effective_ttl options)"
proof -
  let ?l = "lease_new (aa_attempt a) (effective_ttl options)"
  have "fst (lease_get_state (aa_lease_now a) ?l) = Active"
    using assms by (simp add: async_undisturbed_def)
  then have same: "lease_get_state (aa_lease_now a) ?l = (Active, ?l)"
    by (auto simp: lease_get_state_def lease_refresh_def Let_def lease_notify_def lease_new_def split: if_splits)
  obtain g evs where "async_guard_new request ?l options = (g, evs)" "ag_lease g = ?l"
    by (cases "effective_renew_interval options") (auto simp: async_guard_new_def)
  with assms same that show thesis
    by (simp add: async_acquired_def async_handoff_def async_undisturbed_def Let_def)
qed

lemma supervise_passes:
  assumes "list_all (async_undisturbed options start) xs" and "list_all (\<lambda>a. aa_reply a = Inr False) xs"
    and "\<not> once \<or> xs = []"
  shows "\<exists>pre. supervise_acquisition request options once start (xs @ as) =
    map_option (more_async pre) (supervise_acquisition request options once start as)"
  using assms
proof (induction xs)
  case Nil
  have "map_option (more_async []) r = r" for r
    by (cases r) (simp_all add: more_async_def)
  then show ?case by (metis append_Nil)
next
  case (Cons x xs)
  then obtain pre where "supervise_acquisition request options once start (xs @ as) =
      map_option (more_async pre) (supervise_acquisition request options once start as)" by auto
  with Cons.prems show ?case
    by (intro exI [of _ "[Sent_Acquire request (aa_reply x)] @ pre"])
      (auto simp: async_undisturbed_def more_async_def option.map_comp comp_def)
qed

lemma supervise_acquires:
  assumes "list_all (async_undisturbed options start) as" and "list_all (\<lambda>a. \<not> isl (aa_reply a)) as"
    and "\<exists>a\<in>set as. aa_reply a = Inr True" and "\<not> once \<or> length as = 1"
  obtains g evs where "supervise_acquisition request options once start as = Some (Some (Inr (Some g)), evs)"
    and "ag_lease g = lease_new (aa_attempt (first_success aa_reply as)) (effective_ttl options)"
proof -
  let ?w = "first_success aa_reply as"
  obtain xs ys where as: "as = xs @ ?w # ys" "list_all (\<lambda>a. aa_reply a = Inr False) xs" "aa_reply ?w = Inr True"
    using first_success_split [OF assms(3,2)] by blast
  have und: "list_all (async_undisturbed options start) xs" "async_undisturbed options start ?w"
    using assms(1) by (subst (asm) as(1), simp)+
  have "\<not> once \<or> xs = []"
  proof (cases xs)
    case (Cons x xs')
    then have "length as \<noteq> 1" by (subst as(1)) simp
    with assms(4) show ?thesis by simp
  qed simp
  from supervise_passes [OF und(1) as(2) this] obtain pre where
    loop: "supervise_acquisition request options once start as =
      map_option (more_async pre) (supervise_acquisition request options once start (?w # ys))"
    using as(1) by metis
  obtain g evs where g: "async_acquired request options start ?w = (Some (Inr (Some g)), evs)"
    "ag_lease g = lease_new (aa_attempt ?w) (effective_ttl options)"
    using async_acquired_undisturbed [OF und(2) as(3)] by blast
  with und(2) as(3) loop that [OF _ g(2)] show thesis
    by (simp add: async_undisturbed_def more_async_def)
qed

definition async_caller_undisturbed :: "acquire_options \<Rightarrow> instant \<Rightarrow> async_env \<Rightarrow> bool" where
  "async_caller_undisturbed options start e \<longleftrightarrow>
     (let l = lease_new (aa_attempt (first_success aa_reply (ae_attempts e))) (effective_ttl options) in
      \<not> deadline_elapsed start (ao_lock_timeout options) (ae_start_now e) \<and> \<not> isl (ae_admitted e) \<and>
      ae_wake e = Got_Result \<and> \<not> deadline_elapsed start (ao_lock_timeout options) (ae_now e) \<and> ae_open e \<and>
      fst (lease_get_state (ae_lease_now e) (lease_run (ae_renewals e) l)) = Active)"

lemma async_internal_acquires:
  assumes "list_all (async_undisturbed options start) (ae_attempts e)"
    and "list_all (\<lambda>a. \<not> isl (aa_reply a)) (ae_attempts e)"
    and "\<exists>a\<in>set (ae_attempts e). aa_reply a = Inr True" and "\<not> once \<or> length (ae_attempts e) = 1"
    and "async_caller_undisturbed options start e"
  shows "\<exists>g evs. async_acquire_internal uuid target options once start e = Some (Some (Inr (Some g)), evs)"
proof -
  let ?request = "\<lparr>lr_target = target, lr_uuid = uuid\<rparr>"
  obtain g evs where loop: "supervise_acquisition ?request options once start (ae_attempts e) =
      Some (Some (Inr (Some g)), evs)"
    and lease: "ag_lease g = lease_new (aa_attempt (first_success aa_reply (ae_attempts e))) (effective_ttl options)"
    using supervise_acquires [OF assms(1-4)] by blast
  note caller = assms(5) [unfolded async_caller_undisturbed_def Let_def, folded lease]
  obtain u where "ae_admitted e = Inr u" using caller by (cases "ae_admitted e") auto
  with caller loop show ?thesis
    by (simp add: async_acquire_internal_def task_stopped_def Let_def check_result_def async_guard_after_def)
qed

subsection \<open>Properties\<close>

text \<open>
  C12: A sync acquisition gets a lock that is free in time. Let the server answer the attempts of an acquisition,
  among any commands of others and of the clock, none with an error, and let the target have no live holder when
  the last attempt arrives, for instance because its holder released it or crashed. If the client is not
  disturbed, by a cancellation, a shutdown, its deadline, a connection or thread that it does not get, or a TTL
  that is over before its checks, then the caller gets a guard, from this attempt or an earlier one. A single
  attempt gets a free lock at once.
\<close>

theorem sync_free_lock_is_acquired:
  assumes "redis_clock call view now advance" and "table_ok (view s)"
    and "ie_attempts e = es @ [a]" and "\<not> once \<or> es = []"
    and "replied call now advance target uuid (effective_ttl options) (List.map at_reply es) s t"
    and "list_all (\<lambda>a. \<not> isl (at_reply a)) es"
    and "free_target now view target t" and "ttl_in_range (now t) (effective_ttl options)"
    and "at_reply a = fst (send_acquire call target uuid (effective_ttl options) t)"
    and "list_all (attempt_undisturbed options start) (es @ [a])" and "caller_undisturbed options start e"
  shows "\<exists>g evs. acquire_internal is_io uuid target options once start e = Some (Inr (Some g), evs)"
proof (rule internal_acquires [OF _ _ _ _ assms(11)])
  have "table_ok (view t)" by (rule redis_clock.replied_ok [OF assms(1,5,2)])
  then have "at_reply a = Inr True"
    unfolding assms(9) by (rule redis_clock.free_target_acquired [OF assms(1,7) _ assms(8)])
  then show "list_all (\<lambda>a. \<not> isl (at_reply a)) (ie_attempts e)" "\<exists>a\<in>set (ie_attempts e). at_reply a = Inr True"
    using assms(3,6) by simp_all
qed (use assms in simp_all)

text \<open>
  C13: An async acquisition gets a lock that is free in time, under the same conditions, and if its future is not
  dropped.
\<close>

theorem async_free_lock_is_acquired:
  assumes "redis_clock call view now advance" and "table_ok (view s)"
    and "ae_attempts e = as @ [a]" and "\<not> once \<or> as = []"
    and "replied call now advance target uuid (effective_ttl options) (List.map aa_reply as) s t"
    and "list_all (\<lambda>a. \<not> isl (aa_reply a)) as"
    and "free_target now view target t" and "ttl_in_range (now t) (effective_ttl options)"
    and "aa_reply a = fst (send_acquire call target uuid (effective_ttl options) t)"
    and "list_all (async_undisturbed options start) (as @ [a])" and "async_caller_undisturbed options start e"
  shows "\<exists>g evs. async_acquire_internal uuid target options once start e = Some (Some (Inr (Some g)), evs)"
proof (rule async_internal_acquires [OF _ _ _ _ assms(11)])
  have "table_ok (view t)" by (rule redis_clock.replied_ok [OF assms(1,5,2)])
  then have "aa_reply a = Inr True"
    unfolding assms(9) by (rule redis_clock.free_target_acquired [OF assms(1,7) _ assms(8)])
  then show "list_all (\<lambda>a. \<not> isl (aa_reply a)) (ae_attempts e)" "\<exists>a\<in>set (ae_attempts e). aa_reply a = Inr True"
    using assms(3,6) by simp_all
qed (use assms in simp_all)

subsection \<open>Examples\<close>

text \<open>Another process holds a lock for \<open>n\<close> ms and crashes; a request is refused until then.\<close>

definition crashed_server :: "lock_target \<Rightarrow> nat \<Rightarrow> mem" where
  "crashed_server target n = snd (send_acquire mem_call target ''v'' (from_millis n) (mem_init 0))"

definition refused_server :: "lock_target \<Rightarrow> nat \<Rightarrow> duration \<Rightarrow> mem" where
  "refused_server target n ttl = snd (send_acquire mem_call target ''u'' ttl (crashed_server target n))"

lemma kinds_None [simp]: "kind_ok m None"
  by (cases m) simp_all

lemma not_blocked_None [simp]: "\<not> blocked m n None"
  by (cases m) (simp_all add: has_writer_def has_holder_def)

lemma crashed_view:
  assumes "ttl_in_range 0 (from_millis n)" and "k \<in> set (target_keys target)"
  shows "mem_view (crashed_server target n) k = taken (target_mode target) ''v'' 0 (int n) None"
  using assms
  by (simp add: crashed_server_def mem.send_acquire_table table_acquire_def all_or_nothing_def Let_def
      update_at_apply expiry_at_def)

lemma crashed_now [simp]: "m_now (crashed_server target n) = 0"
  by (simp add: crashed_server_def mem.now_send)

lemma crashed_kinds:
  "ttl_in_range 0 (from_millis n) \<Longrightarrow>
     \<forall>k\<in>set (target_keys target). kind_ok (target_mode target) (mem_view (crashed_server target n) k)"
  by (cases "target_mode target")
    (auto simp: crashed_view taken_abs claim_read_def claim_write_def)

lemma crashed_refuses:
  assumes "ttl_in_range 0 (from_millis n)" and "ttl_in_range 0 ttl" and "target \<in> {Single k, Write k}"
  shows "send_acquire mem_call target ''u'' ttl (crashed_server target n) = (Inr False, refused_server target n ttl)"
    and "mem_view (mem_advance (int n + 1) (refused_server target n ttl)) k = None"
proof -
  have range: "ttl_in_range (m_now (crashed_server target n)) ttl" using assms(2) by simp
  note table = mem.send_acquire_table [OF range crashed_kinds [OF assms(1)], of "''u''"]
  have n: "0 < int n" using assms(1) by (simp add: ttl_in_range_def)
  have blocked: "blocked (target_mode target) 0 (mem_view (crashed_server target n) k)"
    "checked (target_mode target) 0 (mem_view (crashed_server target n) k) = mem_view (crashed_server target n) k"
    using assms(3) n
    by (auto simp: crashed_view [OF assms(1)] taken_abs claim_mutex_def claim_write_def has_holder_def
        purge_entry_def put_zset_def zset_purge_def fun_eq_iff split: option.splits)
  have keys: "target_keys target = [k]" using assms(3) by auto
  show "send_acquire mem_call target ''u'' ttl (crashed_server target n) = (Inr False, refused_server target n ttl)"
    using table(1) blocked(1) by (simp add: refused_server_def prod_eq_iff table_acquire_def Let_def keys)
  have "mem_view (refused_server target n ttl) k = mem_view (crashed_server target n) k"
    using table(2) blocked by (simp add: refused_server_def table_acquire_def all_or_nothing_def Let_def keys
        update_at_apply)
  moreover have "m_now (refused_server target n ttl) = 0" by (simp add: refused_server_def mem.now_send)
  ultimately show "mem_view (mem_advance (int n + 1) (refused_server target n ttl)) k = None"
    using assms(3)
    by (auto simp: memc.view_advance crashed_view [OF assms(1)] taken_abs claim_mutex_def claim_write_def expire_at_def)
qed

lemma crashed_replied:
  assumes "ttl_in_range 0 (from_millis n)" and "ttl_in_range 0 ttl" and "target \<in> {Single k, Write k}"
  defines "t \<equiv> mem_advance (int n + 1) (refused_server target n ttl)"
  shows "replied mem_call m_now mem_advance target ''u'' ttl [Inr False] (crashed_server target n) t"
    and "free_target m_now mem_view target t" and "m_now t = int n + 1"
proof -
  show "m_now t = int n + 1" by (simp add: t_def memc.now_advance refused_server_def mem.now_send)
  have "lock_path mem_call m_now mem_advance (\<lambda>a. a \<noteq> Some ''u'') (refused_server target n ttl) t"
    unfolding t_def by (rule path_step [OF path_refl step_tick]) simp_all
  then show "replied mem_call m_now mem_advance target ''u'' ttl [Inr False] (crashed_server target n) t"
    using crashed_refuses(1) [OF assms(1-3)] assms(2)
    by (intro replied_next [OF path_refl _ _ replied_end]) simp_all
  have "mem_view t k = None" unfolding t_def by (rule crashed_refuses(2) [OF assms(1-3)])
  moreover have "\<not> holds m w e None" for m w e using holds_not_None by blast
  ultimately show "free_target m_now mem_view target t"
    using assms(3) by (auto simp: free_target_def)
qed

lemma crashed_server_ok: "ttl_in_range 0 (from_millis n) \<Longrightarrow> table_ok (mem_view (crashed_server target n))"
  unfolding crashed_server_def by (rule memc.send_acquire_ok) (simp_all add: table_ok_empty)

theorem sync_free_lock_is_acquired_witness:
  "\<exists>g evs. acquire_internal (\<lambda>_. True) ''u'' (Single ''job'') example_options False 0
     (example_internal [example_attempt 0 (Inr False), example_attempt (from_millis 110) (Inr True)]) =
   Some (Inr (Some g), evs)"
proof -
  let ?t = "mem_advance (int 50 + 1) (refused_server (Single ''job'') 50 (from_millis 30000))"
  have range: "ttl_in_range 0 (from_millis 50)" "ttl_in_range 0 (from_millis 30000)" "ttl_in_range 51 (from_millis 30000)"
    by (simp_all add: ttl_in_range_def max_exact_def)
  have ttl: "effective_ttl example_options = from_millis 30000"
    by (simp add: effective_ttl_def example_options_def as_u64_def)
  note r = crashed_replied [OF range(1,2), of "Single ''job''" "''job''", simplified]
  have ok: "table_ok (mem_view ?t)"
    using memc.replied_ok [OF r(1) crashed_server_ok [OF range(1)]] by simp
  have "fst (send_acquire mem_call (Single ''job'') ''u'' (from_millis 30000) ?t) = Inr True"
    using r(2,3) ok range(3) by (intro memc.free_target_acquired) simp_all
  moreover have "list_all (attempt_undisturbed example_options 0)
      [example_attempt 0 (Inr False), example_attempt (from_millis 110) (Inr True)]"
    by (simp add: attempt_undisturbed_def example_defs)
  moreover have "caller_undisturbed example_options 0
      (example_internal [example_attempt 0 (Inr False), example_attempt (from_millis 110) (Inr True)])"
    by (simp add: caller_undisturbed_def first_success_def handover_def example_defs)
  ultimately show ?thesis
    using sync_free_lock_is_acquired [OF memc.redis_clock_axioms crashed_server_ok [OF range(1)], of
        "example_internal [example_attempt 0 (Inr False), example_attempt (from_millis 110) (Inr True)]"
        "[example_attempt 0 (Inr False)]" "example_attempt (from_millis 110) (Inr True)" False
        "Single ''job''" "''u''" example_options "Single ''job''" ?t 0 "\<lambda>_. True"] r range(3)
    by (simp add: ttl example_internal_def) (simp add: example_attempt_def)
qed

theorem async_free_lock_is_acquired_witness:
  "\<exists>g evs. async_acquire_internal ''u'' (Write ''doc'') async_options False 0
     (async_example [async_pass 0 (Inr False), async_pass 1000003 (Inr True)] Got_Result) =
   Some (Some (Inr (Some g)), evs)"
proof -
  let ?t = "mem_advance (int 3 + 1) (refused_server (Write ''doc'') 3 (from_millis 10))"
  have range: "ttl_in_range 0 (from_millis 3)" "ttl_in_range 0 (from_millis 10)" "ttl_in_range 4 (from_millis 10)"
    by (simp_all add: ttl_in_range_def max_exact_def)
  have ttl: "effective_ttl async_options = from_millis 10"
    by (simp add: effective_ttl_def async_options_def as_u64_def)
  note r = crashed_replied [OF range(1,2), of "Write ''doc''" "''doc''", simplified]
  have ok: "table_ok (mem_view ?t)"
    using memc.replied_ok [OF r(1) crashed_server_ok [OF range(1)]] by simp
  have "fst (send_acquire mem_call (Write ''doc'') ''u'' (from_millis 10) ?t) = Inr True"
    using r(2,3) ok range(3) by (intro memc.free_target_acquired) simp_all
  moreover have "list_all (async_undisturbed async_options 0) [async_pass 0 (Inr False), async_pass 1000003 (Inr True)]"
    by (simp add: async_undisturbed_def async_example_defs)
  moreover have "async_caller_undisturbed async_options 0
      (async_example [async_pass 0 (Inr False), async_pass 1000003 (Inr True)] Got_Result)"
    by (simp add: async_caller_undisturbed_def first_success_def async_example_defs)
  ultimately show ?thesis
    using async_free_lock_is_acquired [OF memc.redis_clock_axioms crashed_server_ok [OF range(1)], of
        "async_example [async_pass 0 (Inr False), async_pass 1000003 (Inr True)] Got_Result"
        "[async_pass 0 (Inr False)]" "async_pass 1000003 (Inr True)" False
        "Write ''doc''" "''u''" async_options "Write ''doc''" ?t 0] r range(3)
    by (simp add: ttl async_example_def) (simp add: async_pass_def)
qed

end
