(* ===== verification/Spec2Isabelle.thy ===== *)
theory Spec2Isabelle
  imports Server_Properties Lease_Safety Options Keys Errors Lease Pool Manager_Setup Sync_Manager
    Async_Manager Retry_Wait Sync_Guard Sync_Renewal Sync_Api Async_Guard Async_Renewal Async_Api
    Guard_Safety End_To_End Release_System Crash_Safety
    Shutdown_Liveness Acquisition_Liveness
begin

text \<open>
  The rlock library: locks in Redis with a sync and an async variant.

  \<^bold>\<open>The program.\<close> A lock is taken by writing a key (mutexes) or a member of a sorted set (read and write
  locks) with an expiry time, by a \<open>SET NX PX\<close> or by one of nine Lua scripts (\<open>src/scripts.rs\<close>). A request
  (\<open>src/lock_request.rs\<close>) is a target, one of six kinds over one or many keys, and the uuid of its owner.
  A process acquires a target by trying until it succeeds, its timeout passes or its manager shuts down;
  it gets a guard, which knows the lock locally as a lease (\<open>src/lease.rs\<close>), renews it in the background,
  and gives it back when it is released or dropped. A dropped guard does not talk to Redis: it puts its
  request into the queue of the manager, whose worker sends the releases. Shutting down a manager puts a
  barrier into the queue and waits until the worker gets to it.

  \<^bold>\<open>Theories, in the order of the layers.\<close>

  \<^item> \<open>Prelude\<close> names the types and durations and has the lemmas on maps and lists the others share;
    \<open>Decimal\<close> prints and reads the numbers in arguments and scores.
  \<^item> \<open>Redis\<close> is what the code relies on of the server: the commands the scripts call, the replies, and two
    locales, \<open>redis_server\<close> (what each command returns and leaves behind) and \<open>redis_clock\<close> (time passes).
    The server is not part of the repository, so it is a parameter everywhere; \<open>Mem_Redis\<close> is a server in
    memory that satisfies both contracts and on which all witnesses run.
  \<^item> \<open>Lua_Scripts\<close> models \<open>src/scripts.rs\<close> script by script: a small monad for Lua with early return and
    errors, the three preflight fragments, the nine scripts. \<open>Script_Facts\<close> and \<open>RW_Script_Facts\<close> compute
    what every script returns and leaves behind.
  \<^item> \<open>Lock_Request\<close> (\<open>src/lock_request.rs\<close>), \<open>Pool\<close> (\<open>src/sync_lock/pool.rs\<close>, with the redis client as a
    parameter) and \<open>Operations\<close> (\<open>operations.rs\<close> of both variants): the commands and their delivery.
  \<^item> \<open>Lock_Table\<close> is the abstract specification: a table of holders with all-or-nothing operations, which
    the commands refine. \<open>Lock_Safety\<close> and \<open>Lock_Steps\<close> prove exclusion, the invariant of the entries and
    that a holder keeps its key on all paths of commands of any processes and of the clock;
    \<open>Server_Properties\<close> states the results. \<open>Crash_Safety\<close> follows holders back to the command they come
    from: what a crashed process leaves behind is over after its TTL.
  \<^item> \<open>Options\<close> (\<open>src/options.rs\<close>), \<open>Keys\<close> (\<open>src/functions.rs\<close>, \<open>src/lock_keys.rs\<close>), \<open>Errors\<close>
    (\<open>src/errors.rs\<close>) and \<open>Lease\<close> (\<open>src/lease.rs\<close>): values and their validation; the lease with every
    reading of the clock as an argument, and its histories.
  \<^item> \<open>Lease_Safety\<close> relates the clock of a lease to that of the server: an active lease means that the expiry
    time which the server set is not over, with a margin of a millisecond for read-write locks, without which
    this is false.
  \<^item> \<open>Release_Queue\<close>, \<open>Sync_Manager\<close>, \<open>Async_Manager\<close> (\<open>manager.rs\<close> of both variants) are state machines with
    one step per atomic access: the bounded queue with its worker, admission, and \<open>shutdown\<close> called by any
    number of threads. The locale \<open>barrier_channel\<close> is what both managers use of the queue.
    \<open>Shutdown_Liveness\<close> bounds the steps a shutdown needs by the work that is left. \<open>Retry_Wait\<close>
    is the protocol of the condition variable between attempts. \<open>Manager_Setup\<close> has the constructors.
  \<^item> \<open>Guard_Events\<close> and \<open>Renewal\<close> are shared by the guards of both variants; \<open>Sync_Guard\<close> and \<open>Sync_Renewal\<close>
    model \<open>src/sync_lock/guard.rs\<close>, \<open>Async_Guard\<close> and \<open>Async_Renewal\<close> model \<open>src/async_lock/guard.rs\<close>.
  \<^item> \<open>Guard_Safety\<close> lets the server execute the commands of an acquisition that returned a guard and of its
    renewals, each after it was sent: as long as the lease of the guard is active (for a read-write lock: and will
    be for another millisecond) nobody else gets the lock, and a punctual guard keeps its lock for ever.
    \<open>End_To_End\<close> lets it execute the events of an acquisition that returned no guard: nothing is left if no release
    was lost, and otherwise nothing that lasts longer than the TTL. In both,
    commands and replies can be lost, and other processes send what they like.
  \<^item> \<open>Acquisition_Liveness\<close> lets the server answer the attempts of an acquisition that nothing disturbs: it gets a
    guard if the target is free for one of them.
  \<^item> \<open>Release_System\<close> runs the state machine of a manager among the commands that reach the server, for the
    releases of dropped guards. The locale \<open>release_service\<close> is the contract of a manager, interpreted by both
    variants; \<open>release_system\<close> joins it with the contract of the server.
  \<^item> \<open>Api_Calls\<close>, \<open>Sync_Api\<close>, \<open>Async_Api\<close>: the public locks (\<open>lock.rs\<close>, \<open>rw_lock.rs\<close>, \<open>multi_key_lock.rs\<close>,
    \<open>multi_key_rw_lock.rs\<close> of both variants). The locale \<open>acquisition\<close> is the contract of
    \<open>acquire_internal\<close> on which they rely, interpreted by both variants.

  \<^bold>\<open>How the code is translated.\<close> Durations and instants are nanoseconds in \<open>nat\<close>, whose subtraction saturates
  as the code's does; a cast to 64 bits is \<open>mod 2 ^ 64\<close>. \<open>Result\<close> is a sum, \<open>Inl\<close> the error. What another crate
  or the server answers is an argument. The loops of acquisition, renewal and waiting run over a list of
  passes, each a record of what the pass reads in the order of the code (clock, flags, replies, and what
  other tasks do to the lease in between); a list that is exhausted means that the loop still runs, which
  is \<open>None\<close>. There is no other fuel. That a loop returns is proved for lists that are long enough for the
  timeout: one pass more than retry intervals fill the timeout (\<open>sync_acquire_ends\<close>, \<open>async_acquire_ends\<close>), and
  one pass per day of remaining time for \<open>wait_until_inactive\<close>. What a function does to the outside is a list
  of events (\<open>Guard_Events\<close>), each with its outcome: the reply to a command, and for a release that is put into the
  queue whether \<open>try_send\<close> took it. A worker thread or task that panics or is stopped leaves a prefix of its events,
  and the drop of its guard when it unwinds.

  \<^bold>\<open>What is shown.\<close> On the server: mutual exclusion, refinement of the table, all-or-nothing
  acquisition and renewal, releases that touch nobody else, rejection of bad arguments before any write. Of a
  lease: it never revives, it is only ever extended by what Redis confirmed, and while it is active (with the
  margin of a millisecond for read-write locks) the lock is exclusive. Of an acquisition: it ends, it gets a lock
  that is free in time, and its guard owns the lock. It leaks nothing through any error, race, cancellation or
  drop, neither among its events nor on the server, unless a release fails or does not fit in the queue, or its
  worker panics: the code only logs these, and then the lock is over after its TTL. Of a guard: through its
  acquisition and its renewals it protects the resource while its lease is active, with the same margin, it keeps
  its lock if it is punctual, and it sends its releases until the first that succeeds, or queues one when it is
  dropped. Of the managers: \<open>shutdown\<close>
  is final, can always come to its end in at most 2063 steps (two for each of the 1024 places of the queue and
  15 more), no wakeup is lost, and when it returns the server has no trace of the guards that were dropped
  before, if the queue accepted their releases and these were not lost on the way. A process that crashes, or a
  release that is lost, blocks nobody after its TTL. Of the connection pool: it stays within its bound, no two
  threads share a connection, and one whose command failed is not used again. Of the public
  functions: they do not panic for valid keys. Of values: validation accepts exactly what it should, built keys
  can be read back.

  \<^bold>\<open>Not modelled.\<close> Logging, \<open>Debug\<close> output and the text of the panic messages
  of mutexes; \<open>src/lib.rs\<close> and the module files, which only document and re-export; the tests with
  \<open>src/test_proxy.rs\<close> and \<open>src/test_support.rs\<close>. Poisoned mutexes are not modelled,
  because no code panics while it holds one; a panic in the thread that calls a function (not in its worker) is no
  result of the model. The guards and their
  threads are modelled apart from the state machine of their manager; they meet in the queue, where
  \<open>Release_System\<close> composes a dropped guard, its manager and the server. In
  \<open>Guard_Safety\<close> and \<open>End_To_End\<close> a command whose reply was lost was executed before
  the next command of its request, or never; that it arrives later still is covered by
  \<open>Crash_Safety\<close>, where it counts as the last command. Uuids are arguments, distinct where a
  statement says so. The clocks of client and server run at the same rate. Replication and failover of Redis are
  outside the contract of \<open>redis_server\<close>.
\<close>

end
